(* ===== verification/Prelude.thy ===== *)
theory Prelude
  imports Main "HOL-Library.Word"
begin

text \<open>
  Shared vocabulary of the development: the widths of the machine integers, the shape of
  lap::core::Result (a sum whose left side is the error), C character buffers as filled by
  std::strncpy, and the generic lemmas on words, lists and buffers that the component
  theories use.  Two collections carry the proofs: \<open>op_defs\<close> gathers the definitions
  of the guards and small operations that a proof normally unfolds, \<open>buf_simps\<close> the
  facts on fixed-size character buffers.
\<close>

unbundle bit_operations_syntax

named_theorems op_defs "definitions of small guards and accessors"
named_theorems buf_simps "facts on fixed-size character buffers"

type_synonym u8 = "8 word"
type_synonym u16 = "16 word"
type_synonym u32 = "32 word"
type_synonym u64 = "64 word"

subsection \<open>Words\<close>

lemma low_bits_mask:
  fixes w :: "'a::len word"
  shows "w AND mask n = take_bit n w"
  by (simp add: take_bit_eq_mask)

lemma unat_and_1023:
  fixes w :: u64
  shows "unat (w AND 1023) = unat w mod 1024"
proof -
  have "(1023::u64) = mask 10"
    by (simp add: mask_eq_exp_minus_1)
  then have "unat (w AND 1023) = take_bit 10 (unat w)"
    by (simp only: take_bit_eq_mask [symmetric] unsigned_take_bit_eq)
  then show ?thesis
    by (simp add: take_bit_eq_mod)
qed

lemma unat_and_65535:
  fixes w :: u64
  shows "unat (w AND 65535) = unat w mod 65536"
proof -
  have "(65535::u64) = mask 16"
    by (simp add: mask_eq_exp_minus_1)
  then have "unat (w AND 65535) = take_bit 16 (unat w)"
    by (simp only: take_bit_eq_mask [symmetric] unsigned_take_bit_eq)
  then show ?thesis
    by (simp add: take_bit_eq_mod)
qed

lemma word_neq_0_unat:
  fixes w :: "'a::len word"
  shows "w \<noteq> 0 \<longleftrightarrow> 0 < unat w"
  by (metis unat_eq_zero gr_zeroI less_numeral_extra(3))

subsection \<open>Character buffers\<close>

text \<open>The C string that starts at the head of a buffer: the bytes before the first NUL.\<close>

definition c_str :: "char list \<Rightarrow> string" where
  "c_str buf = takeWhile (\<lambda>c. c \<noteq> CHR 0x00) buf"

text \<open>
  \<open>std::strncpy (dst, src, n)\<close> on a buffer of at least \<open>n\<close> bytes: at most \<open>n\<close>
  characters of the source string, then NUL padding up to \<open>n\<close>; bytes from \<open>n\<close> on stay.
\<close>

definition strncpy :: "char list \<Rightarrow> string \<Rightarrow> nat \<Rightarrow> char list" where
  "strncpy dst src n =
     (let s = take n (c_str src) in s @ replicate (n - length s) (CHR 0x00) @ drop n dst)"

text \<open>The idiom of the code: copy \<open>size - 1\<close> bytes and force the last one to NUL.\<close>

definition set_cbuf :: "char list \<Rightarrow> string \<Rightarrow> char list" where
  "set_cbuf dst src = (strncpy dst src (length dst - 1))[length dst - 1 := CHR 0x00]"

lemma length_strncpy [buf_simps]: "n \<le> length dst \<Longrightarrow> length (strncpy dst src n) = length dst"
  by (auto simp: strncpy_def Let_def)

lemma length_set_cbuf [buf_simps, simp]: "length (set_cbuf dst src) = length dst"
  by (simp add: set_cbuf_def length_strncpy)

lemma takeWhile_append_replicate_stop:
  "\<not> P x \<Longrightarrow> takeWhile P (xs @ replicate n x) = takeWhile P xs"
  by (induction xs) (cases n, auto)

lemma c_str_take: "c_str (take n (c_str s)) = take n (c_str s)"
  by (auto simp: c_str_def takeWhile_eq_all_conv dest: in_set_takeD set_takeWhileD)

lemma c_str_set_cbuf [buf_simps]:
  assumes "dst \<noteq> []"
  shows "c_str (set_cbuf dst src) = take (length dst - 1) (c_str src)"
proof -
  let ?n = "length dst - 1"
  let ?s = "take ?n (c_str src)"
  obtain l where l: "drop ?n dst = [l]"
    using assms by (metis append_butlast_last_id append_eq_conv_conj length_butlast)
  have len: "length (?s @ replicate (?n - length ?s) (CHR 0x00)) = ?n"
    by simp
  have "set_cbuf dst src = (?s @ replicate (?n - length ?s) (CHR 0x00)) @ [CHR 0x00]"
    unfolding set_cbuf_def strncpy_def Let_def l
    by (metis append.assoc len list_update_length)
  then have "set_cbuf dst src = ?s @ replicate (Suc (?n - length ?s)) (CHR 0x00)"
    by (simp add: replicate_append_same)
  moreover have "c_str (?s @ replicate (Suc (?n - length ?s)) (CHR 0x00)) = c_str ?s"
    unfolding c_str_def by (rule takeWhile_append_replicate_stop) simp
  ultimately show ?thesis
    by (simp only: c_str_take)
qed

lemma c_str_no_nul [buf_simps]: "CHR 0x00 \<notin> set s \<Longrightarrow> c_str s = s"
  by (auto simp: c_str_def takeWhile_eq_all_conv)

subsection \<open>Lists updated at an index\<close>

lemma nth_update_same: "i < length xs \<Longrightarrow> xs[i := v] ! i = v"
  by simp

lemma nth_update_other: "i \<noteq> j \<Longrightarrow> xs[i := v] ! j = xs ! j"
  by simp

end
