(* ===== verification/ComTypes.thy ===== *)
theory ComTypes
  imports Prelude
begin

text \<open>
  inc/ComTypes.hpp and runtime/inc/ServiceHandleType.hpp: the error enumeration of the Com
  error domain with its numeric codes and messages, the result type of every fallible
  operation, the service version and the service handle with their orderings, and the small
  state enumerations.  The orderings are given as instances of \<open>linorder\<close>, so that the
  library's sorted containers and the totality of \<open>operator<\<close> come from the class.
\<close>

subsection \<open>Errors\<close>

datatype com_errc =
    kServiceNotAvailable
  | kMaxSamplesExceeded
  | kNetworkBindingFailure
  | kGrantEnforcementError
  | kFieldValueIsNotValid
  | kSetHandlerNotSet
  | kUnsetFailure
  | kIllegalUseOfAllocate
  | kBindingConnectionError
  | kCommunicationLinkError
  | kNoClientsConnected
  | kInvalidArgument
  | kServiceNotOffered
  | kWrongMethodCallProcessing
  | kPeerIsUnreachable
  | kSampleAllocationFailure
  | kMaxSampleCountNotRealizable
  | kNotInitialized
  | kTimeout
  | kMessageTooLarge
  | kSerializationError
  | kDeserializationError
  | kNotSupported
  | kInvalidState
  | kInternal
  | kNotImplemented
  | kSharedMemoryCreationFailed
  | kSharedMemoryResizeFailed
  | kSharedMemoryMappingFailed
  | kSlotIndexInvalid
  | kSlotConflict
  | kSlotAlreadyReserved
  | kMemfdCreateFailed
  | kMemfdSealingFailed
  | kSocketCreationFailed
  | kSocketBindFailed
  | kSocketConnectFailed
  | kSocketListenFailed
  | kFdPassingFailed
  | kFdReceiveFailed
  | kPermissionDenied

fun errc_code :: "com_errc \<Rightarrow> int" where
  "errc_code kServiceNotAvailable = 0x01"
| "errc_code kMaxSamplesExceeded = 0x02"
| "errc_code kNetworkBindingFailure = 0x03"
| "errc_code kGrantEnforcementError = 0x04"
| "errc_code kFieldValueIsNotValid = 0x05"
| "errc_code kSetHandlerNotSet = 0x06"
| "errc_code kUnsetFailure = 0x07"
| "errc_code kIllegalUseOfAllocate = 0x08"
| "errc_code kBindingConnectionError = 0x09"
| "errc_code kCommunicationLinkError = 0x0A"
| "errc_code kNoClientsConnected = 0x0B"
| "errc_code kInvalidArgument = 0x0C"
| "errc_code kServiceNotOffered = 0x0D"
| "errc_code kWrongMethodCallProcessing = 0x0E"
| "errc_code kPeerIsUnreachable = 0x0F"
| "errc_code kSampleAllocationFailure = 0x10"
| "errc_code kMaxSampleCountNotRealizable = 0x11"
| "errc_code kNotInitialized = 0x12"
| "errc_code kTimeout = 0x13"
| "errc_code kMessageTooLarge = 0x14"
| "errc_code kSerializationError = 0x15"
| "errc_code kDeserializationError = 0x16"
| "errc_code kNotSupported = 0x17"
| "errc_code kInvalidState = 0x18"
| "errc_code kInternal = 0x19"
| "errc_code kNotImplemented = 0x1A"
| "errc_code kSharedMemoryCreationFailed = 0x100"
| "errc_code kSharedMemoryResizeFailed = 0x101"
| "errc_code kSharedMemoryMappingFailed = 0x102"
| "errc_code kSlotIndexInvalid = 0x103"
| "errc_code kSlotConflict = 0x104"
| "errc_code kSlotAlreadyReserved = 0x105"
| "errc_code kMemfdCreateFailed = 0x106"
| "errc_code kMemfdSealingFailed = 0x107"
| "errc_code kSocketCreationFailed = 0x108"
| "errc_code kSocketBindFailed = 0x109"
| "errc_code kSocketConnectFailed = 0x10A"
| "errc_code kSocketListenFailed = 0x10B"
| "errc_code kFdPassingFailed = 0x10C"
| "errc_code kFdReceiveFailed = 0x10D"
| "errc_code kPermissionDenied = 0x10E"

text \<open>The enumerators in the order of the source, i.e. with increasing codes.\<close>

definition all_errc :: "com_errc list" where
  "all_errc = [
     kServiceNotAvailable, kMaxSamplesExceeded, kNetworkBindingFailure,
     kGrantEnforcementError, kFieldValueIsNotValid, kSetHandlerNotSet,
     kUnsetFailure, kIllegalUseOfAllocate, kBindingConnectionError,
     kCommunicationLinkError, kNoClientsConnected, kInvalidArgument,
     kServiceNotOffered, kWrongMethodCallProcessing, kPeerIsUnreachable,
     kSampleAllocationFailure, kMaxSampleCountNotRealizable, kNotInitialized,
     kTimeout, kMessageTooLarge, kSerializationError,
     kDeserializationError, kNotSupported, kInvalidState,
     kInternal, kNotImplemented, kSharedMemoryCreationFailed,
     kSharedMemoryResizeFailed, kSharedMemoryMappingFailed, kSlotIndexInvalid,
     kSlotConflict, kSlotAlreadyReserved, kMemfdCreateFailed,
     kMemfdSealingFailed, kSocketCreationFailed, kSocketBindFailed,
     kSocketConnectFailed, kSocketListenFailed, kFdPassingFailed,
     kFdReceiveFailed, kPermissionDenied]"

definition errc_of_code :: "int \<Rightarrow> com_errc option" where
  "errc_of_code n = find (\<lambda>c. errc_code c = n) all_errc"

fun errc_message :: "com_errc \<Rightarrow> string" where
  "errc_message kServiceNotAvailable = ''Service is not available''"
| "errc_message kMaxSamplesExceeded = ''Maximum number of samples exceeded''"
| "errc_message kNetworkBindingFailure = ''Network binding failed''"
| "errc_message kGrantEnforcementError = ''Grant enforcement error''"
| "errc_message kFieldValueIsNotValid = ''Field value is not valid''"
| "errc_message kSetHandlerNotSet = ''Set handler not set''"
| "errc_message kUnsetFailure = ''Unset operation failed''"
| "errc_message kIllegalUseOfAllocate = ''Illegal use of Allocate''"
| "errc_message kBindingConnectionError = ''Binding connection error''"
| "errc_message kCommunicationLinkError = ''Communication link error''"
| "errc_message kNoClientsConnected = ''No clients connected''"
| "errc_message kInvalidArgument = ''Invalid argument provided''"
| "errc_message kServiceNotOffered = ''Service not offered''"
| "errc_message kWrongMethodCallProcessing = ''Wrong method call processing mode''"
| "errc_message kPeerIsUnreachable = ''Peer is unreachable''"
| "errc_message kSampleAllocationFailure = ''Sample allocation failed''"
| "errc_message kMaxSampleCountNotRealizable = ''Maximum sample count not realizable''"
| "errc_message kNotInitialized = ''Component not initialized''"
| "errc_message kTimeout = ''Operation timed out''"
| "errc_message kMessageTooLarge = ''Message size exceeds limit''"
| "errc_message kSerializationError = ''Serialization failed''"
| "errc_message kDeserializationError = ''Deserialization failed''"
| "errc_message kNotSupported = ''Operation not supported''"
| "errc_message kInvalidState = ''Invalid state for operation''"
| "errc_message kInternal = ''Internal error''"
| "errc_message kNotImplemented = ''Feature not yet implemented''"
| "errc_message kSharedMemoryCreationFailed = ''Failed to create shared memory''"
| "errc_message kSharedMemoryResizeFailed = ''Failed to resize shared memory''"
| "errc_message kSharedMemoryMappingFailed = ''Failed to mmap shared memory''"
| "errc_message kSlotIndexInvalid = ''Slot index out of range or reserved''"
| "errc_message kSlotConflict = ''Slot already occupied by different service''"
| "errc_message kSlotAlreadyReserved = ''Slot already reserved''"
| "errc_message kMemfdCreateFailed = ''memfd_create system call failed''"
| "errc_message kMemfdSealingFailed = ''Failed to seal memfd''"
| "errc_message kSocketCreationFailed = ''Failed to create Unix domain socket''"
| "errc_message kSocketBindFailed = ''Failed to bind socket''"
| "errc_message kSocketConnectFailed = ''Failed to connect to socket''"
| "errc_message kSocketListenFailed = ''Failed to listen on socket''"
| "errc_message kFdPassingFailed = ''Failed to pass file descriptor via SCM_RIGHTS''"
| "errc_message kFdReceiveFailed = ''Failed to receive file descriptor''"
| "errc_message kPermissionDenied = ''Insufficient permissions''"

text \<open>\<open>ComErrorDomain::Message\<close> on a raw code: the default branch for every other value.\<close>

definition domain_message :: "int \<Rightarrow> string" where
  "domain_message n =
     (case errc_of_code n of
        Some c \<Rightarrow> errc_message c
      | None \<Rightarrow> ''Unknown Communication Management error'')"

text \<open>
  An \<open>ErrorCode\<close> is the enumerator with its support data (the domain is always the Com
  domain).  \<open>Result\<close> is a sum, the error on the left.
\<close>

datatype error_code = ErrorCode (errc: com_errc) (support_data: int)

definition make_error_code :: "com_errc \<Rightarrow> int \<Rightarrow> error_code" where
  "make_error_code c d = ErrorCode c d"

type_synonym 'a result = "error_code + 'a"

abbreviation Err :: "com_errc \<Rightarrow> 'a result" where
  "Err c \<equiv> Inl (ErrorCode c 0)"

abbreviation Ok :: "'a \<Rightarrow> 'a result" where
  "Ok x \<equiv> Inr x"

fun has_value :: "'a result \<Rightarrow> bool" where
  "has_value (Inl _) = False"
| "has_value (Inr _) = True"

lemma has_value_iff: "has_value r \<longleftrightarrow> (\<exists>x. r = Ok x)"
  by (cases r) auto

lemma all_errc_complete: "c \<in> set all_errc"
  by (cases c) (simp_all add: all_errc_def)

lemma all_errc_codes_increasing: "sorted_wrt (<) (map errc_code all_errc)"
  by (simp add: all_errc_def)

lemma errc_code_inj: "errc_code c = errc_code d \<Longrightarrow> c = d"
proof -
  assume eq: "errc_code c = errc_code d"
  have "distinct (map errc_code all_errc)"
    using all_errc_codes_increasing strict_sorted_iff by blast
  then have "inj_on errc_code (set all_errc)"
    by (simp add: distinct_map)
  then show "c = d"
    using eq all_errc_complete by (simp add: inj_on_def)
qed

lemma errc_of_code_code: "errc_of_code (errc_code c) = Some c"
proof -
  have "find (\<lambda>d. errc_code d = errc_code c) xs = Some c" if "c \<in> set xs" for xs
    using that by (induction xs) (auto dest: errc_code_inj)
  then show ?thesis
    by (simp add: errc_of_code_def all_errc_complete)
qed

lemma errc_of_code_SomeD: "errc_of_code n = Some c \<Longrightarrow> errc_code c = n"
  by (auto simp: errc_of_code_def find_Some_iff)

lemma errc_of_code_None: "errc_of_code n = None \<Longrightarrow> n \<noteq> errc_code c"
  using errc_of_code_code [of c] by auto

subsection \<open>State enumerations\<close>

datatype subscription_state = kSubscribed | kNotSubscribed | kSubscriptionPending

datatype processing_mode = kPoll | kEvent | kEventSingleThread

datatype availability_state = kOffered | kNotOffered

datatype e2e_result =
    E2E_Ok | E2E_NotAvailable | E2E_NoNewData | E2E_Repeated | E2E_WrongSequence | E2E_Error

datatype e2e_check_status = E2ECheckStatus (e2e_res: e2e_result) (e2e_counter: u32)

subsection \<open>Service versions and handles\<close>

datatype service_version = ServiceVersion (majorVersion: u8) (minorVersion: u32)

definition version_eq :: "service_version \<Rightarrow> service_version \<Rightarrow> bool" where
  "version_eq a b \<longleftrightarrow> majorVersion a = majorVersion b \<and> minorVersion a = minorVersion b"

definition version_less :: "service_version \<Rightarrow> service_version \<Rightarrow> bool" where
  "version_less a b =
     (if majorVersion a \<noteq> majorVersion b then majorVersion a < majorVersion b
      else minorVersion a < minorVersion b)"

instantiation service_version :: linorder
begin

definition less_service_version :: "service_version \<Rightarrow> service_version \<Rightarrow> bool" where
  "less_service_version a b = version_less a b"

definition less_eq_service_version :: "service_version \<Rightarrow> service_version \<Rightarrow> bool" where
  "less_eq_service_version a b \<longleftrightarrow> version_less a b \<or> a = b"

instance
proof
  fix a b c :: service_version
  show "(a < b) = (a \<le> b \<and> \<not> b \<le> a)"
    by (cases a; cases b)
      (auto simp: less_service_version_def less_eq_service_version_def version_less_def
            split: if_splits)
  show "a \<le> a"
    by (simp add: less_eq_service_version_def)
  show "a \<le> b \<Longrightarrow> b \<le> c \<Longrightarrow> a \<le> c"
    by (cases a; cases b; cases c)
      (auto simp: less_eq_service_version_def version_less_def split: if_splits)
  show "a \<le> b \<Longrightarrow> b \<le> a \<Longrightarrow> a = b"
    by (cases a; cases b)
      (auto simp: less_eq_service_version_def version_less_def split: if_splits)
  show "a \<le> b \<or> b \<le> a"
    by (cases a; cases b) (auto simp: less_eq_service_version_def version_less_def)
qed

end

datatype service_handle = ServiceHandle (instanceId: u16) (version: service_version)

definition handle_eq :: "service_handle \<Rightarrow> service_handle \<Rightarrow> bool" where
  "handle_eq a b \<longleftrightarrow> instanceId a = instanceId b \<and> version_eq (version a) (version b)"

definition handle_less :: "service_handle \<Rightarrow> service_handle \<Rightarrow> bool" where
  "handle_less a b =
     (if instanceId a \<noteq> instanceId b then instanceId a < instanceId b
      else version_less (version a) (version b))"

definition handle_is_valid :: "service_handle \<Rightarrow> bool" where
  "handle_is_valid h \<longleftrightarrow> instanceId h \<noteq> 0"

instantiation service_handle :: linorder
begin

definition less_service_handle :: "service_handle \<Rightarrow> service_handle \<Rightarrow> bool" where
  "less_service_handle a b = handle_less a b"

definition less_eq_service_handle :: "service_handle \<Rightarrow> service_handle \<Rightarrow> bool" where
  "less_eq_service_handle a b \<longleftrightarrow> handle_less a b \<or> a = b"

instance
proof
  fix a b c :: service_handle
  have less: "handle_less x y \<longleftrightarrow>
      instanceId x < instanceId y \<or> instanceId x = instanceId y \<and> version x < version y" for x y
    by (auto simp: handle_less_def less_service_version_def)
  note defs = less less_service_handle_def less_eq_service_handle_def
  show "(a < b) = (a \<le> b \<and> \<not> b \<le> a)"
    by (cases a; cases b) (auto simp: defs)
  show "a \<le> a"
    by (simp add: defs)
  show "a \<le> b \<Longrightarrow> b \<le> c \<Longrightarrow> a \<le> c"
    by (cases a; cases b; cases c) (auto simp: defs)
  show "a \<le> b \<Longrightarrow> b \<le> a \<Longrightarrow> a = b"
    by (cases a; cases b) (auto simp: defs)
  show "a \<le> b \<or> b \<le> a"
    by (cases a; cases b) (auto simp: defs)
qed

end

lemma version_eq_iff: "version_eq a b \<longleftrightarrow> a = b"
  by (cases a; cases b) (simp add: version_eq_def)

lemma handle_eq_iff: "handle_eq a b \<longleftrightarrow> a = b"
  by (cases a; cases b) (simp add: handle_eq_def version_eq_iff)

end
