(* ===== verification/SeqLock.thy ===== *)
theory SeqLock
  imports ComTypes
begin

text \<open>
  registry/inc/SeqLock.hpp.  \<open>seq_read\<close> is the retry loop of \<open>SeqLockReader::Read\<close> over the
  observations its attempts make (first load of the counter, data read, second load);
  \<open>seq_step\<close> is the interleaving of any number of \<open>SeqLockWriter\<close> scopes and one reader on a
  shared slot, one atomic access per step, data cell by data cell.  Memory orders are taken as
  sequentially consistent.  The ghost fields \<open>commits\<close> (the slot contents whenever a writer
  scope ended, newest first) and \<open>bumps\<close> (the number of increments) are read by no step.
\<close>

subsection \<open>The counter\<close>

definition MAX_RETRY_COUNT :: nat where
  "MAX_RETRY_COUNT = 1000"

definition writer_acquire :: "u64 \<Rightarrow> u64" where
  "writer_acquire q = q + 1"

definition writer_release :: "u64 \<Rightarrow> u64" where
  "writer_release q = q + 1"

definition write_in_progress :: "u64 \<Rightarrow> bool" where
  "write_in_progress q \<longleftrightarrow> q AND 1 \<noteq> 0"

definition is_stable :: "u64 \<Rightarrow> bool" where
  "is_stable q \<longleftrightarrow> q AND 1 = 0"

lemma even_unat:
  fixes q :: "'a::len word"
  shows "even (unat q) \<longleftrightarrow> even q"
  using bit_unsigned_iff [of q 0, where ?'a = nat] by (simp add: bit_0)

lemma write_in_progress_odd: "write_in_progress q \<longleftrightarrow> odd (unat q)"
proof -
  have "q AND 1 = 0 \<longleftrightarrow> even q"
    by (simp only: and_one_eq even_iff_mod_2_eq_zero)
  then show ?thesis
    by (simp only: write_in_progress_def even_unat)
qed

lemma is_stable_even: "is_stable q \<longleftrightarrow> even (unat q)"
  using write_in_progress_odd [of q] by (simp add: is_stable_def write_in_progress_def)

lemma writer_scope_stable: "is_stable (writer_release (writer_acquire q)) = is_stable q"
  by (simp add: is_stable_def writer_acquire_def writer_release_def and_one_eq
      even_iff_mod_2_eq_zero [symmetric])

subsection \<open>The retry loop of the reader\<close>

type_synonym 'd attempt = "u64 \<times> 'd \<times> u64"

text \<open>\<open>obs n\<close> is what the attempt with \<open>retry_count = n\<close> sees: seq1, the data, seq2.\<close>

function read_loop :: "(nat \<Rightarrow> 'd attempt) \<Rightarrow> nat \<Rightarrow> 'd option" where
  "read_loop obs retry_count =
     (let (seq1, result, seq2) = obs retry_count in
      if write_in_progress seq1 then
        (if retry_count + 1 > MAX_RETRY_COUNT then None else read_loop obs (retry_count + 1))
      else if seq1 = seq2 then Some result
      else
        (if retry_count + 1 > MAX_RETRY_COUNT then None else read_loop obs (retry_count + 1)))"
  by pat_completeness auto
termination
  by (relation "measure (\<lambda>(obs, n). MAX_RETRY_COUNT - n)") auto

declare read_loop.simps [simp del]

definition seq_read :: "(nat \<Rightarrow> 'd attempt) \<Rightarrow> 'd option" where
  "seq_read obs = read_loop obs 0"

definition attempt_ok :: "'d attempt \<Rightarrow> bool" where
  "attempt_ok a \<longleftrightarrow> (case a of (seq1, _, seq2) \<Rightarrow> \<not> write_in_progress seq1 \<and> seq1 = seq2)"

lemma read_loop_step:
  "read_loop obs n =
     (if attempt_ok (obs n) then Some (fst (snd (obs n)))
      else if n \<ge> MAX_RETRY_COUNT then None else read_loop obs (Suc n))"
  by (subst read_loop.simps) (auto simp: attempt_ok_def split: prod.splits)

lemma read_loop_find:
  "n \<le> MAX_RETRY_COUNT \<Longrightarrow>
     read_loop obs n =
       map_option (fst \<circ> snd) (find attempt_ok (map obs [n..<Suc MAX_RETRY_COUNT]))"
proof (induction "MAX_RETRY_COUNT - n" arbitrary: n)
  case 0
  then have "n = MAX_RETRY_COUNT"
    by simp
  then show ?case
    by (subst read_loop_step) simp
next
  case (Suc d)
  then have n: "n < Suc MAX_RETRY_COUNT" "n < MAX_RETRY_COUNT"
    by simp_all
  have "read_loop obs (Suc n) =
      map_option (fst \<circ> snd) (find attempt_ok (map obs [Suc n..<Suc MAX_RETRY_COUNT]))"
    using Suc n by (intro Suc.hyps(1)) auto
  then show ?case
    using n by (subst read_loop_step) (simp add: upt_conv_Cons del: upt_Suc)
qed

lemma find_map_const: "\<not> P x \<Longrightarrow> find P (map (\<lambda>_. x) xs) = None"
  by (induction xs) auto

text \<open>A slot nobody writes during the read: every attempt sees the same counter and data.\<close>

definition quiet_read :: "u64 \<Rightarrow> 'd \<Rightarrow> 'd option" where
  "quiet_read q d = seq_read (\<lambda>_. (q, d, q))"

lemma quiet_read_eq: "quiet_read q d = (if is_stable q then Some d else None)"
proof (cases "is_stable q")
  case True
  then show ?thesis
    by (simp add: quiet_read_def seq_read_def read_loop_step attempt_ok_def
        write_in_progress_def is_stable_def)
next
  case False
  then have "\<not> attempt_ok (q, d, q)"
    by (simp add: attempt_ok_def write_in_progress_def is_stable_def)
  then have "read_loop (\<lambda>_. (q, d, q)) 0 = None"
    using read_loop_find [of 0 "\<lambda>_. (q, d, q)"]
      find_map_const [of attempt_ok "(q, d, q)" "[0..<Suc MAX_RETRY_COUNT]"]
    by (simp del: upt_Suc)
  then show ?thesis
    using False by (simp add: quiet_read_def seq_read_def)
qed

subsection \<open>Writers and a reader interleaved\<close>

text \<open>
  A writer is idle or inside its scope with the stores still to do (cell index and value); the
  reader is at the top of an attempt, copying cells after the first load, or done.
\<close>

datatype 'v writer_pc = WIdle | WWriting "(nat \<times> 'v) list"

datatype 'v reader_pc = RTop nat | RCopy nat u64 "'v list" | RDone "'v list option"

record 'v seq_state =
  sl_seq :: u64
  sl_cells :: "'v list"
  sl_writers :: "'v writer_pc list"
  sl_reader :: "'v reader_pc"
  sl_commits :: "'v list list"
  sl_bumps :: nat

definition reader_retry :: "nat \<Rightarrow> 'v reader_pc" where
  "reader_retry n = (if n + 1 > MAX_RETRY_COUNT then RDone None else RTop (n + 1))"

definition seq_init :: "'v list \<Rightarrow> nat \<Rightarrow> 'v seq_state" where
  "seq_init c w = \<lparr> sl_seq = 0, sl_cells = c, sl_writers = replicate w WIdle, sl_reader = RTop 0,
     sl_commits = [c], sl_bumps = 0 \<rparr>"

inductive seq_step :: "'v seq_state \<Rightarrow> 'v seq_state \<Rightarrow> bool" where
  w_lock: "i < length (sl_writers s) \<Longrightarrow> sl_writers s ! i = WIdle \<Longrightarrow>
    seq_step s (s\<lparr> sl_seq := writer_acquire (sl_seq s),
                  sl_writers := (sl_writers s)[i := WWriting us],
                  sl_bumps := Suc (sl_bumps s) \<rparr>)"
| w_store: "i < length (sl_writers s) \<Longrightarrow> sl_writers s ! i = WWriting ((k, v) # us) \<Longrightarrow>
    seq_step s (s\<lparr> sl_cells := (sl_cells s)[k := v],
                  sl_writers := (sl_writers s)[i := WWriting us] \<rparr>)"
| w_unlock: "i < length (sl_writers s) \<Longrightarrow> sl_writers s ! i = WWriting [] \<Longrightarrow>
    seq_step s (s\<lparr> sl_seq := writer_release (sl_seq s),
                  sl_writers := (sl_writers s)[i := WIdle],
                  sl_commits := sl_cells s # sl_commits s,
                  sl_bumps := Suc (sl_bumps s) \<rparr>)"
| r_load: "sl_reader s = RTop n \<Longrightarrow>
    seq_step s (s\<lparr> sl_reader := (if write_in_progress (sl_seq s) then reader_retry n
                                else RCopy n (sl_seq s) []) \<rparr>)"
| r_copy: "sl_reader s = RCopy n q acc \<Longrightarrow> length acc < length (sl_cells s) \<Longrightarrow>
    seq_step s (s\<lparr> sl_reader := RCopy n q (acc @ [sl_cells s ! length acc]) \<rparr>)"
| r_check: "sl_reader s = RCopy n q acc \<Longrightarrow> length acc = length (sl_cells s) \<Longrightarrow>
    seq_step s (s\<lparr> sl_reader := (if q = sl_seq s then RDone (Some acc) else reader_retry n) \<rparr>)"

inductive_cases seq_stepE: "seq_step s t"

text \<open>Writers serialised from outside: never two scopes open at once.\<close>

definition serialised :: "'v seq_state \<Rightarrow> bool" where
  "serialised s \<longleftrightarrow>
     (\<forall>i<length (sl_writers s). \<forall>j<length (sl_writers s).
        sl_writers s ! i \<noteq> WIdle \<longrightarrow> sl_writers s ! j \<noteq> WIdle \<longrightarrow> i = j)"

inductive seq_reach :: "'v list \<Rightarrow> nat \<Rightarrow> 'v seq_state \<Rightarrow> bool" for c w where
  reach_init: "seq_reach c w (seq_init c w)"
| reach_step: "seq_reach c w s \<Longrightarrow> seq_step s t \<Longrightarrow> seq_reach c w t"

inductive serial_reach :: "'v list \<Rightarrow> nat \<Rightarrow> 'v seq_state \<Rightarrow> bool" for c w where
  serial_init: "serial_reach c w (seq_init c w)"
| serial_step: "serial_reach c w s \<Longrightarrow> seq_step s t \<Longrightarrow> serialised t \<Longrightarrow> serial_reach c w t"

text \<open>The invariant of serialised writers, as long as the 64-bit counter has not wrapped.\<close>

definition all_idle :: "'v seq_state \<Rightarrow> bool" where
  "all_idle s \<longleftrightarrow> (\<forall>i<length (sl_writers s). sl_writers s ! i = WIdle)"

definition writers_inv :: "'v seq_state \<Rightarrow> bool" where
  "writers_inv s \<longleftrightarrow>
     unat (sl_seq s) = sl_bumps s \<and> serialised s \<and> (all_idle s \<longleftrightarrow> even (sl_bumps s)) \<and>
     (even (sl_bumps s) \<longrightarrow> sl_cells s \<in> set (sl_commits s))"

definition reader_inv :: "'v seq_state \<Rightarrow> bool" where
  "reader_inv s \<longleftrightarrow>
     (case sl_reader s of
        RTop n \<Rightarrow> True
      | RCopy n q acc \<Rightarrow>
          even (unat q) \<and> unat q \<le> sl_bumps s \<and> length acc \<le> length (sl_cells s) \<and>
          (unat q = sl_bumps s \<longrightarrow> take (length acc) (sl_cells s) = acc)
      | RDone r \<Rightarrow> (\<forall>d. r = Some d \<longrightarrow> d \<in> set (sl_commits s)))"

lemma reader_retry_inv: "sl_reader t = reader_retry n \<Longrightarrow> reader_inv t"
  by (simp add: reader_inv_def reader_retry_def)

lemma unat_succ_bound:
  fixes q :: u64
  assumes "unat q = b" "Suc b < 2 ^ 64"
  shows "unat (q + 1) = Suc b"
proof -
  have "unat q + unat (1::u64) < 2 ^ LENGTH(64)"
    using assms by simp
  then show ?thesis
    using assms by (simp only: unat_plus_simple [THEN iffD1] unat_add_lem [THEN iffD1]) simp
qed

lemma seq_step_bumps: "seq_step s t \<Longrightarrow> sl_bumps s \<le> sl_bumps t"
  by (auto elim!: seq_stepE)

lemma init_inv: "writers_inv (seq_init c w) \<and> reader_inv (seq_init c w)"
  by (simp add: writers_inv_def reader_inv_def seq_init_def serialised_def all_idle_def)

lemma serialised_other:
  assumes "serialised s" "i < length (sl_writers s)" "sl_writers s ! i \<noteq> WIdle"
    "j < length (sl_writers s)" "j \<noteq> i"
  shows "sl_writers s ! j = WIdle"
  using assms unfolding serialised_def by metis

lemma lock_inv:
  assumes i: "i < length (sl_writers s)" "sl_writers s ! i = WIdle"
    and t: "t = s\<lparr> sl_seq := writer_acquire (sl_seq s),
              sl_writers := (sl_writers s)[i := WWriting us], sl_bumps := Suc (sl_bumps s) \<rparr>"
    and inv: "writers_inv s" "reader_inv s" and ser: "serialised t" and b: "sl_bumps t < 2 ^ 64"
  shows "writers_inv t \<and> reader_inv t"
proof -
  have idle: "all_idle s"
    unfolding all_idle_def
  proof (intro allI impI)
    fix j assume j: "j < length (sl_writers s)"
    have "(sl_writers s)[i := WWriting us] ! j = WIdle" if "j \<noteq> i"
      using serialised_other [OF ser, of i j] i j that unfolding t by simp
    then show "sl_writers s ! j = WIdle"
      using i by (cases "j = i") simp_all
  qed
  then have even: "even (sl_bumps s)"
    using inv by (simp add: writers_inv_def)
  have "unat (sl_seq t) = Suc (sl_bumps s)"
    using inv b unfolding t writer_acquire_def
    by (simp add: writers_inv_def unat_succ_bound)
  moreover have "\<not> all_idle t"
    using i unfolding all_idle_def t by auto
  ultimately have "writers_inv t"
    using even ser by (simp add: writers_inv_def t)
  moreover have "reader_inv t"
    using inv even by (auto simp: reader_inv_def t split: reader_pc.splits)
  ultimately show ?thesis ..
qed

lemma store_inv:
  assumes i: "i < length (sl_writers s)" "sl_writers s ! i = WWriting ((k, v) # us)"
    and t: "t = s\<lparr> sl_cells := (sl_cells s)[k := v],
              sl_writers := (sl_writers s)[i := WWriting us] \<rparr>"
    and inv: "writers_inv s" "reader_inv s" and ser: "serialised t"
  shows "writers_inv t \<and> reader_inv t"
proof -
  have "\<not> all_idle s" "\<not> all_idle t"
    using i unfolding all_idle_def t by auto
  then have "odd (sl_bumps s)"
    using inv by (simp add: writers_inv_def)
  then show ?thesis
    using inv ser \<open>\<not> all_idle t\<close>
    by (auto simp: writers_inv_def reader_inv_def t split: reader_pc.splits)
qed

lemma unlock_inv:
  assumes i: "i < length (sl_writers s)" "sl_writers s ! i = WWriting []"
    and t: "t = s\<lparr> sl_seq := writer_release (sl_seq s), sl_writers := (sl_writers s)[i := WIdle],
              sl_commits := sl_cells s # sl_commits s, sl_bumps := Suc (sl_bumps s) \<rparr>"
    and inv: "writers_inv s" "reader_inv s" and ser: "serialised t" and b: "sl_bumps t < 2 ^ 64"
  shows "writers_inv t \<and> reader_inv t"
proof -
  have odd: "odd (sl_bumps s)"
    using i inv by (auto simp: writers_inv_def all_idle_def)
  have "sl_writers s ! j = WIdle" if "j < length (sl_writers s)" "j \<noteq> i" for j
    using serialised_other [of s i j] inv that i by (simp add: writers_inv_def)
  then have "(sl_writers s)[i := WIdle] ! j = WIdle" if "j < length (sl_writers s)" for j
    using i that by (cases "j = i") simp_all
  then have "all_idle t"
    by (simp add: all_idle_def t)
  moreover have "unat (sl_seq t) = Suc (sl_bumps s)"
    using inv b unfolding t writer_release_def
    by (simp add: writers_inv_def unat_succ_bound)
  ultimately have "writers_inv t"
    using odd ser by (simp add: writers_inv_def t)
  moreover have "reader_inv t"
    using inv by (auto simp: reader_inv_def t split: reader_pc.splits)
  ultimately show ?thesis ..
qed

lemma reader_pc_frame:
  "writers_inv (s\<lparr> sl_reader := r \<rparr>) = writers_inv s"
  by (simp add: writers_inv_def serialised_def all_idle_def)

lemma load_inv:
  assumes "writers_inv s"
  shows "reader_inv (s\<lparr> sl_reader := (if write_in_progress (sl_seq s) then reader_retry n
                                    else RCopy n (sl_seq s) []) \<rparr>)"
  using assms by (simp add: reader_inv_def reader_retry_def write_in_progress_odd writers_inv_def)

lemma copy_inv:
  assumes "reader_inv s" "sl_reader s = RCopy n q acc" "length acc < length (sl_cells s)"
  shows "reader_inv (s\<lparr> sl_reader := RCopy n q (acc @ [sl_cells s ! length acc]) \<rparr>)"
  using assms by (simp add: reader_inv_def take_Suc_conv_app_nth)

lemma check_inv:
  assumes inv: "writers_inv s" "reader_inv s"
    and r: "sl_reader s = RCopy n q acc" "length acc = length (sl_cells s)"
  shows "reader_inv (s\<lparr> sl_reader := (if q = sl_seq s then RDone (Some acc)
                                    else reader_retry n) \<rparr>)"
proof (cases "q = sl_seq s")
  case True
  have q: "unat q = sl_bumps s"
    using inv True by (simp add: writers_inv_def)
  have "even (unat q)" "take (length acc) (sl_cells s) = acc"
    using inv(2) q unfolding reader_inv_def r(1) by simp_all
  then have "even (sl_bumps s)" "sl_cells s = acc"
    unfolding q r(2) by simp_all
  then show ?thesis
    using inv True by (simp add: writers_inv_def reader_inv_def)
next
  case False
  then show ?thesis
    by (simp add: reader_inv_def reader_retry_def)
qed

lemma seq_step_inv:
  assumes "seq_step s t" "serialised t" "sl_bumps t < 2 ^ 64" "writers_inv s" "reader_inv s"
  shows "writers_inv t \<and> reader_inv t"
  using assms(1)
proof cases
  case (w_lock i us)
  then show ?thesis using lock_inv [OF w_lock(2,3,1) assms(4,5,2,3)] by simp
next
  case (w_store i k v us)
  then show ?thesis using store_inv [OF w_store(2,3,1) assms(4,5,2)] by simp
next
  case (w_unlock i)
  then show ?thesis using unlock_inv [OF w_unlock(2,3,1) assms(4,5,2,3)] by simp
next
  case (r_load n)
  then show ?thesis using assms(4) load_inv [OF assms(4), of n] by (simp only: reader_pc_frame simp_thms)
next
  case (r_copy n q acc)
  then show ?thesis using assms(4) copy_inv [OF assms(5) r_copy(2,3)] by (simp only: reader_pc_frame simp_thms)
next
  case (r_check n q acc)
  then show ?thesis using assms(4) check_inv [OF assms(4,5) r_check(2,3)]
    by (simp only: reader_pc_frame simp_thms)
qed

lemma serial_reach_inv:
  "serial_reach c w s \<Longrightarrow> sl_bumps s < 2 ^ 64 \<Longrightarrow> writers_inv s \<and> reader_inv s"
proof (induction rule: serial_reach.induct)
  case serial_init
  show ?case by (rule init_inv)
next
  case (serial_step s t)
  have "sl_bumps s < 2 ^ 64"
    using seq_step_bumps [OF serial_step.hyps(2)] serial_step.prems by simp
  then show ?case
    using seq_step_inv serial_step by blast
qed

subsection \<open>Properties\<close>

text \<open>C8: With the writer scopes serialised, and as long as the 64-bit counter has not wrapped,
  a read that succeeds returns a content some writer scope committed (or the initial one),
  never a mixture of two: the fields of the returned slot belong together, whatever the
  interleaving of stores, loads and retries.\<close>

theorem serial_read_is_snapshot:
  assumes "serial_reach c w s" "sl_bumps s < 2 ^ 64" "sl_reader s = RDone (Some d)"
  shows "d \<in> set (sl_commits s)"
  using serial_reach_inv [OF assms(1,2)] assms(3) by (simp add: reader_inv_def)

lemma step_to: "seq_step s t' \<Longrightarrow> t' = t \<Longrightarrow> seq_step s t"
  by simp

lemma run_locked_once:
  "serial_reach [0, 0::nat] 1
     \<lparr> sl_seq = 2, sl_cells = [7, 0], sl_writers = [WIdle], sl_reader = RTop 0,
       sl_commits = [[7, 0], [0, 0]], sl_bumps = 2 \<rparr>" (is "serial_reach _ _ ?s3")
proof -
  let ?st = "\<lambda>q c pc b. \<lparr> sl_seq = q, sl_cells = c, sl_writers = [pc], sl_reader = RTop 0,
    sl_commits = [[0, 0::nat]], sl_bumps = b \<rparr>"
  have 1: "seq_step (seq_init [0, 0] 1) (?st 1 [0, 0] (WWriting [(0, 7)]) 1)"
    by (rule step_to [OF w_lock [of 0]]) (simp_all add: seq_init_def writer_acquire_def)
  have 2: "seq_step (?st 1 [0, 0] (WWriting [(0, 7)]) 1) (?st 1 [7, 0] (WWriting []) 1)"
    by (rule step_to [OF w_store [where i = 0 and k = 0 and v = 7 and us = "[]"]]) simp_all
  have 3: "seq_step (?st 1 [7, 0] (WWriting []) 1) ?s3"
    by (rule step_to [OF w_unlock [of 0]]) (simp_all add: writer_release_def)
  show ?thesis
    by (intro serial_step [OF _ 3] serial_step [OF _ 2] serial_step [OF _ 1] serial_init)
      (simp_all add: serialised_def)
qed

lemma run_read_alone:
  assumes r: "serial_reach c w s" and s: "sl_reader s = RTop n" "sl_cells s = [x, y]"
    and q: "\<not> write_in_progress (sl_seq s)" and ser: "serialised s"
  shows "serial_reach c w (s\<lparr> sl_reader := RDone (Some [x, y]) \<rparr>)"
proof -
  let ?at = "\<lambda>r. s\<lparr> sl_reader := r \<rparr>"
  have ser': "serialised (?at r)" for r
    using ser by (simp add: serialised_def)
  have 1: "seq_step s (?at (RCopy n (sl_seq s) []))"
    using r_load [OF s(1)] q by simp
  have 2: "seq_step (?at (RCopy n (sl_seq s) [])) (?at (RCopy n (sl_seq s) [x]))"
    using r_copy [of "?at (RCopy n (sl_seq s) [])"] s by simp
  have 3: "seq_step (?at (RCopy n (sl_seq s) [x])) (?at (RCopy n (sl_seq s) [x, y]))"
    using r_copy [of "?at (RCopy n (sl_seq s) [x])"] s by simp
  have 4: "seq_step (?at (RCopy n (sl_seq s) [x, y])) (?at (RDone (Some [x, y])))"
    using r_check [of "?at (RCopy n (sl_seq s) [x, y])"] s by simp
  show ?thesis
    by (intro serial_step [OF _ 4] serial_step [OF _ 3] serial_step [OF _ 2] serial_step [OF _ 1]
        r ser')
qed

lemma serial_read_is_snapshot_witness:
  "[7, 0::nat] \<in> set (sl_commits
     \<lparr> sl_seq = 2, sl_cells = [7, 0], sl_writers = [WIdle], sl_reader = RDone (Some [7, 0]),
       sl_commits = [[7, 0], [0, 0]], sl_bumps = 2 \<rparr>)"
  by (rule serial_read_is_snapshot [where c = "[0, 0]" and w = 1])
    (use run_read_alone [OF run_locked_once] in
      \<open>simp_all add: write_in_progress_odd serialised_def\<close>)

text \<open>The constructor of the writer does not wait for another writer.  With two writer
  scopes open the counter is even again, so a reader accepts a slot half written by the first
  writer: a content that was never committed.\<close>

lemma unserialised_torn_read:
  "\<exists>s. seq_reach [0, 0::nat] 2 s \<and> sl_reader s = RDone (Some [1, 0]) \<and>
       [1, 0] \<notin> set (sl_commits s)"
proof -
  let ?st = "\<lambda>q c w0 w1 r b. \<lparr> sl_seq = q, sl_cells = c, sl_writers = [w0, w1], sl_reader = r,
    sl_commits = [[0, 0::nat]], sl_bumps = b \<rparr>"
  let ?w = "WWriting [(1, 1::nat)]"
  have 1: "seq_step (seq_init [0, 0] 2)
      (?st 1 [0, 0] (WWriting [(0, 1), (1, 1)]) WIdle (RTop 0) 1)"
    by (rule step_to [OF w_lock [of 0]])
      (simp_all add: seq_init_def writer_acquire_def numeral_2_eq_2)
  have 2: "seq_step (?st 1 [0, 0] (WWriting [(0, 1), (1, 1)]) WIdle (RTop 0) 1)
      (?st 1 [1, 0] ?w WIdle (RTop 0) 1)"
    by (rule step_to [OF w_store [where i = 0 and k = 0 and v = 1 and us = "[(1, 1)]"]]) simp_all
  have 3: "seq_step (?st 1 [1, 0] ?w WIdle (RTop 0) 1) (?st 2 [1, 0] ?w (WWriting []) (RTop 0) 2)"
    by (rule step_to [OF w_lock [of 1]]) (simp_all add: writer_acquire_def)
  have 4: "seq_step (?st 2 [1, 0] ?w (WWriting []) (RTop 0) 2)
      (?st 2 [1, 0] ?w (WWriting []) (RCopy 0 2 []) 2)"
    by (rule step_to [OF r_load [where n = 0]]) (simp_all add: write_in_progress_odd)
  have 5: "seq_step (?st 2 [1, 0] ?w (WWriting []) (RCopy 0 2 []) 2)
      (?st 2 [1, 0] ?w (WWriting []) (RCopy 0 2 [1]) 2)"
    by (rule step_to [OF r_copy [where n = 0 and q = 2 and acc = "[]"]]) simp_all
  have 6: "seq_step (?st 2 [1, 0] ?w (WWriting []) (RCopy 0 2 [1]) 2)
      (?st 2 [1, 0] ?w (WWriting []) (RCopy 0 2 [1, 0]) 2)"
    by (rule step_to [OF r_copy [where n = 0 and q = 2 and acc = "[1]"]]) simp_all
  have 7: "seq_step (?st 2 [1, 0] ?w (WWriting []) (RCopy 0 2 [1, 0]) 2)
      (?st 2 [1, 0] ?w (WWriting []) (RDone (Some [1, 0])) 2)"
    by (rule step_to [OF r_check [where n = 0 and q = 2 and acc = "[1, 0]"]]) simp_all
  have "seq_reach [0, 0] 2 (?st 2 [1, 0] ?w (WWriting []) (RDone (Some [1, 0])) 2)"
    by (intro reach_step [OF _ 7] reach_step [OF _ 6] reach_step [OF _ 5] reach_step [OF _ 4]
        reach_step [OF _ 3] reach_step [OF _ 2] reach_step [OF _ 1] reach_init)
  then show ?thesis
    by (intro exI conjI, assumption) simp_all
qed

text \<open>The retry loop makes at most \<open>MAX_RETRY_COUNT + 1\<close> attempts and is the search for the
  first consistent one: it returns the data of the first attempt that saw an even counter
  unchanged, and nothing exactly when none of the 1001 attempts did.\<close>

lemma seq_read_first_consistent:
  "seq_read obs =
     map_option (\<lambda>(q1, d, q2). d) (find attempt_ok (map obs [0..<Suc MAX_RETRY_COUNT]))"
proof -
  have "(fst \<circ> snd :: 'a attempt \<Rightarrow> 'a) = (\<lambda>(q1, d, q2). d)"
    by auto
  then show ?thesis
    using read_loop_find [of 0 obs] by (simp only: seq_read_def le0)
qed

end
