(* ===== verification/ServiceSlot.thy ===== *)
theory ServiceSlot
  imports SeqLock
begin

text \<open>
  registry/inc/ServiceSlot.hpp: the 256-byte slot of the shared-memory registry.  The two text
  fields and the metadata keep their C layout (16, 80 and 64 characters with a terminating
  NUL), the sequence counter is the one of theory SeqLock.  The padding is not kept.
\<close>

datatype slot_status = IDLE | ACTIVE | UNREGISTERING

fun status_code :: "slot_status \<Rightarrow> u32" where
  "status_code IDLE = 0"
| "status_code ACTIVE = 1"
| "status_code UNREGISTERING = 2"

record service_slot =
  sequence :: u64
  service_id :: u64
  instance_id :: u64
  major_version :: u32
  minor_version :: u32
  binding_type :: "char list"
  endpoint :: "char list"
  last_heartbeat_ns :: u64
  heartbeat_interval_ms :: u32
  status :: u32
  owner_pid :: u32
  metadata :: "char list"

definition zero_chars :: "nat \<Rightarrow> char list" where
  "zero_chars n = replicate n (CHR 0x00)"

definition empty_slot :: service_slot where
  "empty_slot = \<lparr> sequence = 0, service_id = 0, instance_id = 0, major_version = 0,
     minor_version = 0, binding_type = zero_chars 16, endpoint = zero_chars 80,
     last_heartbeat_ns = 0, heartbeat_interval_ms = 0, status = status_code IDLE, owner_pid = 0,
     metadata = zero_chars 64 \<rparr>"

definition IsIdle :: "service_slot \<Rightarrow> bool" where
  [op_defs]: "IsIdle s \<longleftrightarrow> status s = status_code IDLE"

definition IsActive :: "service_slot \<Rightarrow> bool" where
  [op_defs]: "IsActive s \<longleftrightarrow> status s = status_code ACTIVE"

text \<open>Member-wise copy; the arrays are copied with memcpy, the counter by load and store.\<close>

definition copy_slot :: "service_slot \<Rightarrow> service_slot" where
  "copy_slot other = \<lparr> sequence = sequence other, service_id = service_id other,
     instance_id = instance_id other, major_version = major_version other,
     minor_version = minor_version other, binding_type = binding_type other,
     endpoint = endpoint other, last_heartbeat_ns = last_heartbeat_ns other,
     heartbeat_interval_ms = heartbeat_interval_ms other, status = status other,
     owner_pid = owner_pid other, metadata = metadata other \<rparr>"

definition assign_slot :: "service_slot \<Rightarrow> service_slot \<Rightarrow> service_slot" where
  "assign_slot this other = this\<lparr> sequence := sequence other, service_id := service_id other,
     instance_id := instance_id other, major_version := major_version other,
     minor_version := minor_version other, binding_type := binding_type other,
     endpoint := endpoint other, last_heartbeat_ns := last_heartbeat_ns other,
     heartbeat_interval_ms := heartbeat_interval_ms other, status := status other,
     owner_pid := owner_pid other, metadata := metadata other \<rparr>"

text \<open>\<open>Reset\<close> clears every field but the sequence counter.\<close>

definition reset_slot :: "service_slot \<Rightarrow> service_slot" where
  "reset_slot s = s\<lparr> service_id := 0, instance_id := 0, major_version := 0, minor_version := 0,
     binding_type := zero_chars 16, endpoint := zero_chars 80, last_heartbeat_ns := 0,
     heartbeat_interval_ms := 0, status := status_code IDLE, owner_pid := 0,
     metadata := zero_chars 64 \<rparr>"

text \<open>Layout: the buffers have their C sizes and the two text fields are terminated.\<close>

definition slot_layout :: "service_slot \<Rightarrow> bool" where
  "slot_layout s \<longleftrightarrow> length (binding_type s) = 16 \<and> length (endpoint s) = 80 \<and>
     length (metadata s) = 64 \<and> last (binding_type s) = CHR 0x00 \<and> last (endpoint s) = CHR 0x00"

lemma copy_slot_id [simp]: "copy_slot s = s"
  by (simp add: copy_slot_def)

lemma assign_slot_eq [simp]: "assign_slot s t = t"
  by (simp add: assign_slot_def)

lemma reset_slot_sequence [simp]: "sequence (reset_slot s) = sequence s"
  by (simp add: reset_slot_def)

lemma reset_slot_eq: "reset_slot s = empty_slot\<lparr> sequence := sequence s \<rparr>"
  by (simp add: reset_slot_def empty_slot_def)

lemma reset_slot_idle [simp]: "IsIdle (reset_slot s)" "\<not> IsActive (reset_slot s)"
  by (simp_all add: reset_slot_def IsIdle_def IsActive_def)

lemma reset_slot_service [simp]: "service_id (reset_slot s) = 0"
  by (simp add: reset_slot_def)

lemma idle_not_active: "IsIdle s \<Longrightarrow> \<not> IsActive s"
  by (simp add: op_defs)

lemma empty_slot_layout: "slot_layout empty_slot"
  by (simp add: slot_layout_def empty_slot_def zero_chars_def)

lemma reset_slot_layout: "slot_layout (reset_slot s)"
  by (simp add: slot_layout_def reset_slot_def zero_chars_def)

lemma zero_chars_str [buf_simps]: "c_str (zero_chars n) = []"
  by (cases n) (simp_all add: c_str_def zero_chars_def)

end
