(* ===== verification/ServiceMap.thy ===== *)
theory ServiceMap
  imports ComTypes
begin

text \<open>
  The contract between a service registry and its clients, as a locale: registering, withdrawing
  and finding by identifier on an abstract state.  The specification is a finite map in which
  identifiers may clash (they share storage): an offer is refused while a clashing identifier is
  present, a withdrawal removes every clashing identifier.  The clients' lemmas are proved once
  here: a whole sequence of operations refines the specification.
\<close>

datatype ('i, 'o) registry_op = Register 'i 'o | Unregister 'i

fun op_id :: "('i, 'o) registry_op \<Rightarrow> 'i" where
  "op_id (Register i x) = i"
| "op_id (Unregister i) = i"

text \<open>One step of the specification, over the clash relation and the entry an offer becomes.\<close>

fun spec_step :: "('i \<Rightarrow> 'i \<Rightarrow> bool) \<Rightarrow> ('i \<Rightarrow> 'o \<Rightarrow> 'e) \<Rightarrow> ('i, 'o) registry_op \<Rightarrow>
    ('i \<Rightarrow> 'e option) \<Rightarrow> unit result \<times> ('i \<Rightarrow> 'e option)" where
  "spec_step clash entry (Register i x) m =
     (if \<exists>j. clash i j \<and> m j \<noteq> None then (Err kServiceNotOffered, m)
      else (Ok (), m(i \<mapsto> entry i x)))"
| "spec_step clash entry (Unregister i) m = (Ok (), \<lambda>j. if clash i j then None else m j)"

text \<open>Threading a step function through a list of operations, collecting the results.\<close>

fun run_ops :: "('op \<Rightarrow> 's \<Rightarrow> 'r \<times> 's) \<Rightarrow> 'op list \<Rightarrow> 's \<Rightarrow> 'r list \<times> 's" where
  "run_ops step [] s = ([], s)"
| "run_ops step (p # ps) s =
     (let (r, s1) = step p s; (rs, s2) = run_ops step ps s1 in (r # rs, s2))"

lemma run_ops_append:
  "run_ops step (ps @ qs) s =
     (let (rs, s1) = run_ops step ps s; (rs', s2) = run_ops step qs s1 in (rs @ rs', s2))"
  by (induction ps arbitrary: s) (auto simp: Let_def split: prod.splits)

fun impl_step :: "('i \<Rightarrow> 'o \<Rightarrow> 's \<Rightarrow> unit result \<times> 's) \<Rightarrow> ('i \<Rightarrow> 's \<Rightarrow> unit result \<times> 's) \<Rightarrow>
    ('i, 'o) registry_op \<Rightarrow> 's \<Rightarrow> unit result \<times> 's" where
  "impl_step reg unreg (Register i x) s = reg i x s"
| "impl_step reg unreg (Unregister i) s = unreg i s"

locale service_map =
  fixes inv :: "'s \<Rightarrow> bool"
    and reg :: "'i \<Rightarrow> 'o \<Rightarrow> 's \<Rightarrow> unit result \<times> 's"
    and unreg :: "'i \<Rightarrow> 's \<Rightarrow> unit result \<times> 's"
    and lookup :: "'i \<Rightarrow> 's \<Rightarrow> 'e option"
    and entry :: "'i \<Rightarrow> 'o \<Rightarrow> 'e"
    and valid :: "'i \<Rightarrow> bool"
    and clash :: "'i \<Rightarrow> 'i \<Rightarrow> bool"
  assumes inv_reg: "inv s \<Longrightarrow> valid i \<Longrightarrow> inv (snd (reg i x s))"
    and inv_unreg: "inv s \<Longrightarrow> valid i \<Longrightarrow> inv (snd (unreg i s))"
    and reg_refused: "inv s \<Longrightarrow> valid i \<Longrightarrow> \<exists>j. clash i j \<and> lookup j s \<noteq> None \<Longrightarrow>
      reg i x s = (Err kServiceNotOffered, s)"
    and reg_accepted: "inv s \<Longrightarrow> valid i \<Longrightarrow> \<forall>j. clash i j \<longrightarrow> lookup j s = None \<Longrightarrow>
      fst (reg i x s) = Ok ()"
    and lookup_reg: "inv s \<Longrightarrow> valid i \<Longrightarrow> \<forall>j. clash i j \<longrightarrow> lookup j s = None \<Longrightarrow>
      lookup j (snd (reg i x s)) = (if j = i then Some (entry i x) else lookup j s)"
    and unreg_ok: "inv s \<Longrightarrow> valid i \<Longrightarrow> fst (unreg i s) = Ok ()"
    and lookup_unreg: "inv s \<Longrightarrow> valid i \<Longrightarrow>
      lookup j (snd (unreg i s)) = (if clash i j then None else lookup j s)"
    and clash_self: "clash i i"
begin

abbreviation step :: "('i, 'o) registry_op \<Rightarrow> 's \<Rightarrow> unit result \<times> 's" where
  "step \<equiv> impl_step reg unreg"

abbreviation spec :: "('i, 'o) registry_op \<Rightarrow> ('i \<Rightarrow> 'e option) \<Rightarrow>
    unit result \<times> ('i \<Rightarrow> 'e option)" where
  "spec \<equiv> spec_step clash entry"

lemma step_inv: "inv s \<Longrightarrow> valid (op_id p) \<Longrightarrow> inv (snd (step p s))"
  by (cases p) (simp_all add: inv_reg inv_unreg)

lemma step_refines:
  assumes "inv s" "valid (op_id p)"
  shows "spec p (\<lambda>i. lookup i s) = (fst (step p s), \<lambda>i. lookup i (snd (step p s)))"
proof (cases p)
  case (Register i x)
  show ?thesis
  proof (cases "\<exists>j. clash i j \<and> lookup j s \<noteq> None")
    case True
    then show ?thesis
      using assms Register by (simp add: reg_refused)
  next
    case False
    then have "\<forall>j. clash i j \<longrightarrow> lookup j s = None"
      by blast
    then show ?thesis
      using assms Register by (auto simp: reg_accepted lookup_reg fun_eq_iff)
  qed
next
  case (Unregister i)
  then show ?thesis
    using assms by (auto simp: unreg_ok lookup_unreg fun_eq_iff)
qed

text \<open>A sequence of operations returns the results of the specification and ends in a state
  whose lookups are the specification's map.\<close>

lemma run_refines:
  assumes "inv s" "\<forall>p\<in>set ps. valid (op_id p)"
  shows "run_ops spec ps (\<lambda>i. lookup i s) =
    (fst (run_ops step ps s), \<lambda>i. lookup i (snd (run_ops step ps s)))"
  using assms
proof (induction ps arbitrary: s)
  case Nil
  then show ?case by simp
next
  case (Cons p ps)
  have "inv (snd (step p s))"
    using Cons.prems by (simp add: step_inv)
  then have "run_ops spec ps (\<lambda>i. lookup i (snd (step p s))) =
      (fst (run_ops step ps (snd (step p s))),
       \<lambda>i. lookup i (snd (run_ops step ps (snd (step p s)))))"
    using Cons by simp
  then show ?case
    using Cons.prems step_refines [of s p] by (simp add: Let_def case_prod_beta)
qed

lemma run_inv:
  "inv s \<Longrightarrow> \<forall>p\<in>set ps. valid (op_id p) \<Longrightarrow> inv (snd (run_ops step ps s))"
  by (induction ps arbitrary: s) (simp_all add: Let_def case_prod_beta step_inv)

lemma found_after_reg:
  "inv s \<Longrightarrow> valid i \<Longrightarrow> fst (reg i x s) = Ok () \<Longrightarrow> lookup i (snd (reg i x s)) = Some (entry i x)"
  by (metis lookup_reg reg_refused fst_conv sum.distinct(1))

lemma gone_after_unreg: "inv s \<Longrightarrow> valid i \<Longrightarrow> lookup i (snd (unreg i s)) = None"
  by (simp add: lookup_unreg clash_self)

lemma reg_frame:
  "inv s \<Longrightarrow> valid i \<Longrightarrow> j \<noteq> i \<Longrightarrow> lookup j (snd (reg i x s)) = lookup j s"
  by (metis lookup_reg reg_refused snd_conv)

lemma second_reg_refused:
  "inv s \<Longrightarrow> valid i \<Longrightarrow> clash i j \<Longrightarrow> lookup j s \<noteq> None \<Longrightarrow> snd (reg i x s) = s"
  by (metis reg_refused snd_conv)

end

end
