(* ===== verification/SingleRegistry.thy ===== *)
theory SingleRegistry
  imports ServiceSlot ServiceMap
begin

text \<open>
  registry/inc/SharedMemoryRegistry.hpp and registry/src/SharedMemoryRegistry.cpp, class
  \<open>SingleRegistry\<close>: one array of 1024 slots in shared memory behind a memfd.  The registry is
  the object's own fields; the descriptors and mappings of the process are an explicit \<open>os\<close>
  state, and the results of the system calls are arguments of the operations that make them.
\<close>

datatype registry_type = QM | ASIL | BOTH

record single_registry =
  reg_type :: registry_type
  memfd :: int
  slots :: "service_slot list option"

record os_state =
  open_fds :: "int set"
  mapped :: nat

definition MAX_SLOTS :: nat where
  "MAX_SLOTS = 1024"

definition single_new :: "registry_type \<Rightarrow> single_registry" where
  "single_new t = \<lparr> reg_type = t, memfd = -1, slots = None \<rparr>"

definition IsInitialized :: "single_registry \<Rightarrow> bool" where
  [op_defs]: "IsInitialized r \<longleftrightarrow> slots r \<noteq> None"

definition IsValidSlotIndex :: "u32 \<Rightarrow> bool" where
  [op_defs]: "IsValidSlotIndex i \<longleftrightarrow> 0 < i \<and> i < 1024"

definition GetMemfdName :: "single_registry \<Rightarrow> string" where
  "GetMemfdName r =
     (if reg_type r = QM then ''lap_com_registry_qm'' else ''lap_com_registry_asil'')"

definition GetPermissions :: "single_registry \<Rightarrow> nat" where
  "GetPermissions r = (if reg_type r = QM then 6*64 + 6*8 + 6 else 6*64 + 4*8)"

subsection \<open>Descriptors, mapping, initialisation\<close>

definition os_open :: "int \<Rightarrow> os_state \<Rightarrow> os_state" where
  "os_open fd os = os\<lparr> open_fds := insert fd (open_fds os) \<rparr>"

definition os_close :: "int \<Rightarrow> os_state \<Rightarrow> os_state" where
  "os_close fd os = os\<lparr> open_fds := open_fds os - {fd} \<rparr>"

definition os_map :: "os_state \<Rightarrow> os_state" where
  "os_map os = os\<lparr> mapped := Suc (mapped os) \<rparr>"

definition os_unmap :: "os_state \<Rightarrow> os_state" where
  "os_unmap os = os\<lparr> mapped := mapped os - 1 \<rparr>"

text \<open>
  What the kernel answers: the descriptor of memfd_create, the result of ftruncate, the slots
  the mapping shows (\<open>None\<close> for MAP_FAILED), the result of sealing.
\<close>

record memfd_env =
  memfd_ret :: int
  truncate_ret :: int
  mmap_ret :: "service_slot list option"
  seal_ret :: int

text \<open>The slots after step 4: wiped when the sentinel slot 1 is still untouched.\<close>

definition first_time_init :: "service_slot list \<Rightarrow> service_slot list" where
  "first_time_init l =
     (if sequence (l ! 1) = 0 \<and> service_id (l ! 1) = 0
      then map (\<lambda>s. assign_slot s empty_slot) l else l)"

definition SR_Initialize ::
  "memfd_env \<Rightarrow> single_registry \<Rightarrow> os_state \<Rightarrow> unit result \<times> single_registry \<times> os_state" where
  "SR_Initialize env r os =
     (if IsInitialized r then (Ok (), r, os)
      else if memfd_ret env < 0 then (Err kInternal, r\<lparr> memfd := memfd_ret env \<rparr>, os)
      else
        let fd = memfd_ret env; os1 = os_open fd os in
        if truncate_ret env < 0 then (Err kInternal, r\<lparr> memfd := -1 \<rparr>, os_close fd os1)
        else
          (case mmap_ret env of
             None \<Rightarrow> (Err kInternal, r\<lparr> memfd := -1 \<rparr>, os_close fd os1)
           | Some l \<Rightarrow>
               (Ok (), r\<lparr> memfd := fd, slots := Some (first_time_init l) \<rparr>, os_map os1)))"

text \<open>
  The client side of the descriptor hand-over: socket, connect and recvmsg with their results
  and errno, and the first control message as level, type and descriptor.
\<close>

record recv_env =
  socket_ret :: int
  connect_ret :: int
  recvmsg_ret :: int
  recv_cmsg :: "(int \<times> int \<times> int) option"
  recv_errno :: int
  client_mmap_ret :: "service_slot list option"

definition SOL_SOCKET :: int where "SOL_SOCKET = 1"

definition SCM_RIGHTS :: int where "SCM_RIGHTS = 1"

definition receiveMemfdFromSocket :: "recv_env \<Rightarrow> os_state \<Rightarrow> int result \<times> os_state" where
  "receiveMemfdFromSocket env os =
     (let sock = socket_ret env in
      if sock < 0 then (Inl (make_error_code kSocketCreationFailed (recv_errno env)), os)
      else
        let os1 = os_open sock os in
        if connect_ret env \<noteq> 0
        then (Inl (make_error_code kSocketConnectFailed (recv_errno env)), os_close sock os1)
        else
          let os2 = os_close sock os1 in
          if recvmsg_ret env \<le> 0
          then (Inl (make_error_code kFdReceiveFailed (recv_errno env)), os2)
          else
            (case recv_cmsg env of
               None \<Rightarrow> (Err kFdReceiveFailed, os2)
             | Some (level, type, fd) \<Rightarrow>
                 if level \<noteq> SOL_SOCKET \<or> type \<noteq> SCM_RIGHTS then (Err kFdReceiveFailed, os2)
                 else (Ok fd, os_open fd os2)))"

definition SR_InitializeFromSocket ::
  "recv_env \<Rightarrow> single_registry \<Rightarrow> os_state \<Rightarrow> unit result \<times> single_registry \<times> os_state" where
  "SR_InitializeFromSocket env r os =
     (if IsInitialized r then (Ok (), r, os)
      else
        (case receiveMemfdFromSocket env os of
           (Inl e, os1) \<Rightarrow> (Inl e, r, os1)
         | (Inr fd, os1) \<Rightarrow>
             (case client_mmap_ret env of
                None \<Rightarrow> (Err kSharedMemoryMappingFailed, r\<lparr> memfd := -1 \<rparr>, os_close fd os1)
              | Some l \<Rightarrow> (Ok (), r\<lparr> memfd := fd, slots := Some l \<rparr>, os_map os1))))"

definition SR_Cleanup :: "single_registry \<Rightarrow> os_state \<Rightarrow> single_registry \<times> os_state" where
  "SR_Cleanup r os =
     (let (r1, os1) = (if slots r \<noteq> None then (r\<lparr> slots := None \<rparr>, os_unmap os) else (r, os)) in
      if memfd r1 \<ge> 0 then (r1\<lparr> memfd := -1 \<rparr>, os_close (memfd r1) os1) else (r1, os1))"

subsection \<open>Operations on slots\<close>

text \<open>The body of a \<open>SeqLockWriter\<close> scope on one slot.\<close>

definition write_slot :: "(service_slot \<Rightarrow> service_slot) \<Rightarrow> service_slot \<Rightarrow> service_slot" where
  "write_slot body s =
     (let s1 = s\<lparr> sequence := writer_acquire (sequence s) \<rparr>; s2 = body s1
      in s2\<lparr> sequence := writer_release (sequence s2) \<rparr>)"

text \<open>What an offer carries: instance, versions, binding type and endpoint.\<close>

record offer =
  of_instance :: u64
  of_major :: u32
  of_minor :: u32
  of_binding :: string
  of_endpoint :: string

text \<open>The clock and the process id at the time of the call.\<close>

record proc_env =
  now_ns :: u64
  pid :: u32

definition fill_slot :: "proc_env \<Rightarrow> u64 \<Rightarrow> offer \<Rightarrow> service_slot \<Rightarrow> service_slot" where
  "fill_slot env sid off s = s\<lparr> service_id := sid, instance_id := of_instance off,
     major_version := of_major off, minor_version := of_minor off,
     binding_type := set_cbuf (binding_type s) (of_binding off),
     endpoint := set_cbuf (endpoint s) (of_endpoint off),
     last_heartbeat_ns := now_ns env, heartbeat_interval_ms := 100, owner_pid := pid env,
     status := status_code ACTIVE \<rparr>"

definition update_slot ::
  "u32 \<Rightarrow> (service_slot \<Rightarrow> service_slot) \<Rightarrow> single_registry \<Rightarrow> single_registry" where
  "update_slot i f r = r\<lparr> slots := map_option (\<lambda>l. l[unat i := f (l ! unat i)]) (slots r) \<rparr>"

definition slot_at :: "single_registry \<Rightarrow> u32 \<Rightarrow> service_slot" where
  "slot_at r i = the (slots r) ! unat i"

definition SR_RegisterService ::
  "proc_env \<Rightarrow> u32 \<Rightarrow> u64 \<Rightarrow> offer \<Rightarrow> single_registry \<Rightarrow> unit result \<times> single_registry" where
  "SR_RegisterService env i sid off r =
     (if \<not> IsInitialized r then (Err kNotInitialized, r)
      else if \<not> IsValidSlotIndex i then (Err kInvalidArgument, r)
      else if IsActive (slot_at r i) then (Err kServiceNotOffered, r)
      else (Ok (), update_slot i (write_slot (fill_slot env sid off)) r))"

definition SR_UnregisterService :: "u32 \<Rightarrow> single_registry \<Rightarrow> unit result \<times> single_registry" where
  "SR_UnregisterService i r =
     (if \<not> IsInitialized r then (Err kNotInitialized, r)
      else if \<not> IsValidSlotIndex i then (Err kInvalidArgument, r)
      else (Ok (), update_slot i (write_slot reset_slot) r))"

definition SR_FindService :: "u64 \<Rightarrow> single_registry \<Rightarrow> service_slot option" where
  "SR_FindService sid r =
     (if \<not> IsInitialized r then None
      else
        let i = ucast (sid AND 1023) :: u32 in
        if \<not> IsValidSlotIndex i then None
        else
          let s = slot_at r i;
            opt_slot = quiet_read (sequence s)
              (if service_id s = sid \<and> IsActive s then copy_slot s else empty_slot)
          in case opt_slot of
               Some v \<Rightarrow> if service_id v = 0 then None else opt_slot
             | None \<Rightarrow> opt_slot)"

definition SR_ReadSlot :: "u32 \<Rightarrow> single_registry \<Rightarrow> service_slot option" where
  "SR_ReadSlot i r =
     (if \<not> IsInitialized r \<or> \<not> IsValidSlotIndex i then None
      else quiet_read (sequence (slot_at r i)) (copy_slot (slot_at r i)))"

definition SR_UpdateHeartbeat ::
  "u32 \<Rightarrow> u64 \<Rightarrow> single_registry \<Rightarrow> unit result \<times> single_registry" where
  "SR_UpdateHeartbeat i ts r =
     (if \<not> IsInitialized r then (Err kNotInitialized, r)
      else if \<not> IsValidSlotIndex i then (Err kInvalidArgument, r)
      else (Ok (), update_slot i (write_slot (\<lambda>s. s\<lparr> last_heartbeat_ns := ts \<rparr>)) r))"

subsection \<open>Invariant and its preservation\<close>

text \<open>
  Initialised, 1024 slots of the C layout, no writer scope open, and every active slot holds a
  service whose identifier maps to that slot.
\<close>

definition slot_ok :: "nat \<Rightarrow> service_slot \<Rightarrow> bool" where
  "slot_ok i s \<longleftrightarrow> slot_layout s \<and> is_stable (sequence s) \<and>
     (IsActive s \<longrightarrow> unat (service_id s) mod 1024 = i)"

definition SR_wf :: "single_registry \<Rightarrow> bool" where
  "SR_wf r \<longleftrightarrow> (\<exists>l. slots r = Some l \<and> length l = 1024 \<and> (\<forall>i<1024. slot_ok i (l ! i)))"

lemma write_slot_stable [simp]:
  assumes "\<And>s. sequence (f s) = sequence s"
  shows "sequence (write_slot f s) = sequence s + 2"
  using assms by (simp add: write_slot_def Let_def writer_acquire_def writer_release_def)

lemma stable_plus_2 [simp]: "is_stable (q + 2) = is_stable q"
  using writer_scope_stable [of q]
  by (simp add: writer_acquire_def writer_release_def add.commute)

lemma fill_slot_sequence [simp]: "sequence (fill_slot env sid off s) = sequence s"
  by (simp add: fill_slot_def)

lemma slots_update_slot:
  "slots (update_slot i f r) = map_option (\<lambda>l. l[unat i := f (l ! unat i)]) (slots r)"
  by (simp add: update_slot_def)

lemma update_slot_other_fields [simp]:
  "reg_type (update_slot i f r) = reg_type r" "memfd (update_slot i f r) = memfd r"
  by (simp_all add: update_slot_def)

lemma IsInitialized_update [simp]: "IsInitialized (update_slot i f r) = IsInitialized r"
  by (simp add: IsInitialized_def update_slot_def)

lemma SR_wf_init [simp]: "SR_wf r \<Longrightarrow> IsInitialized r"
  by (auto simp: SR_wf_def IsInitialized_def)

lemma slot_at_update_same:
  "SR_wf r \<Longrightarrow> unat i < 1024 \<Longrightarrow> slot_at (update_slot i f r) i = f (slot_at r i)"
  by (auto simp: SR_wf_def slot_at_def update_slot_def)

lemma slot_at_update_other:
  "SR_wf r \<Longrightarrow> i \<noteq> j \<Longrightarrow> slot_at (update_slot i f r) j = slot_at r j"
  by (auto simp: SR_wf_def slot_at_def update_slot_def word_unat_eq_iff)

lemma valid_index_unat: "IsValidSlotIndex i \<longleftrightarrow> 0 < unat i \<and> unat i < 1024"
  by (simp add: IsValidSlotIndex_def word_less_nat_alt)

lemma slot_at_ok: "SR_wf r \<Longrightarrow> unat i < 1024 \<Longrightarrow> slot_ok (unat i) (slot_at r i)"
  by (auto simp: SR_wf_def slot_at_def)

lemma update_slot_wf:
  assumes "SR_wf r" "slot_ok (unat i) (slot_at r i) \<Longrightarrow> slot_ok (unat i) (f (slot_at r i))"
  shows "SR_wf (update_slot i f r)"
proof -
  obtain l where l: "slots r = Some l" "length l = 1024" "\<forall>i<1024. slot_ok i (l ! i)"
    using assms(1) by (auto simp: SR_wf_def)
  have "slot_ok j (l[unat i := f (l ! unat i)] ! j)" if "j < 1024" for j
    using l assms(2) that by (cases "j = unat i") (simp_all add: slot_at_def)
  then show ?thesis
    using l by (simp add: SR_wf_def update_slot_def)
qed

lemma IsActive_write_slot [simp]: "IsActive (write_slot f s) = IsActive (f (s\<lparr> sequence := sequence s + 1 \<rparr>))"
  by (simp add: write_slot_def Let_def IsActive_def writer_acquire_def)

lemma service_id_write_slot [simp]:
  "service_id (write_slot f s) = service_id (f (s\<lparr> sequence := sequence s + 1 \<rparr>))"
  by (simp add: write_slot_def Let_def writer_acquire_def)

lemma fill_slot_active [simp]: "IsActive (fill_slot env sid off s)"
  by (simp add: fill_slot_def IsActive_def)

lemma fill_slot_service [simp]: "service_id (fill_slot env sid off s) = sid"
  by (simp add: fill_slot_def)

lemma layout_write_slot:
  "slot_layout (write_slot f s) = slot_layout (f (s\<lparr> sequence := sequence s + 1 \<rparr>))"
  by (simp add: write_slot_def Let_def slot_layout_def writer_acquire_def)

lemma last_set_cbuf: "dst \<noteq> [] \<Longrightarrow> last (set_cbuf dst src) = CHR 0x00"
proof -
  assume "dst \<noteq> []"
  moreover from this have "strncpy dst src (length dst - 1) \<noteq> []"
    by (metis length_strncpy diff_le_self length_0_conv)
  ultimately show ?thesis
    by (simp add: set_cbuf_def last_list_update length_strncpy)
qed

lemma fill_slot_layout:
  assumes "slot_layout s"
  shows "slot_layout (fill_slot env sid off s)"
proof -
  have "binding_type s \<noteq> []" "endpoint s \<noteq> []"
    using assms by (auto simp: slot_layout_def)
  then show ?thesis
    using assms by (simp add: slot_layout_def fill_slot_def last_set_cbuf)
qed

lemma slot_layout_sequence [simp]: "slot_layout (s\<lparr> sequence := q \<rparr>) = slot_layout s"
  by (simp add: slot_layout_def)

lemma write_fill_ok:
  "slot_ok i s \<Longrightarrow> unat sid mod 1024 = i \<Longrightarrow> slot_ok i (write_slot (fill_slot env sid off) s)"
  by (simp add: slot_ok_def layout_write_slot fill_slot_layout)

lemma write_reset_ok: "slot_ok i s \<Longrightarrow> slot_ok i (write_slot reset_slot s)"
  by (simp add: slot_ok_def layout_write_slot reset_slot_layout)

lemma slot_layout_heartbeat [simp]: "slot_layout (s\<lparr> last_heartbeat_ns := ts \<rparr>) = slot_layout s"
  by (simp add: slot_layout_def)

lemma write_heartbeat_ok:
  "slot_ok i s \<Longrightarrow> slot_ok i (write_slot (\<lambda>s. s\<lparr> last_heartbeat_ns := ts \<rparr>) s)"
  by (simp add: slot_ok_def layout_write_slot) (simp add: IsActive_def)

lemma SR_Register_wf:
  "SR_wf r \<Longrightarrow> unat sid mod 1024 = unat i \<Longrightarrow> SR_wf (snd (SR_RegisterService env i sid off r))"
  by (simp add: SR_RegisterService_def update_slot_wf write_fill_ok)

lemma SR_Unregister_wf: "SR_wf r \<Longrightarrow> SR_wf (snd (SR_UnregisterService i r))"
  by (simp add: SR_UnregisterService_def update_slot_wf write_reset_ok)

lemma SR_UpdateHeartbeat_wf: "SR_wf r \<Longrightarrow> SR_wf (snd (SR_UpdateHeartbeat i ts r))"
  by (simp add: SR_UpdateHeartbeat_def update_slot_wf write_heartbeat_ok)

lemmas SR_ops_wf = SR_Register_wf SR_Unregister_wf SR_UpdateHeartbeat_wf

subsection \<open>Lookup\<close>

definition hash_slot :: "u64 \<Rightarrow> u32" where
  "hash_slot sid = ucast (sid AND 1023)"

lemma unat_hash_slot: "unat (hash_slot sid) = unat sid mod 1024"
proof -
  have "unat (sid AND 1023) < 2 ^ 32"
    by (simp add: unat_and_1023 less_trans [OF mod_less_divisor])
  then have "unat (hash_slot sid) = unat (sid AND 1023)"
    by (simp add: hash_slot_def unsigned_ucast_eq unsigned_take_bit_eq take_bit_nat_eq_self)
  then show ?thesis
    by (simp only: unat_and_1023)
qed

lemma hash_slot_valid: "IsValidSlotIndex (hash_slot sid) \<longleftrightarrow> unat sid mod 1024 \<noteq> 0"
  by (simp add: valid_index_unat unat_hash_slot)

text \<open>On a well-formed registry a lookup is one comparison with the slot the identifier maps to.\<close>

lemma SR_Find_wf:
  assumes "SR_wf r"
  shows "SR_FindService sid r =
    (let s = slot_at r (hash_slot sid) in
     if unat sid mod 1024 \<noteq> 0 \<and> IsActive s \<and> service_id s = sid then Some s else None)"
proof (cases "unat sid mod 1024 = 0")
  case True
  then show ?thesis
    using assms by (simp add: SR_FindService_def hash_slot_def [symmetric] hash_slot_valid)
next
  case False
  then have "sid \<noteq> 0" by auto
  have "is_stable (sequence (slot_at r (hash_slot sid)))"
    using slot_at_ok [OF assms, of "hash_slot sid"] by (simp add: unat_hash_slot slot_ok_def)
  then show ?thesis
    using assms False \<open>sid \<noteq> 0\<close>
    by (auto simp: SR_FindService_def hash_slot_def [symmetric] hash_slot_valid Let_def
        quiet_read_eq empty_slot_def)
qed

lemma SR_Find_update_other:
  assumes "SR_wf r" "SR_wf (update_slot i f r)" "hash_slot sid \<noteq> i"
  shows "SR_FindService sid (update_slot i f r) = SR_FindService sid r"
  using assms by (simp add: SR_Find_wf slot_at_update_other [of r i "hash_slot sid"])

lemma SR_Find_update_same:
  assumes "SR_wf r" "SR_wf (update_slot (hash_slot sid) f r)" "unat sid mod 1024 \<noteq> 0"
  shows "SR_FindService sid (update_slot (hash_slot sid) f r) =
    (let s = f (slot_at r (hash_slot sid)) in
     if IsActive s \<and> service_id s = sid then Some s else None)"
  using assms by (simp add: SR_Find_wf slot_at_update_same unat_hash_slot)

subsection \<open>The registry as a service map\<close>

text \<open>What a client reads of a slot, and the entry an accepted offer becomes: the two texts
  are cut to the buffers.\<close>

record svc_entry =
  e_service :: u64
  e_instance :: u64
  e_major :: u32
  e_minor :: u32
  e_binding :: string
  e_endpoint :: string

definition slot_entry :: "service_slot \<Rightarrow> svc_entry" where
  "slot_entry s = \<lparr> e_service = service_id s, e_instance = instance_id s,
     e_major = major_version s, e_minor = minor_version s,
     e_binding = c_str (binding_type s), e_endpoint = c_str (endpoint s) \<rparr>"

definition offer_entry :: "u64 \<Rightarrow> proc_env \<times> offer \<Rightarrow> svc_entry" where
  "offer_entry sid x = (case x of (_, off) \<Rightarrow>
     \<lparr> e_service = sid, e_instance = of_instance off, e_major = of_major off,
       e_minor = of_minor off, e_binding = take 15 (c_str (of_binding off)),
       e_endpoint = take 79 (c_str (of_endpoint off)) \<rparr>)"

definition sr_register :: "u64 \<Rightarrow> proc_env \<times> offer \<Rightarrow> single_registry \<Rightarrow>
    unit result \<times> single_registry" where
  "sr_register sid x r = SR_RegisterService (fst x) (hash_slot sid) sid (snd x) r"

definition sr_unregister :: "u64 \<Rightarrow> single_registry \<Rightarrow> unit result \<times> single_registry" where
  "sr_unregister sid r = SR_UnregisterService (hash_slot sid) r"

definition sr_lookup :: "u64 \<Rightarrow> single_registry \<Rightarrow> svc_entry option" where
  "sr_lookup sid r = map_option slot_entry (SR_FindService sid r)"

definition same_slot :: "u64 \<Rightarrow> u64 \<Rightarrow> bool" where
  "same_slot a b \<longleftrightarrow> hash_slot a = hash_slot b"

lemma write_slot_entry [simp]:
  "slot_entry (write_slot f s) = slot_entry (f (s\<lparr> sequence := sequence s + 1 \<rparr>))"
  by (simp add: write_slot_def Let_def slot_entry_def writer_acquire_def)

lemma fill_slot_entry:
  assumes "slot_layout s"
  shows "slot_entry (fill_slot env sid off s) = offer_entry sid (env, off)"
proof -
  have "binding_type s \<noteq> []" "endpoint s \<noteq> []"
    "length (binding_type s) = 16" "length (endpoint s) = 80"
    using assms by (auto simp: slot_layout_def)
  then show ?thesis
    by (simp add: slot_entry_def fill_slot_def offer_entry_def c_str_set_cbuf)
qed

text \<open>A slot is active exactly when some identifier that maps to it is found.\<close>

lemma slot_active_iff:
  assumes "SR_wf r" "unat sid mod 1024 \<noteq> 0"
  shows "IsActive (slot_at r (hash_slot sid)) \<longleftrightarrow>
    (\<exists>j. same_slot sid j \<and> SR_FindService j r \<noteq> None)"
proof
  let ?s = "slot_at r (hash_slot sid)"
  assume act: "IsActive ?s"
  have "unat (service_id ?s) mod 1024 = unat sid mod 1024"
    using slot_at_ok [OF assms(1), of "hash_slot sid"] act by (simp add: slot_ok_def unat_hash_slot)
  then have "hash_slot (service_id ?s) = hash_slot sid"
    by (metis unat_hash_slot word_unat_eq_iff)
  then show "\<exists>j. same_slot sid j \<and> SR_FindService j r \<noteq> None"
    using act assms \<open>unat (service_id ?s) mod 1024 = _\<close>
    by (intro exI [of _ "service_id ?s"]) (simp add: same_slot_def SR_Find_wf)
next
  assume "\<exists>j. same_slot sid j \<and> SR_FindService j r \<noteq> None"
  then show "IsActive (slot_at r (hash_slot sid))"
    using assms(1) by (auto simp: same_slot_def SR_Find_wf Let_def split: if_splits)
qed

lemma find_register:
  assumes wf: "SR_wf r" and sid: "unat sid mod 1024 \<noteq> 0"
    and free: "\<not> IsActive (slot_at r (hash_slot sid))"
  shows "sr_lookup j (snd (sr_register sid x r)) =
    (if j = sid then Some (offer_entry sid x) else sr_lookup j r)"
proof -
  let ?f = "write_slot (fill_slot (fst x) sid (snd x))"
  have reg: "snd (sr_register sid x r) = update_slot (hash_slot sid) ?f r"
    using wf sid free by (simp add: sr_register_def SR_RegisterService_def hash_slot_valid)
  have wf': "SR_wf (update_slot (hash_slot sid) ?f r)"
    using SR_Register_wf [OF wf, of sid "hash_slot sid"] reg
    by (metis sr_register_def unat_hash_slot)
  have lay: "slot_layout (slot_at r (hash_slot sid))"
    using slot_at_ok [OF wf, of "hash_slot sid"] by (simp add: unat_hash_slot slot_ok_def)
  show ?thesis
  proof (cases "hash_slot j = hash_slot sid")
    case True
    then have j: "unat j mod 1024 \<noteq> 0"
      using sid by (metis unat_hash_slot)
    have "SR_FindService j r = None"
      using True free wf by (simp add: SR_Find_wf)
    moreover have "SR_FindService j (update_slot (hash_slot sid) ?f r) =
        (if j = sid then Some (?f (slot_at r (hash_slot sid))) else None)"
      using SR_Find_update_same [OF wf, of j ?f] wf' True j by simp
    ultimately show ?thesis
      using lay unfolding sr_lookup_def reg by (simp add: fill_slot_entry)
  next
    case False
    then show ?thesis
      using SR_Find_update_other [OF wf wf', of j] unfolding sr_lookup_def reg by auto
  qed
qed

lemma find_unregister:
  assumes wf: "SR_wf r" and sid: "unat sid mod 1024 \<noteq> 0"
  shows "sr_lookup j (snd (sr_unregister sid r)) =
    (if same_slot sid j then None else sr_lookup j r)"
proof -
  let ?f = "write_slot reset_slot"
  have unreg: "snd (sr_unregister sid r) = update_slot (hash_slot sid) ?f r"
    using wf sid by (simp add: sr_unregister_def SR_UnregisterService_def hash_slot_valid)
  have wf': "SR_wf (update_slot (hash_slot sid) ?f r)"
    using SR_Unregister_wf [OF wf, of "hash_slot sid"] unreg by (simp add: sr_unregister_def)
  show ?thesis
  proof (cases "same_slot sid j")
    case True
    then have "hash_slot sid = hash_slot j"
      by (simp add: same_slot_def)
    moreover from this have "unat j mod 1024 \<noteq> 0"
      using sid by (metis unat_hash_slot)
    ultimately show ?thesis
      using SR_Find_update_same [OF wf, of j ?f] wf' True unfolding sr_lookup_def unreg by simp
  next
    case False
    then show ?thesis
      using SR_Find_update_other [OF wf wf', of j] unfolding sr_lookup_def unreg
      by (auto simp: same_slot_def)
  qed
qed

lemma sr_register_result:
  assumes "SR_wf r" "unat sid mod 1024 \<noteq> 0"
  shows "sr_register sid x r =
    (if IsActive (slot_at r (hash_slot sid)) then (Err kServiceNotOffered, r)
     else (Ok (), snd (sr_register sid x r)))"
  using assms by (simp add: sr_register_def SR_RegisterService_def hash_slot_valid)

lemma sr_lookup_None [simp]: "sr_lookup j r = None \<longleftrightarrow> SR_FindService j r = None"
  by (simp add: sr_lookup_def)

interpretation sr: service_map SR_wf sr_register sr_unregister sr_lookup offer_entry
  "\<lambda>sid. unat sid mod 1024 \<noteq> 0" same_slot
proof (standard, goal_cases)
  case (1 s i x)
  then show ?case by (simp add: sr_register_def SR_Register_wf unat_hash_slot)
next
  case (2 s i)
  then show ?case by (simp add: sr_unregister_def SR_Unregister_wf)
next
  case (3 s i x)
  then have "IsActive (slot_at s (hash_slot i))"
    using slot_active_iff by simp
  then show ?case using sr_register_result [OF 3(1,2), of x] by (simp only: if_True)
next
  case (4 s i x)
  then show ?case using slot_active_iff sr_register_result by (metis fst_conv sr_lookup_None)
next
  case (5 s i x j)
  then show ?case using slot_active_iff find_register by (metis sr_lookup_None)
next
  case (6 s i)
  then show ?case by (simp add: sr_unregister_def SR_UnregisterService_def hash_slot_valid)
next
  case (7 s i j)
  then show ?case by (rule find_unregister)
next
  case (8 i)
  then show ?case by (simp add: same_slot_def)
qed

subsection \<open>Resources\<close>

lemma receive_no_socket_leak:
  assumes "receiveMemfdFromSocket env os = (res, os')" "socket_ret env \<notin> open_fds os"
  shows "mapped os' = mapped os \<and>
    open_fds os' = (case res of Inl _ \<Rightarrow> open_fds os | Inr fd \<Rightarrow> insert fd (open_fds os))"
  using assms by (auto simp: receiveMemfdFromSocket_def Let_def os_open_def os_close_def
      split: if_splits option.splits)

text \<open>C9: Whatever the system calls answer, initialising a fresh registry and cleaning it up
  leaves the descriptor table and the mappings of the process as they were: no error path of
  \<open>Initialize\<close> leaks the memfd, and \<open>Cleanup\<close> releases exactly what a success acquired.\<close>

theorem SR_lifecycle_no_leak:
  assumes "memfd_ret env \<notin> open_fds os" "SR_Initialize env (single_new t) os = (res, r, os')"
    "SR_Cleanup r os' = (r', os'')"
  shows "os'' = os \<and> r' = single_new t \<or> memfd_ret env < 0 \<and> os'' = os \<and> res = Err kInternal"
  using assms
  by (auto simp: SR_Initialize_def SR_Cleanup_def single_new_def IsInitialized_def Let_def
      os_open_def os_close_def os_map_def os_unmap_def split: if_splits option.splits)

lemma SR_lifecycle_no_leak_witness:
  "let env = \<lparr> memfd_ret = 5, truncate_ret = 0, mmap_ret = Some (replicate 1024 empty_slot), seal_ret = 0 \<rparr>;
       os = \<lparr> open_fds = {0, 1, 2}, mapped = 0 \<rparr>;
       (res, r, os') = SR_Initialize env (single_new QM) os;
       (r', os'') = SR_Cleanup r os'
   in os'' = os \<and> r' = single_new QM \<or> memfd_ret env < 0 \<and> os'' = os \<and> res = Err kInternal"
  unfolding Let_def case_prod_beta
  by (rule SR_lifecycle_no_leak) simp_all

end
