(* ===== verification/SharedRegistry.thy ===== *)
theory SharedRegistry
  imports SingleRegistry
begin

text \<open>
  Class \<open>SharedMemoryRegistry\<close>: a QM and an ASIL registry behind one interface, with the
  routing of service identifiers (\<open>SelectRegistry\<close>) and the fixed slot mapping
  (\<open>CalculateSlot\<close>).  The abstract specification is a finite map from identifiers to offers
  in which two identifiers that share registry and slot exclude each other; the registry
  refines it operation by operation.
\<close>

record shared_registry =
  qm_registry :: single_registry
  asil_registry :: single_registry

definition SMR_new :: shared_registry where
  "SMR_new = \<lparr> qm_registry = single_new QM, asil_registry = single_new ASIL \<rparr>"

definition CalculateSlot :: "u64 \<Rightarrow> u32" where
  "CalculateSlot sid = (let slot = ucast (sid AND 1023) in if slot = 0 then 0 else slot)"

definition BROADCAST_SERVICE_ID :: u16 where "BROADCAST_SERVICE_ID = 0xFFFF"
definition ASIL_SERVICE_ID_MIN :: u16 where "ASIL_SERVICE_ID_MIN = 0xF001"
definition ASIL_SERVICE_ID_MAX :: u16 where "ASIL_SERVICE_ID_MAX = 0xF3FE"
definition QM_SERVICE_ID_MIN :: u16 where "QM_SERVICE_ID_MIN = 0x0001"
definition QM_SERVICE_ID_MAX :: u16 where "QM_SERVICE_ID_MAX = 0x0417"

lemmas id_ranges = BROADCAST_SERVICE_ID_def ASIL_SERVICE_ID_MIN_def ASIL_SERVICE_ID_MAX_def
  QM_SERVICE_ID_MIN_def QM_SERVICE_ID_MAX_def

definition SelectRegistry :: "u64 \<Rightarrow> registry_type" where
  "SelectRegistry svc =
     (let sid = ucast (svc AND 0xFFFF) :: u16 in
      if sid = BROADCAST_SERVICE_ID then BOTH
      else if ASIL_SERVICE_ID_MIN \<le> sid \<and> sid \<le> ASIL_SERVICE_ID_MAX then ASIL
      else if QM_SERVICE_ID_MIN \<le> sid \<and> sid \<le> QM_SERVICE_ID_MAX then QM
      else QM)"

definition SMR_Initialize ::
  "memfd_env \<Rightarrow> memfd_env \<Rightarrow> shared_registry \<Rightarrow> os_state \<Rightarrow>
     unit result \<times> shared_registry \<times> os_state" where
  "SMR_Initialize qenv aenv g os =
     (let (qm_result, q, os1) = SR_Initialize qenv (qm_registry g) os;
          g1 = g\<lparr> qm_registry := q \<rparr> in
      if \<not> has_value qm_result then (qm_result, g1, os1)
      else
        let (asil_result, a, os2) = SR_Initialize aenv (asil_registry g1) os1;
            g2 = g1\<lparr> asil_registry := a \<rparr> in
        if \<not> has_value asil_result then (asil_result, g2, os2) else (Ok (), g2, os2))"

definition SMR_InitializeFromSocket ::
  "recv_env \<Rightarrow> recv_env \<Rightarrow> shared_registry \<Rightarrow> os_state \<Rightarrow>
     unit result \<times> shared_registry \<times> os_state" where
  "SMR_InitializeFromSocket qenv aenv g os =
     (let (qm_result, q, os1) = SR_InitializeFromSocket qenv (qm_registry g) os;
          g1 = g\<lparr> qm_registry := q \<rparr> in
      if \<not> has_value qm_result then (qm_result, g1, os1)
      else
        let (asil_result, a, os2) = SR_InitializeFromSocket aenv (asil_registry g1) os1;
            g2 = g1\<lparr> asil_registry := a \<rparr> in
        if \<not> has_value asil_result then (asil_result, g2, os2) else (Ok (), g2, os2))"

text \<open>\<open>on_qm\<close> and \<open>on_asil\<close> run an operation of one registry inside the pair.\<close>

definition on_qm :: "(single_registry \<Rightarrow> 'r \<times> single_registry) \<Rightarrow> shared_registry \<Rightarrow>
    'r \<times> shared_registry" where
  [op_defs]: "on_qm f g = (let (res, r) = f (qm_registry g) in (res, g\<lparr> qm_registry := r \<rparr>))"

definition on_asil :: "(single_registry \<Rightarrow> 'r \<times> single_registry) \<Rightarrow> shared_registry \<Rightarrow>
    'r \<times> shared_registry" where
  [op_defs]: "on_asil f g = (let (res, r) = f (asil_registry g) in (res, g\<lparr> asil_registry := r \<rparr>))"

definition SMR_RegisterService ::
  "proc_env \<Rightarrow> u64 \<Rightarrow> offer \<Rightarrow> shared_registry \<Rightarrow> unit result \<times> shared_registry" where
  "SMR_RegisterService env sid off g =
     (let slot_index = CalculateSlot sid in
      if slot_index = 0 then (Err kInvalidArgument, g)
      else
        (case SelectRegistry sid of
           BOTH \<Rightarrow>
             let (qm_result, g1) = on_qm (SR_RegisterService env slot_index sid off) g;
                 (asil_result, g2) = on_asil (SR_RegisterService env slot_index sid off) g1
             in if \<not> has_value qm_result then (qm_result, g2) else (asil_result, g2)
         | ASIL \<Rightarrow> on_asil (SR_RegisterService env slot_index sid off) g
         | QM \<Rightarrow> on_qm (SR_RegisterService env slot_index sid off) g))"

definition SMR_UnregisterService ::
  "u64 \<Rightarrow> shared_registry \<Rightarrow> unit result \<times> shared_registry" where
  "SMR_UnregisterService sid g =
     (let slot_index = CalculateSlot sid in
      if slot_index = 0 then (Err kInvalidArgument, g)
      else
        (case SelectRegistry sid of
           BOTH \<Rightarrow> on_asil (SR_UnregisterService slot_index)
                     (snd (on_qm (SR_UnregisterService slot_index) g))
         | ASIL \<Rightarrow> on_asil (SR_UnregisterService slot_index) g
         | QM \<Rightarrow> on_qm (SR_UnregisterService slot_index) g))"

definition SMR_FindService :: "u64 \<Rightarrow> shared_registry \<Rightarrow> service_slot option" where
  "SMR_FindService sid g =
     (if SelectRegistry sid = ASIL then SR_FindService sid (asil_registry g)
      else SR_FindService sid (qm_registry g))"

definition SMR_UpdateHeartbeat ::
  "u64 \<Rightarrow> u64 \<Rightarrow> shared_registry \<Rightarrow> unit result \<times> shared_registry" where
  "SMR_UpdateHeartbeat sid ts g =
     (let slot_index = CalculateSlot sid in
      if slot_index = 0 then (Err kInvalidArgument, g)
      else
        (case SelectRegistry sid of
           BOTH \<Rightarrow> on_asil (SR_UpdateHeartbeat slot_index ts)
                     (snd (on_qm (SR_UpdateHeartbeat slot_index ts) g))
         | ASIL \<Rightarrow> on_asil (SR_UpdateHeartbeat slot_index ts) g
         | QM \<Rightarrow> on_qm (SR_UpdateHeartbeat slot_index ts) g))"

subsection \<open>Routing\<close>

lemma CalculateSlot_hash: "CalculateSlot sid = hash_slot sid"
  by (simp add: CalculateSlot_def hash_slot_def Let_def)

lemma hash_slot_0_iff: "hash_slot sid = 0 \<longleftrightarrow> unat sid mod 1024 = 0"
  by (metis unat_eq_zero unat_hash_slot)

lemma hash_slot_eq_iff: "hash_slot a = hash_slot b \<longleftrightarrow> unat a mod 1024 = unat b mod 1024"
  by (metis unat_hash_slot word_unat_eq_iff)

lemma unat_low16: "unat (ucast (sid AND 0xFFFF :: u64) :: u16) = unat sid mod 65536"
  by (simp only: unsigned_ucast_eq unsigned_take_bit_eq unat_and_65535)
    (simp add: take_bit_eq_mod)

text \<open>The routing in terms of the low 16 bits; the last branch of the code is the fallback.\<close>

lemma SelectRegistry_ASIL_iff:
  "SelectRegistry sid = ASIL \<longleftrightarrow> 0xF001 \<le> unat sid mod 65536 \<and> unat sid mod 65536 \<le> 0xF3FE"
  by (auto simp: SelectRegistry_def Let_def id_ranges word_le_nat_alt word_unat_eq_iff unat_low16)

lemma SelectRegistry_BOTH_iff: "SelectRegistry sid = BOTH \<longleftrightarrow> unat sid mod 65536 = 0xFFFF"
  by (auto simp: SelectRegistry_def Let_def id_ranges word_le_nat_alt word_unat_eq_iff unat_low16)

lemma slot_of_low16: "unat (sid :: u64) mod 1024 = unat sid mod 65536 mod 1024"
  by (simp add: mod_mod_cancel)

lemma hash_slot_is: "n < 1024 \<Longrightarrow> hash_slot sid = of_nat n \<longleftrightarrow> unat sid mod 1024 = n"
proof -
  assume "n < 1024"
  then have "unat (of_nat n :: u32) = n"
    by (simp add: unat_of_nat)
  then show ?thesis
    by (metis unat_hash_slot word_unat_eq_iff)
qed

lemma BOTH_slot: "SelectRegistry sid = BOTH \<Longrightarrow> hash_slot sid = 1023"
proof -
  assume "SelectRegistry sid = BOTH"
  then have "unat sid mod 1024 = 1023"
    by (subst slot_of_low16) (simp add: SelectRegistry_BOTH_iff)
  then show ?thesis
    using hash_slot_is [of 1023 sid] by simp
qed

lemma asil_range_mod:
  fixes x :: nat
  assumes "0xF001 \<le> x" "x \<le> 0xF3FE"
  shows "x mod 1024 \<noteq> 0 \<and> x mod 1024 \<noteq> 1023"
proof -
  obtain y where x: "x = y + 60 * 1024"
    using assms(1) by (intro that [of "x - 60 * 1024"]) simp
  then have "0 < y" "y < 1023"
    using assms by simp_all
  then show ?thesis
    by (simp only: x mod_mult_self1) simp
qed

lemma ASIL_slot: "SelectRegistry sid = ASIL \<Longrightarrow> hash_slot sid \<noteq> 1023 \<and> hash_slot sid \<noteq> 0"
proof -
  assume "SelectRegistry sid = ASIL"
  then have "0xF001 \<le> unat sid mod 65536" "unat sid mod 65536 \<le> 0xF3FE"
    by (simp_all add: SelectRegistry_ASIL_iff)
  then have "unat sid mod 1024 \<noteq> 0 \<and> unat sid mod 1024 \<noteq> 1023"
    unfolding slot_of_low16 by (rule asil_range_mod)
  then show ?thesis
    using hash_slot_is [of 1023 sid] hash_slot_0_iff [of sid] by simp
qed

subsection \<open>Invariant\<close>

definition actives_routed :: "(registry_type \<Rightarrow> bool) \<Rightarrow> single_registry \<Rightarrow> bool" where
  "actives_routed P r \<longleftrightarrow>
     (\<forall>sid. SR_FindService sid r \<noteq> None \<longrightarrow> P (SelectRegistry sid))"

text \<open>Both registries are well formed, and no service is stored in a registry it is not routed
  to (a broadcast service belongs to both).\<close>

definition SMR_wf :: "shared_registry \<Rightarrow> bool" where
  "SMR_wf g \<longleftrightarrow> SR_wf (qm_registry g) \<and> SR_wf (asil_registry g) \<and>
     actives_routed (\<lambda>t. t \<noteq> ASIL) (qm_registry g) \<and>
     actives_routed (\<lambda>t. t \<noteq> QM) (asil_registry g)"

definition home :: "u64 \<Rightarrow> shared_registry \<Rightarrow> single_registry" where
  "home sid g = (if SelectRegistry sid = ASIL then asil_registry g else qm_registry g)"

definition smr_register :: "u64 \<Rightarrow> proc_env \<times> offer \<Rightarrow> shared_registry \<Rightarrow>
    unit result \<times> shared_registry" where
  "smr_register sid x g = SMR_RegisterService (fst x) sid (snd x) g"

definition smr_lookup :: "u64 \<Rightarrow> shared_registry \<Rightarrow> svc_entry option" where
  "smr_lookup sid g = map_option slot_entry (SMR_FindService sid g)"

definition unicast :: "u64 \<Rightarrow> bool" where
  "unicast sid \<longleftrightarrow> unat sid mod 1024 \<noteq> 0 \<and> SelectRegistry sid \<noteq> BOTH"

text \<open>Two identifiers clash when they share the registry and the slot.\<close>

definition shares_slot :: "u64 \<Rightarrow> u64 \<Rightarrow> bool" where
  "shares_slot a b \<longleftrightarrow>
     same_slot a b \<and> (SelectRegistry a = ASIL \<longleftrightarrow> SelectRegistry b = ASIL)"

lemma smr_lookup_home: "smr_lookup sid g = sr_lookup sid (home sid g)"
  by (simp add: smr_lookup_def SMR_FindService_def home_def sr_lookup_def)

lemma home_wf: "SMR_wf g \<Longrightarrow> SR_wf (home sid g)"
  by (simp add: SMR_wf_def home_def)

lemma CalculateSlot_0: "CalculateSlot sid = 0 \<longleftrightarrow> unat sid mod 1024 = 0"
  by (simp add: CalculateSlot_hash hash_slot_0_iff)

lemma smr_register_unicast:
  assumes "unicast sid"
  shows "smr_register sid x g =
    (if SelectRegistry sid = ASIL then on_asil (sr_register sid x) g
     else on_qm (sr_register sid x) g)"
  using assms
  by (cases "SelectRegistry sid")
    (simp_all add: unicast_def smr_register_def SMR_RegisterService_def CalculateSlot_0
      sr_register_def [abs_def] CalculateSlot_hash hash_slot_0_iff)

lemma smr_unregister_unicast:
  assumes "unicast sid"
  shows "SMR_UnregisterService sid g =
    (if SelectRegistry sid = ASIL then on_asil (sr_unregister sid) g
     else on_qm (sr_unregister sid) g)"
  using assms
  by (cases "SelectRegistry sid")
    (simp_all add: unicast_def SMR_UnregisterService_def CalculateSlot_0
      sr_unregister_def [abs_def] CalculateSlot_hash hash_slot_0_iff)

lemma routed_register:
  assumes "SR_wf r" "actives_routed P r" "P (SelectRegistry sid)" "unat sid mod 1024 \<noteq> 0"
  shows "SR_wf (snd (sr_register sid x r)) \<and> actives_routed P (snd (sr_register sid x r))"
proof
  show "SR_wf (snd (sr_register sid x r))"
    using assms by (simp add: sr.inv_reg)
  have "j = sid \<or> sr_lookup j r \<noteq> None" if "sr_lookup j (snd (sr_register sid x r)) \<noteq> None" for j
    using that sr.reg_frame [OF assms(1,4)] by metis
  then show "actives_routed P (snd (sr_register sid x r))"
    using assms unfolding actives_routed_def sr_lookup_None [symmetric] by metis
qed

lemma routed_unregister:
  assumes "SR_wf r" "actives_routed P r" "unat sid mod 1024 \<noteq> 0"
  shows "SR_wf (snd (sr_unregister sid r)) \<and> actives_routed P (snd (sr_unregister sid r))"
  using assms sr.inv_unreg sr.lookup_unreg
  unfolding actives_routed_def sr_lookup_None [symmetric] by metis

lemma heartbeat_view:
  "slot_entry (s\<lparr> last_heartbeat_ns := ts \<rparr>) = slot_entry s"
  "IsActive (s\<lparr> last_heartbeat_ns := ts \<rparr>) = IsActive s"
  "slot_entry (s\<lparr> sequence := q \<rparr>) = slot_entry s"
  "IsActive (s\<lparr> sequence := q \<rparr>) = IsActive s"
  by (simp_all add: slot_entry_def IsActive_def)

lemma routed_heartbeat:
  assumes "SR_wf r" "actives_routed P r"
  shows "SR_wf (snd (SR_UpdateHeartbeat i ts r)) \<and>
    actives_routed P (snd (SR_UpdateHeartbeat i ts r)) \<and>
    (\<forall>j. sr_lookup j (snd (SR_UpdateHeartbeat i ts r)) = sr_lookup j r)"
proof (cases "IsValidSlotIndex i")
  case True
  let ?f = "write_slot (\<lambda>s. s\<lparr> last_heartbeat_ns := ts \<rparr>)"
  have hb: "snd (SR_UpdateHeartbeat i ts r) = update_slot i ?f r"
    using assms True by (simp add: SR_UpdateHeartbeat_def)
  have wf: "SR_wf (update_slot i ?f r)"
    using SR_UpdateHeartbeat_wf [OF assms(1), of i ts] hb by simp
  have "sr_lookup j (update_slot i ?f r) = sr_lookup j r" for j
  proof (cases "hash_slot j = i \<and> unat j mod 1024 \<noteq> 0")
    case True
    then have "SR_FindService j (update_slot i ?f r) =
        (let s = ?f (slot_at r (hash_slot j)) in
         if IsActive s \<and> service_id s = j then Some s else None)"
      using SR_Find_update_same [OF assms(1), of j ?f] wf by simp
    then show ?thesis
      using True assms(1)
      by (simp add: sr_lookup_def SR_Find_wf Let_def heartbeat_view)
  next
    case False
    then have "hash_slot j \<noteq> i"
      using \<open>IsValidSlotIndex i\<close> hash_slot_valid [of j] by blast
    then show ?thesis
      using SR_Find_update_other [OF assms(1) wf, of j] by (simp add: sr_lookup_def)
  qed
  then show ?thesis
    using wf assms(2) unfolding actives_routed_def sr_lookup_None [symmetric] hb by simp
next
  case False
  then show ?thesis
    using assms by (simp add: SR_UpdateHeartbeat_def)
qed

lemma on_qm_simps [simp]:
  "fst (on_qm f g) = fst (f (qm_registry g))"
  "qm_registry (snd (on_qm f g)) = snd (f (qm_registry g))"
  "asil_registry (snd (on_qm f g)) = asil_registry g"
  by (simp_all add: on_qm_def Let_def case_prod_beta)

lemma on_asil_simps [simp]:
  "fst (on_asil f g) = fst (f (asil_registry g))"
  "asil_registry (snd (on_asil f g)) = snd (f (asil_registry g))"
  "qm_registry (snd (on_asil f g)) = qm_registry g"
  by (simp_all add: on_asil_def Let_def case_prod_beta)

lemma SMR_wf_on_qm:
  "SMR_wf g \<Longrightarrow> SR_wf (snd (f (qm_registry g))) \<and>
     actives_routed (\<lambda>t. t \<noteq> ASIL) (snd (f (qm_registry g))) \<Longrightarrow> SMR_wf (snd (on_qm f g))"
  by (simp add: SMR_wf_def)

lemma SMR_wf_on_asil:
  "SMR_wf g \<Longrightarrow> SR_wf (snd (f (asil_registry g))) \<and>
     actives_routed (\<lambda>t. t \<noteq> QM) (snd (f (asil_registry g))) \<Longrightarrow> SMR_wf (snd (on_asil f g))"
  by (simp add: SMR_wf_def)

lemma SMR_wfD:
  assumes "SMR_wf g"
  shows "SR_wf (qm_registry g)" "SR_wf (asil_registry g)"
    "actives_routed (\<lambda>t. t \<noteq> ASIL) (qm_registry g)"
    "actives_routed (\<lambda>t. t \<noteq> QM) (asil_registry g)"
  using assms by (simp_all add: SMR_wf_def)

text \<open>In a well-formed pair, a unicast identifier only meets services of its own route in its
  home slot, so the clashes inside the home registry are exactly \<open>shares_slot\<close>.\<close>

lemma home_clash:
  assumes "SMR_wf g" "unicast sid" "same_slot sid j" "sr_lookup j (home sid g) \<noteq> None"
  shows "home j g = home sid g \<and> shares_slot sid j"
proof (cases "SelectRegistry sid = ASIL")
  case True
  then have "SelectRegistry j \<noteq> QM"
    using SMR_wfD(4) [OF assms(1)] assms(4) by (simp add: actives_routed_def home_def)
  moreover have "SelectRegistry j \<noteq> BOTH"
    using ASIL_slot [OF True] BOTH_slot [of j] assms(3) by (auto simp: same_slot_def)
  ultimately have "SelectRegistry j = ASIL"
    by (cases "SelectRegistry j") simp_all
  then show ?thesis
    using True assms(3) by (simp add: home_def shares_slot_def)
next
  case False
  then have "SelectRegistry j \<noteq> ASIL"
    using SMR_wfD(3) [OF assms(1)] assms(4) by (auto simp: actives_routed_def home_def)
  then show ?thesis
    using False assms(3) by (simp add: home_def shares_slot_def)
qed

lemma clash_home_iff:
  assumes "SMR_wf g" "unicast sid"
  shows "(\<exists>j. shares_slot sid j \<and> smr_lookup j g \<noteq> None) \<longleftrightarrow>
    (\<exists>j. same_slot sid j \<and> sr_lookup j (home sid g) \<noteq> None)"
proof
  assume "\<exists>j. shares_slot sid j \<and> smr_lookup j g \<noteq> None"
  then obtain j where j: "shares_slot sid j" "sr_lookup j (home j g) \<noteq> None"
    by (auto simp: smr_lookup_home)
  moreover from j(1) have "home j g = home sid g"
    by (simp add: shares_slot_def home_def)
  ultimately show "\<exists>j. same_slot sid j \<and> sr_lookup j (home sid g) \<noteq> None"
    by (intro exI [of _ j]) (simp add: shares_slot_def)
next
  assume "\<exists>j. same_slot sid j \<and> sr_lookup j (home sid g) \<noteq> None"
  then obtain j where j: "same_slot sid j" "sr_lookup j (home sid g) \<noteq> None"
    by blast
  then have "home j g = home sid g \<and> shares_slot sid j"
    by (rule home_clash [OF assms])
  then show "\<exists>j. shares_slot sid j \<and> smr_lookup j g \<noteq> None"
    using j by (intro exI [of _ j]) (simp add: smr_lookup_home)
qed

lemma unicast_step:
  assumes "unicast sid"
  shows "fst (smr_register sid x g) = fst (sr_register sid x (home sid g))"
    "home sid (snd (smr_register sid x g)) = snd (sr_register sid x (home sid g))"
    "fst (SMR_UnregisterService sid g) = fst (sr_unregister sid (home sid g))"
    "home sid (snd (SMR_UnregisterService sid g)) = snd (sr_unregister sid (home sid g))"
  using smr_register_unicast [OF assms, of x g] smr_unregister_unicast [OF assms, of g]
  by (simp_all add: home_def)

lemma unicast_step_other:
  assumes "unicast sid" "(SelectRegistry j = ASIL) \<noteq> (SelectRegistry sid = ASIL)"
  shows "home j (snd (smr_register sid x g)) = home j g"
    "home j (snd (SMR_UnregisterService sid g)) = home j g"
  using smr_register_unicast [OF assms(1), of x g] smr_unregister_unicast [OF assms(1), of g]
    assms(2) by (auto simp: home_def)

lemma unicast_inv:
  assumes "SMR_wf g" "unicast sid"
  shows "SMR_wf (snd (smr_register sid x g)) \<and> SMR_wf (snd (SMR_UnregisterService sid g))"
proof -
  have s: "unat sid mod 1024 \<noteq> 0" "SelectRegistry sid \<noteq> BOTH"
    using assms(2) by (simp_all add: unicast_def)
  note wf = SMR_wfD [OF assms(1)]
  show ?thesis
  proof (cases "SelectRegistry sid = ASIL")
    case True
    then show ?thesis
      using smr_register_unicast [OF assms(2)] smr_unregister_unicast [OF assms(2)] assms(1)
        routed_register [OF wf(2,4)] routed_unregister [OF wf(2,4)] s
      by (simp add: SMR_wf_on_asil)
  next
    case False
    then show ?thesis
      using smr_register_unicast [OF assms(2)] smr_unregister_unicast [OF assms(2)] assms(1)
        routed_register [OF wf(1,3)] routed_unregister [OF wf(1,3)] s
      by (simp add: SMR_wf_on_qm)
  qed
qed

lemma smr_register_result:
  assumes "SMR_wf g" "unicast sid"
  shows "if \<exists>j. shares_slot sid j \<and> smr_lookup j g \<noteq> None
    then smr_register sid x g = (Err kServiceNotOffered, g)
    else fst (smr_register sid x g) = Ok ()"
proof -
  let ?r = "home sid g"
  have s: "unat sid mod 1024 \<noteq> 0"
    using assms(2) by (simp add: unicast_def)
  have refused: "sr_register sid x ?r = (Err kServiceNotOffered, ?r)"
    if "\<exists>j. same_slot sid j \<and> sr_lookup j ?r \<noteq> None"
    using sr.reg_refused [OF home_wf [OF assms(1)] s that] .
  have accepted: "fst (sr_register sid x ?r) = Ok ()"
    if "\<not> (\<exists>j. same_slot sid j \<and> sr_lookup j ?r \<noteq> None)"
    using sr.reg_accepted [OF home_wf [OF assms(1)] s] that by blast
  have "smr_register sid x g = (Err kServiceNotOffered, g)"
    if "sr_register sid x ?r = (Err kServiceNotOffered, ?r)"
    using that smr_register_unicast [OF assms(2), of x g]
    by (auto simp: home_def on_asil_def on_qm_def split: if_splits)
  then show ?thesis
    using refused accepted unicast_step(1) [OF assms(2)] clash_home_iff [OF assms] by auto
qed

lemma smr_lookup_register:
  assumes "SMR_wf g" "unicast sid" "\<not> (\<exists>j. shares_slot sid j \<and> smr_lookup j g \<noteq> None)"
  shows "smr_lookup j (snd (smr_register sid x g)) =
    (if j = sid then Some (offer_entry sid x) else smr_lookup j g)"
proof (cases "(SelectRegistry j = ASIL) = (SelectRegistry sid = ASIL)")
  case True
  then have h: "home j g' = home sid g'" for g'
    by (simp add: home_def)
  have "\<forall>j. same_slot sid j \<longrightarrow> sr_lookup j (home sid g) = None"
    using assms clash_home_iff [OF assms(1,2)] by blast
  then show ?thesis
    using sr.lookup_reg [OF home_wf [OF assms(1), of sid], where i = sid and j = j] assms(2)
    by (simp add: smr_lookup_home h unicast_step unicast_def)
next
  case False
  then show ?thesis
    using unicast_step_other(1) [OF assms(2) False] by (auto simp: smr_lookup_home)
qed

lemma smr_lookup_unregister:
  assumes "SMR_wf g" "unicast sid"
  shows "smr_lookup j (snd (SMR_UnregisterService sid g)) =
    (if shares_slot sid j then None else smr_lookup j g)"
proof (cases "(SelectRegistry j = ASIL) = (SelectRegistry sid = ASIL)")
  case True
  then have h: "home j g' = home sid g'" for g'
    by (simp add: home_def)
  show ?thesis
    using sr.lookup_unreg [OF home_wf [OF assms(1), of sid], where i = sid and j = j] assms(2) True
    by (simp add: smr_lookup_home h unicast_step unicast_def shares_slot_def)
next
  case False
  then show ?thesis
    using unicast_step_other(2) [OF assms(2) False]
    by (auto simp: smr_lookup_home shares_slot_def)
qed

interpretation smr: service_map SMR_wf smr_register SMR_UnregisterService smr_lookup offer_entry
  unicast shares_slot
proof (standard, goal_cases)
  case (1 s i x)
  then show ?case using unicast_inv by blast
next
  case (2 s i)
  then show ?case using unicast_inv by blast
next
  case (3 s i x)
  from smr_register_result [OF 3(1,2), of x, unfolded if_P [OF 3(3)]] show ?case .
next
  case (4 s i x)
  have "\<not> (\<exists>j. shares_slot i j \<and> smr_lookup j s \<noteq> None)"
    using 4(3) by simp
  from smr_register_result [OF 4(1,2), of x, unfolded if_not_P [OF this]] show ?case .
next
  case (5 s i x j)
  have "\<not> (\<exists>j. shares_slot i j \<and> smr_lookup j s \<noteq> None)"
    using 5(3) by simp
  then show ?case by (rule smr_lookup_register [OF 5(1,2)])
next
  case (6 s i)
  then show ?case
    using unicast_step(3) [OF 6(2)] sr.unreg_ok [OF home_wf [OF 6(1)]]
    by (simp add: unicast_def)
next
  case (7 s i j)
  then show ?case by (rule smr_lookup_unregister)
next
  case (8 i)
  then show ?case by (simp add: shares_slot_def same_slot_def)
qed

subsection \<open>All operations\<close>

datatype smr_op =
    SMR_Reg proc_env u64 offer
  | SMR_Unreg u64
  | SMR_Beat u64 u64

fun smr_step :: "smr_op \<Rightarrow> shared_registry \<Rightarrow> unit result \<times> shared_registry" where
  "smr_step (SMR_Reg env sid off) g = SMR_RegisterService env sid off g"
| "smr_step (SMR_Unreg sid) g = SMR_UnregisterService sid g"
| "smr_step (SMR_Beat sid ts) g = SMR_UpdateHeartbeat sid ts g"

lemma broadcast_register:
  assumes "SelectRegistry sid = BOTH"
  shows "SMR_RegisterService env sid off g =
    (let (q, g1) = on_qm (sr_register sid (env, off)) g;
         (a, g2) = on_asil (sr_register sid (env, off)) g1
     in (if has_value q then a else q, g2))"
  using assms BOTH_slot [OF assms]
  by (simp add: SMR_RegisterService_def CalculateSlot_hash Let_def case_prod_beta
      sr_register_def [abs_def])

lemma broadcast_unregister:
  assumes "SelectRegistry sid = BOTH"
  shows "SMR_UnregisterService sid g =
    on_asil (sr_unregister sid) (snd (on_qm (sr_unregister sid) g))"
  using assms BOTH_slot [OF assms]
  by (simp add: SMR_UnregisterService_def CalculateSlot_hash Let_def sr_unregister_def [abs_def])

lemma broadcast_mod: "SelectRegistry sid = BOTH \<Longrightarrow> unat sid mod 1024 \<noteq> 0"
  using BOTH_slot [of sid] hash_slot_0_iff [of sid] by auto

lemma SMR_invalid_id:
  "unat sid mod 1024 = 0 \<Longrightarrow> SMR_RegisterService env sid off g = (Err kInvalidArgument, g)"
  "unat sid mod 1024 = 0 \<Longrightarrow> SMR_UnregisterService sid g = (Err kInvalidArgument, g)"
  "unat sid mod 1024 = 0 \<Longrightarrow> SMR_UpdateHeartbeat sid ts g = (Err kInvalidArgument, g)"
  "unat sid mod 1024 = 0 \<Longrightarrow> SMR_wf g \<Longrightarrow> SMR_FindService sid g = None"
  by (simp_all add: SMR_RegisterService_def SMR_UnregisterService_def SMR_UpdateHeartbeat_def
      CalculateSlot_hash hash_slot_0_iff [THEN iffD2] SMR_FindService_def SMR_wf_def SR_Find_wf)

lemma register_wf:
  assumes "SMR_wf g"
  shows "SMR_wf (snd (SMR_RegisterService env sid off g))"
proof -
  note wf = SMR_wfD [OF assms]
  consider "unat sid mod 1024 = 0" | "unicast sid" | "SelectRegistry sid = BOTH"
    by (auto simp: unicast_def)
  then show ?thesis
  proof cases
    case 1
    then show ?thesis using assms by (simp add: SMR_invalid_id)
  next
    case 2
    then show ?thesis
      using unicast_inv [OF assms 2, of "(env, off)"] by (simp add: smr_register_def)
  next
    case 3
    note r = routed_register [OF wf(1,3), of sid "(env, off)"]
      routed_register [OF wf(2,4), of sid "(env, off)"]
    show ?thesis
      using r 3 broadcast_mod [OF 3] unfolding broadcast_register [OF 3]
      by (simp add: Let_def case_prod_beta SMR_wf_def)
  qed
qed

lemma unregister_wf:
  assumes "SMR_wf g"
  shows "SMR_wf (snd (SMR_UnregisterService sid g))"
proof -
  note wf = SMR_wfD [OF assms]
  consider "unat sid mod 1024 = 0" | "unicast sid" | "SelectRegistry sid = BOTH"
    by (auto simp: unicast_def)
  then show ?thesis
  proof cases
    case 1
    then show ?thesis using assms by (simp add: SMR_invalid_id)
  next
    case 2
    then show ?thesis using unicast_inv [OF assms 2] by blast
  next
    case 3
    show ?thesis
      using routed_unregister [OF wf(1,3), of sid] routed_unregister [OF wf(2,4), of sid]
        broadcast_mod [OF 3] unfolding broadcast_unregister [OF 3]
      by (simp add: SMR_wf_def)
  qed
qed

lemma heartbeat_effect:
  assumes "SMR_wf g"
  shows "SMR_wf (snd (SMR_UpdateHeartbeat sid ts g)) \<and>
    (\<forall>j. smr_lookup j (snd (SMR_UpdateHeartbeat sid ts g)) = smr_lookup j g)"
proof -
  note wf = SMR_wfD [OF assms]
  note q = routed_heartbeat [OF wf(1,3), of "CalculateSlot sid" ts]
  note a = routed_heartbeat [OF wf(2,4), of "CalculateSlot sid" ts]
  show ?thesis
  proof (cases "CalculateSlot sid = 0")
    case True
    then show ?thesis using assms by (simp add: SMR_UpdateHeartbeat_def)
  next
    case False
    then show ?thesis
      using q a assms
      by (cases "SelectRegistry sid")
        (simp_all add: SMR_UpdateHeartbeat_def SMR_wf_def smr_lookup_home home_def Let_def)
  qed
qed

subsection \<open>Properties\<close>

lemma wiped_wf: "slots r = Some (replicate 1024 empty_slot) \<Longrightarrow> SR_wf r"
  by (auto simp: SR_wf_def slot_ok_def empty_slot_layout)
    (simp_all add: empty_slot_def is_stable_def IsActive_def)

lemma wiped_find: "slots r = Some (replicate 1024 empty_slot) \<Longrightarrow> SR_FindService sid r = None"
proof -
  assume r: "slots r = Some (replicate 1024 empty_slot)"
  have "unat (hash_slot sid) < 1024"
    by (simp add: unat_hash_slot)
  then have "slot_at r (hash_slot sid) = empty_slot"
    using r by (simp add: slot_at_def)
  then show ?thesis
    using wiped_wf [OF r] by (simp add: SR_Find_wf) (simp add: empty_slot_def IsActive_def)
qed

lemma first_time_wipe:
  assumes "length l = 1024" "sequence (l ! 1) = 0" "service_id (l ! 1) = 0"
  shows "first_time_init l = replicate 1024 empty_slot"
  using assms by (simp add: first_time_init_def map_replicate_const)

text \<open>When the system calls succeed on freshly created shared memory (1024 slots whose
  sentinel is zero), \<open>Initialize\<close> reports success and leaves a well-formed pair of
  registries in which no service is found.\<close>

lemma initialize_establishes_invariant:
  assumes "memfd_ret qe \<ge> 0" "truncate_ret qe \<ge> 0" "mmap_ret qe = Some lq" "length lq = 1024"
    "sequence (lq ! 1) = 0" "service_id (lq ! 1) = 0"
    "memfd_ret ae \<ge> 0" "truncate_ret ae \<ge> 0" "mmap_ret ae = Some la" "length la = 1024"
    "sequence (la ! 1) = 0" "service_id (la ! 1) = 0"
  shows "let (res, g, os') = SMR_Initialize qe ae SMR_new os
    in res = Ok () \<and> SMR_wf g \<and> (\<forall>sid. smr_lookup sid g = None)"
proof -
  let ?q = "\<lparr> reg_type = QM, memfd = memfd_ret qe, slots = Some (replicate 1024 empty_slot) \<rparr>"
  let ?a = "\<lparr> reg_type = ASIL, memfd = memfd_ret ae, slots = Some (replicate 1024 empty_slot) \<rparr>"
  have q: "SR_Initialize qe (single_new QM) os = (Ok (), ?q, os_map (os_open (memfd_ret qe) os))"
    for os
    using assms by (simp add: SR_Initialize_def single_new_def IsInitialized_def first_time_wipe Let_def)
  have a: "SR_Initialize ae (single_new ASIL) os = (Ok (), ?a, os_map (os_open (memfd_ret ae) os))"
    for os
    using assms by (simp add: SR_Initialize_def single_new_def IsInitialized_def first_time_wipe Let_def)
  have "SMR_wf \<lparr> qm_registry = ?q, asil_registry = ?a \<rparr>"
    by (simp add: SMR_wf_def wiped_wf actives_routed_def wiped_find)
  moreover have "smr_lookup sid \<lparr> qm_registry = ?q, asil_registry = ?a \<rparr> = None" for sid
    by (simp add: smr_lookup_home home_def wiped_find)
  ultimately show ?thesis
    by (simp add: SMR_Initialize_def SMR_new_def q a)
qed

definition blank_env :: "int \<Rightarrow> memfd_env" where
  "blank_env fd = \<lparr> memfd_ret = fd, truncate_ret = 0, mmap_ret = Some (replicate 1024 empty_slot),
     seal_ret = 0 \<rparr>"

definition blank_registry :: shared_registry where
  "blank_registry =
     \<lparr> qm_registry = \<lparr> reg_type = QM, memfd = 3, slots = Some (replicate 1024 empty_slot) \<rparr>,
       asil_registry = \<lparr> reg_type = ASIL, memfd = 4, slots = Some (replicate 1024 empty_slot) \<rparr> \<rparr>"

lemma initialize_establishes_invariant_witness:
  "let (res, g, os') =
      SMR_Initialize (blank_env 3) (blank_env 4) SMR_new \<lparr> open_fds = {}, mapped = 0 \<rparr>
   in res = Ok () \<and> SMR_wf g \<and> (\<forall>sid. smr_lookup sid g = None)"
  by (rule initialize_establishes_invariant
      [where lq = "replicate 1024 empty_slot" and la = "replicate 1024 empty_slot"])
    (simp_all add: blank_env_def, simp_all add: empty_slot_def)

lemma blank_wf: "SMR_wf blank_registry"
  by (simp add: SMR_wf_def wiped_wf actives_routed_def wiped_find blank_registry_def)

lemma blank_lookup: "smr_lookup sid blank_registry = None"
  by (simp add: smr_lookup_home home_def wiped_find blank_registry_def)

text \<open>C1: For every sequence of offers and withdrawals of unicast services, the registry behaves
  as the finite map of the specification: the same result of every operation, and afterwards
  every lookup returns the entry of the map (the texts cut to 15 and 79 characters).\<close>

theorem registry_refines_map:
  assumes "SMR_wf g" "\<forall>p\<in>set ps. unicast (op_id p)"
  shows "run_ops (spec_step shares_slot offer_entry) ps (\<lambda>sid. smr_lookup sid g) =
    (fst (run_ops (impl_step smr_register SMR_UnregisterService) ps g),
     \<lambda>sid. smr_lookup sid (snd (run_ops (impl_step smr_register SMR_UnregisterService) ps g)))"
  using assms by (rule smr.run_refines)

definition demo_offer :: "proc_env \<times> offer" where
  "demo_offer = (\<lparr> now_ns = 7, pid = 42 \<rparr>,
     \<lparr> of_instance = 1, of_major = 1, of_minor = 0, of_binding = ''dds'', of_endpoint = ''e'' \<rparr>)"

lemma demo_ids:
  "unicast 1" "unicast 0x401" "unicast 0xF001" "unicast 0x3FF"
  by (simp_all add: unicast_def SelectRegistry_def Let_def id_ranges)

lemma registry_refines_map_witness:
  "let ps = [Register 1 demo_offer, Register 0xF001 demo_offer, Unregister 1]
   in run_ops (spec_step shares_slot offer_entry) ps (\<lambda>sid. smr_lookup sid blank_registry) =
    (fst (run_ops (impl_step smr_register SMR_UnregisterService) ps blank_registry),
     \<lambda>sid. smr_lookup sid
       (snd (run_ops (impl_step smr_register SMR_UnregisterService) ps blank_registry)))"
  unfolding Let_def by (rule registry_refines_map) (simp_all add: blank_wf demo_ids)

text \<open>C4: Every operation of the registry, on any identifier (invalid and broadcast ones included),
  preserves the invariant of the pair; so does any sequence of them.\<close>

theorem registry_invariant_preserved:
  assumes "SMR_wf g"
  shows "SMR_wf (snd (run_ops smr_step ps g))"
  using assms
proof (induction ps arbitrary: g)
  case Nil
  then show ?case by simp
next
  case (Cons p ps)
  have "SMR_wf (snd (smr_step p g))"
    using Cons.prems by (cases p) (simp_all add: register_wf unregister_wf heartbeat_effect)
  then show ?case
    using Cons.IH by (simp add: Let_def case_prod_beta)
qed

lemma registry_invariant_preserved_witness:
  "SMR_wf (snd (run_ops smr_step [SMR_Reg (fst demo_offer) 0xFFFF (snd demo_offer), SMR_Beat 1 9,
     SMR_Unreg 0xFFFF] blank_registry))"
  by (rule registry_invariant_preserved) (rule blank_wf)

definition op_target :: "smr_op \<Rightarrow> u64" where
  "op_target p = (case p of SMR_Reg _ sid _ \<Rightarrow> sid | SMR_Unreg sid \<Rightarrow> sid | SMR_Beat sid _ \<Rightarrow> sid)"

lemma smr_step_isolated:
  "(case SelectRegistry (op_target p) of
      ASIL \<Rightarrow> qm_registry (snd (smr_step p g)) = qm_registry g
    | QM \<Rightarrow> asil_registry (snd (smr_step p g)) = asil_registry g
    | BOTH \<Rightarrow> True)"
  by (cases p; cases "SelectRegistry (op_target p)")
    (simp_all add: op_target_def SMR_RegisterService_def SMR_UnregisterService_def
      SMR_UpdateHeartbeat_def Let_def)

text \<open>C5: Isolation of the two registries over whole histories: operations on identifiers whose low
  16 bits lie in 0xF001 to 0xF3FE leave the QM registry exactly as it was, and operations on
  identifiers outside that range and other than the broadcast identifier leave the ASIL registry
  exactly as it was.\<close>

theorem registry_isolation:
  "(list_all (\<lambda>p. 0xF001 \<le> unat (op_target p) mod 65536 \<and> unat (op_target p) mod 65536 \<le> 0xF3FE) ps \<longrightarrow>
      qm_registry (snd (run_ops smr_step ps g)) = qm_registry g) \<and>
   (list_all (\<lambda>p. unat (op_target p) mod 65536 \<noteq> 0xFFFF \<and>
        (unat (op_target p) mod 65536 < 0xF001 \<or> 0xF3FE < unat (op_target p) mod 65536)) ps \<longrightarrow>
      asil_registry (snd (run_ops smr_step ps g)) = asil_registry g)"
proof (induction ps arbitrary: g)
  case Nil
  then show ?case by simp
next
  case (Cons p ps)
  have a: "qm_registry (snd (smr_step p g)) = qm_registry g"
    if "0xF001 \<le> unat (op_target p) mod 65536" "unat (op_target p) mod 65536 \<le> 0xF3FE"
    using smr_step_isolated [of p g] SelectRegistry_ASIL_iff [of "op_target p"] that by simp
  have q: "asil_registry (snd (smr_step p g)) = asil_registry g"
    if "unat (op_target p) mod 65536 \<noteq> 0xFFFF"
      "unat (op_target p) mod 65536 < 0xF001 \<or> 0xF3FE < unat (op_target p) mod 65536"
    using smr_step_isolated [of p g] SelectRegistry_ASIL_iff [of "op_target p"]
      SelectRegistry_BOTH_iff [of "op_target p"] that
    by (cases "SelectRegistry (op_target p)") auto
  show ?case
    using Cons.IH [of "snd (smr_step p g)"] a q by (simp add: Let_def case_prod_beta)
qed

lemma registry_isolation_witness:
  "qm_registry (snd (run_ops smr_step [SMR_Reg (fst demo_offer) 0xF002 (snd demo_offer), SMR_Unreg 0xF003] blank_registry)) =
     qm_registry blank_registry \<and>
   asil_registry (snd (run_ops smr_step [SMR_Reg (fst demo_offer) 5 (snd demo_offer), SMR_Beat 0xF400 9] blank_registry)) =
     asil_registry blank_registry"
  using registry_isolation [of "[SMR_Reg (fst demo_offer) 0xF002 (snd demo_offer), SMR_Unreg 0xF003]" blank_registry]
    registry_isolation [of "[SMR_Reg (fst demo_offer) 5 (snd demo_offer), SMR_Beat 0xF400 9]" blank_registry]
  by (simp add: op_target_def)

text \<open>The slot mapping is not free of collisions inside the documented QM range 0x0001 to
  0x0417: the identifiers 0x0401 to 0x0417 share their slot with 0x0001 to 0x0017.  While one of
  the two is offered the other is refused, and withdrawing the one that is not offered removes
  the service that is.\<close>

lemma qm_range_collides:
  assumes "SMR_wf g" "1 \<le> n" "n \<le> 0x17" "smr_lookup (of_nat n) g \<noteq> None"
  shows "smr_register (of_nat n + 0x400) x g = (Err kServiceNotOffered, g) \<and>
    smr_lookup (of_nat n) (snd (SMR_UnregisterService (of_nat n + 0x400) g)) = None"
proof -
  let ?a = "of_nat n + 0x400 :: u64"
  have "?a = of_nat (n + 0x400)"
    by simp
  then have u: "unat (of_nat n :: u64) = n" "unat ?a = n + 0x400"
    using assms(2,3) by (simp_all only: unat_of_nat) simp_all
  have route: "SelectRegistry (of_nat n) = QM" "SelectRegistry ?a = QM"
    using u assms(2,3) SelectRegistry_ASIL_iff [of "of_nat n"] SelectRegistry_BOTH_iff [of "of_nat n"]
      SelectRegistry_ASIL_iff [of ?a] SelectRegistry_BOTH_iff [of ?a]
    by (cases "SelectRegistry (of_nat n)"; cases "SelectRegistry ?a"; simp)+
  have shares: "shares_slot ?a (of_nat n)"
    using u route by (simp add: shares_slot_def same_slot_def hash_slot_eq_iff)
  have "unicast ?a"
    using u assms(2,3) route by (simp add: unicast_def)
  then show ?thesis
    using smr.reg_refused [OF assms(1), of ?a x] smr.lookup_unreg [OF assms(1), of ?a "of_nat n"]
      shares assms(4) by auto
qed

lemma demo_registered:
  "SMR_wf (snd (smr_register 1 demo_offer blank_registry)) \<and>
   smr_lookup 1 (snd (smr_register 1 demo_offer blank_registry)) = Some (offer_entry 1 demo_offer)"
  using smr.inv_reg [OF blank_wf demo_ids(1)] smr.lookup_reg [OF blank_wf demo_ids(1)]
  by (simp add: blank_lookup)

lemma qm_range_collides_witness:
  "let g = snd (smr_register 1 demo_offer blank_registry)
   in smr_register (of_nat 1 + 0x400) demo_offer g = (Err kServiceNotOffered, g) \<and>
      smr_lookup (of_nat 1) (snd (SMR_UnregisterService (of_nat 1 + 0x400) g)) = None"
  unfolding Let_def by (rule qm_range_collides) (use demo_registered in simp_all)

text \<open>A broadcast offer is not atomic.  When its slot is free in the QM registry but taken in
  the ASIL registry it reports an error, and yet the service is found afterwards.\<close>

lemma broadcast_register_partial:
  assumes "SMR_wf g" "SelectRegistry sid = BOTH"
    and "\<forall>j. same_slot sid j \<longrightarrow> sr_lookup j (qm_registry g) = None"
    and "same_slot sid k" "sr_lookup k (asil_registry g) \<noteq> None"
  shows "fst (smr_register sid x g) = Err kServiceNotOffered \<and>
    smr_lookup sid (snd (smr_register sid x g)) = Some (offer_entry sid x)"
proof -
  note wf = SMR_wfD [OF assms(1)] and m = broadcast_mod [OF assms(2)]
  have q: "fst (sr_register sid x (qm_registry g)) = Ok ()"
    "sr_lookup sid (snd (sr_register sid x (qm_registry g))) = Some (offer_entry sid x)"
    using sr.reg_accepted [OF wf(1) m assms(3)] sr.lookup_reg [OF wf(1) m assms(3), of sid]
    by simp_all
  have a: "sr_register sid x (asil_registry g) = (Err kServiceNotOffered, asil_registry g)"
    using sr.reg_refused [OF wf(2) m] assms(4,5) by blast
  show ?thesis
    using q a assms(2) broadcast_register [OF assms(2), of "fst x" "snd x" g]
    by (simp add: smr_register_def Let_def case_prod_beta smr_lookup_home home_def)
qed

text \<open>The situation arises when a QM service that shares slot 1023 withdraws while a broadcast
  service is offered.\<close>

definition half_broadcast :: shared_registry where
  "half_broadcast =
     snd (SMR_UnregisterService 0x3FF (snd (smr_register 0xFFFF demo_offer blank_registry)))"

lemma demo_broadcast_route: "SelectRegistry 0xFFFF = BOTH"
  by (simp add: SelectRegistry_def Let_def id_ranges)

lemma half_broadcast_parts:
  "qm_registry half_broadcast =
     snd (sr_unregister 0x3FF (snd (sr_register 0xFFFF demo_offer (qm_registry blank_registry))))"
  "asil_registry half_broadcast = snd (sr_register 0xFFFF demo_offer (asil_registry blank_registry))"
proof -
  have "SelectRegistry 0x3FF \<noteq> ASIL"
    by (simp add: SelectRegistry_def Let_def id_ranges)
  then show "qm_registry half_broadcast =
     snd (sr_unregister 0x3FF (snd (sr_register 0xFFFF demo_offer (qm_registry blank_registry))))"
    "asil_registry half_broadcast =
     snd (sr_register 0xFFFF demo_offer (asil_registry blank_registry))"
    unfolding half_broadcast_def smr_register_def
    using broadcast_register [OF demo_broadcast_route] smr_unregister_unicast [OF demo_ids(4)]
    by (simp_all add: Let_def case_prod_beta)
qed

lemma half_broadcast_state:
  "SMR_wf half_broadcast \<and> (\<forall>j. same_slot 0xFFFF j \<longrightarrow> sr_lookup j (qm_registry half_broadcast) = None) \<and>
   sr_lookup 0xFFFF (asil_registry half_broadcast) \<noteq> None"
proof (intro conjI allI impI)
  note wf = SMR_wfD [OF blank_wf]
  show "SMR_wf half_broadcast"
    unfolding half_broadcast_def smr_register_def
    by (intro unregister_wf register_wf blank_wf)
  have free: "\<forall>j. same_slot 0xFFFF j \<longrightarrow> sr_lookup j (asil_registry blank_registry) = None"
    by (simp add: blank_registry_def wiped_find)
  show "sr_lookup 0xFFFF (asil_registry half_broadcast) \<noteq> None"
    unfolding half_broadcast_parts
    using sr.lookup_reg [OF wf(2) _ free, where j = "0xFFFF" and x = demo_offer] by simp
  fix j assume "same_slot 0xFFFF j"
  then have "same_slot 0x3FF j"
    by (simp add: same_slot_def hash_slot_eq_iff)
  moreover have "SR_wf (snd (sr_register 0xFFFF demo_offer (qm_registry blank_registry)))"
    using sr.inv_reg [OF wf(1), of "0xFFFF"] by simp
  ultimately show "sr_lookup j (qm_registry half_broadcast) = None"
    unfolding half_broadcast_parts by (subst sr.lookup_unreg) simp_all
qed

lemma broadcast_register_partial_witness:
  "fst (smr_register 0xFFFF demo_offer half_broadcast) = Err kServiceNotOffered \<and>
    smr_lookup 0xFFFF (snd (smr_register 0xFFFF demo_offer half_broadcast)) =
      Some (offer_entry 0xFFFF demo_offer)"
  by (rule broadcast_register_partial [where k = "0xFFFF"])
    (use half_broadcast_state demo_broadcast_route in \<open>simp_all add: same_slot_def\<close>)

end
