(* ===== verification/Runtime.thy ===== *)
theory Runtime
  imports SharedRegistry
begin

text \<open>
  runtime/src/Runtime.cpp: the process-wide runtime in front of the registry pair.  The static
  variables of the file are one record (the heartbeat thread is the flag that it exists); the
  descriptors and mappings of the process are the \<open>os_state\<close> of theory SingleRegistry.
\<close>

record runtime =
  g_dual_registry :: "shared_registry option"
  g_heartbeat_thread :: bool
  g_heartbeat_running :: bool
  g_initialized :: bool

definition runtime_start :: runtime where
  "runtime_start = \<lparr> g_dual_registry = None, g_heartbeat_thread = False,
     g_heartbeat_running = False, g_initialized = False \<rparr>"

text \<open>Destruction of the pair: the members go in reverse order of their declaration.\<close>

definition SMR_destroy :: "shared_registry \<Rightarrow> os_state \<Rightarrow> os_state" where
  "SMR_destroy g os =
     (let (a, os1) = SR_Cleanup (asil_registry g) os; (q, os2) = SR_Cleanup (qm_registry g) os1
      in os2)"

definition reset_registry :: "runtime \<Rightarrow> os_state \<Rightarrow> runtime \<times> os_state" where
  "reset_registry rt os =
     (case g_dual_registry rt of
        None \<Rightarrow> (rt, os)
      | Some g \<Rightarrow> (rt\<lparr> g_dual_registry := None \<rparr>, SMR_destroy g os))"

definition RT_Initialize ::
  "recv_env \<Rightarrow> recv_env \<Rightarrow> runtime \<Rightarrow> os_state \<Rightarrow> unit result \<times> runtime \<times> os_state" where
  "RT_Initialize qenv aenv rt os =
     (if g_initialized rt then (Err kInvalidState, rt, os)
      else
        let (rt0, os0) = reset_registry rt os;
            (init_result, g, os1) = SMR_InitializeFromSocket qenv aenv SMR_new os0;
            rt1 = rt0\<lparr> g_dual_registry := Some g \<rparr> in
        if \<not> has_value init_result then
          (let (rt2, os2) = reset_registry rt1 os1 in (Err kInternal, rt2, os2))
        else
          (Ok (), rt1\<lparr> g_heartbeat_running := True, g_heartbeat_thread := True,
                        g_initialized := True \<rparr>, os1))"

definition RT_Deinitialize :: "runtime \<Rightarrow> os_state \<Rightarrow> unit result \<times> runtime \<times> os_state" where
  "RT_Deinitialize rt os =
     (if \<not> g_initialized rt then (Err kNotInitialized, rt, os)
      else
        let rt1 = (if g_heartbeat_thread rt \<and> g_heartbeat_running rt
                   then rt\<lparr> g_heartbeat_running := False, g_heartbeat_thread := False \<rparr> else rt);
            (rt2, os2) = reset_registry rt1 os
        in (Ok (), rt2\<lparr> g_initialized := False \<rparr>, os2))"

text \<open>One iteration of the heartbeat loop: whether the worker goes on.\<close>

definition heartbeat_continues :: "runtime \<Rightarrow> bool" where
  "heartbeat_continues rt \<longleftrightarrow> g_heartbeat_running rt"

subsection \<open>Registration through the runtime\<close>

definition is_qm_range :: "u16 \<Rightarrow> bool" where
  "is_qm_range sid \<longleftrightarrow> 0x0001 \<le> sid \<and> sid \<le> 0x3fff"

definition is_asil_range :: "u16 \<Rightarrow> bool" where
  "is_asil_range sid \<longleftrightarrow> 0xF000 \<le> sid"

definition binding_str :: "u8 \<Rightarrow> string" where
  "binding_str network_binding =
     (if network_binding = 0 then ''iceoryx2''
      else if network_binding = 1 then ''dds''
      else if network_binding = 2 then ''socket''
      else if network_binding = 3 then ''dbus''
      else if network_binding = 4 then ''someip''
      else ''unknown'')"

definition runtime_offer :: "u16 \<Rightarrow> u8 \<Rightarrow> offer" where
  "runtime_offer inst nb = \<lparr> of_instance = ucast inst, of_major = 1, of_minor = 0,
     of_binding = binding_str nb, of_endpoint = '''' \<rparr>"

definition RT_RegisterService ::
  "proc_env \<Rightarrow> u16 \<Rightarrow> u16 \<Rightarrow> u8 \<Rightarrow> runtime \<Rightarrow> unit result \<times> runtime" where
  "RT_RegisterService env sid inst nb rt =
     (if \<not> g_initialized rt then (Err kNotInitialized, rt)
      else
        (case g_dual_registry rt of
           None \<Rightarrow> (Err kInternal, rt)
         | Some g \<Rightarrow>
             if \<not> is_qm_range sid \<and> \<not> is_asil_range sid
             then (Inl (make_error_code kInvalidArgument (uint sid)), rt)
             else if inst = 0 \<or> inst = 0xffff
             then (Inl (make_error_code kInvalidArgument (uint inst)), rt)
             else
               let (r, g1) = SMR_RegisterService env (ucast sid) (runtime_offer inst nb) g
               in (r, rt\<lparr> g_dual_registry := Some g1 \<rparr>)))"

definition RT_FindService :: "u16 \<Rightarrow> runtime \<Rightarrow> service_slot option" where
  "RT_FindService sid rt =
     (if \<not> g_initialized rt then None
      else
        (case g_dual_registry rt of
           None \<Rightarrow> None
         | Some g \<Rightarrow>
             if \<not> is_qm_range sid \<and> \<not> is_asil_range sid then None
             else SMR_FindService (ucast sid) g))"

definition RT_UnregisterService :: "u16 \<Rightarrow> runtime \<Rightarrow> unit result \<times> runtime" where
  "RT_UnregisterService sid rt =
     (if \<not> g_initialized rt then (Err kNotInitialized, rt)
      else
        (case g_dual_registry rt of
           None \<Rightarrow> (Err kInternal, rt)
         | Some g \<Rightarrow>
             if \<not> is_qm_range sid \<and> \<not> is_asil_range sid
             then (Inl (make_error_code kInvalidArgument (uint sid)), rt)
             else
               let (r, g1) = SMR_UnregisterService (ucast sid) g
               in (r, rt\<lparr> g_dual_registry := Some g1 \<rparr>)))"

text \<open>The template \<open>OfferService\<close> only checks the runtime.\<close>

definition RT_OfferService :: "runtime \<Rightarrow> unit result" where
  "RT_OfferService rt = (if \<not> g_initialized rt then Err kServiceNotOffered else Ok ())"

text \<open>The other templates are stubs, whatever the state of the runtime: the synchronous search finds
  nothing, the asynchronous one neither keeps nor calls its handler, withdrawing does nothing.\<close>

definition typed_FindService :: "string \<Rightarrow> service_handle list" where
  "typed_FindService instance_specifier = []"

definition typed_StartFindService :: "string \<Rightarrow> nat \<Rightarrow> u64" where
  "typed_StartFindService instance_specifier handler = 0"

definition typed_StopOfferService :: "string \<Rightarrow> runtime \<Rightarrow> runtime" where
  "typed_StopOfferService instance_specifier rt = rt"

subsection \<open>Invariant\<close>

text \<open>Initialised exactly when there is a registry and a running heartbeat; the pair is well
  formed.\<close>

definition RT_wf :: "runtime \<Rightarrow> bool" where
  "RT_wf rt \<longleftrightarrow>
     (g_initialized rt \<longleftrightarrow> g_dual_registry rt \<noteq> None) \<and>
     (g_initialized rt \<longleftrightarrow> g_heartbeat_thread rt) \<and>
     (g_initialized rt \<longleftrightarrow> g_heartbeat_running rt) \<and>
     (\<forall>g. g_dual_registry rt = Some g \<longrightarrow> SMR_wf g)"

lemma RT_Register_wf: "RT_wf rt \<Longrightarrow> RT_wf (snd (RT_RegisterService env sid inst nb rt))"
  using register_wf
  by (auto simp: RT_RegisterService_def RT_wf_def Let_def case_prod_beta split: option.splits)

lemma RT_Unregister_wf: "RT_wf rt \<Longrightarrow> RT_wf (snd (RT_UnregisterService sid rt))"
  using unregister_wf
  by (auto simp: RT_UnregisterService_def RT_wf_def Let_def case_prod_beta split: option.splits)

lemma RT_Deinitialize_wf: "RT_wf rt \<Longrightarrow> RT_wf (fst (snd (RT_Deinitialize rt os)))"
  by (auto simp: RT_Deinitialize_def RT_wf_def Let_def reset_registry_def split: option.splits)

text \<open>What the server hands over: shared memory that holds a well-formed registry.\<close>

definition good_memory :: "recv_env \<Rightarrow> recv_env \<Rightarrow> bool" where
  "good_memory qenv aenv \<longleftrightarrow>
     (\<forall>lq la. client_mmap_ret qenv = Some lq \<longrightarrow> client_mmap_ret aenv = Some la \<longrightarrow>
        (\<forall>fq fa. SMR_wf
           \<lparr> qm_registry = \<lparr> reg_type = QM, memfd = fq, slots = Some lq \<rparr>,
             asil_registry = \<lparr> reg_type = ASIL, memfd = fa, slots = Some la \<rparr> \<rparr>))"

lemma SR_InitializeFromSocket_new:
  assumes "SR_InitializeFromSocket env (single_new t) os = (r, reg, os')"
  shows "has_value r \<longleftrightarrow> (\<exists>fd l. client_mmap_ret env = Some l \<and>
      reg = \<lparr> reg_type = t, memfd = fd, slots = Some l \<rparr>)"
    "\<not> has_value r \<Longrightarrow> reg = single_new t"
  using assms by (auto simp: SR_InitializeFromSocket_def single_new_def IsInitialized_def
      split: option.splits sum.splits prod.splits)

lemma RT_Initialize_wf:
  assumes "RT_wf rt" "good_memory qenv aenv"
  shows "RT_wf (fst (snd (RT_Initialize qenv aenv rt os)))"
proof (cases "g_initialized rt")
  case True
  then show ?thesis
    using assms by (simp add: RT_Initialize_def)
next
  case False
  then have no: "g_dual_registry rt = None" "\<not> g_heartbeat_thread rt" "\<not> g_heartbeat_running rt"
    using assms(1) by (auto simp: RT_wf_def)
  obtain rq q os1 where q: "SR_InitializeFromSocket qenv (single_new QM) os = (rq, q, os1)"
    by (metis prod_cases3)
  obtain ra a os2 where a: "SR_InitializeFromSocket aenv (single_new ASIL) os1 = (ra, a, os2)"
    by (metis prod_cases3)
  have wf: "SMR_wf \<lparr> qm_registry = q, asil_registry = a \<rparr>" if "has_value rq" "has_value ra"
    using that SR_InitializeFromSocket_new(1) [OF q] SR_InitializeFromSocket_new(1) [OF a] assms(2)
    by (auto simp: good_memory_def)
  show ?thesis
    using False no wf q a
    by (auto simp: RT_Initialize_def reset_registry_def SMR_InitializeFromSocket_def SMR_new_def
        Let_def RT_wf_def split: prod.splits)
qed

subsection \<open>Registration end to end\<close>

lemma register_found:
  assumes "SMR_wf g" "fst (smr_register sid x g) = Ok ()"
  shows "smr_lookup sid (snd (smr_register sid x g)) = Some (offer_entry sid x)"
proof -
  note wf = SMR_wfD [OF assms(1)]
  consider "unat sid mod 1024 = 0" | "unicast sid" | "SelectRegistry sid = BOTH"
    by (auto simp: unicast_def)
  then show ?thesis
  proof cases
    case 1
    then show ?thesis using assms(2) by (simp add: smr_register_def SMR_invalid_id)
  next
    case 2
    then show ?thesis by (rule smr.found_after_reg [OF assms(1) _ assms(2)])
  next
    case 3
    have reg: "smr_register sid x g =
      (let (q, g1) = on_qm (sr_register sid x) g; (a, g2) = on_asil (sr_register sid x) g1
       in (if has_value q then a else q, g2))"
      using broadcast_register [OF 3, of "fst x" "snd x" g] by (simp add: smr_register_def)
    then have "has_value (fst (sr_register sid x (qm_registry g)))"
      using assms(2) by (auto simp: Let_def case_prod_beta split: if_splits)
    then have "fst (sr_register sid x (qm_registry g)) = Ok ()"
      by (auto simp: has_value_iff)
    then have "sr_lookup sid (snd (sr_register sid x (qm_registry g))) = Some (offer_entry sid x)"
      using sr.found_after_reg [OF wf(1) broadcast_mod [OF 3]] by blast
    then show ?thesis
      using 3 by (simp add: reg Let_def case_prod_beta smr_lookup_home home_def)
  qed
qed

lemma unregister_gone:
  assumes "SMR_wf g" "fst (SMR_UnregisterService sid g) = Ok ()"
  shows "smr_lookup sid (snd (SMR_UnregisterService sid g)) = None"
proof -
  note wf = SMR_wfD [OF assms(1)]
  consider "unat sid mod 1024 = 0" | "unicast sid" | "SelectRegistry sid = BOTH"
    by (auto simp: unicast_def)
  then show ?thesis
  proof cases
    case 1
    then show ?thesis using assms(2) by (simp add: SMR_invalid_id)
  next
    case 2
    then show ?thesis by (rule smr.gone_after_unreg [OF assms(1)])
  next
    case 3
    then show ?thesis
      using sr.gone_after_unreg [OF wf(1) broadcast_mod [OF 3]]
      by (simp add: broadcast_unregister [OF 3] smr_lookup_home home_def)
  qed
qed

lemma binding_str_clean: "take 15 (c_str (binding_str nb)) = binding_str nb"
  by (simp add: binding_str_def c_str_def)

definition rt_lookup :: "u16 \<Rightarrow> runtime \<Rightarrow> svc_entry option" where
  "rt_lookup sid rt = map_option slot_entry (RT_FindService sid rt)"

definition rt_entry :: "u16 \<Rightarrow> u16 \<Rightarrow> u8 \<Rightarrow> svc_entry" where
  "rt_entry sid inst nb = \<lparr> e_service = ucast sid, e_instance = ucast inst, e_major = 1,
     e_minor = 0, e_binding = binding_str nb, e_endpoint = '''' \<rparr>"

lemma runtime_offer_entry: "offer_entry sid (env, runtime_offer inst nb) =
  \<lparr> e_service = sid, e_instance = ucast inst, e_major = 1, e_minor = 0,
    e_binding = binding_str nb, e_endpoint = '''' \<rparr>"
  by (simp add: offer_entry_def runtime_offer_def binding_str_clean) (simp add: c_str_def)

lemma RT_Register_Ok:
  assumes "RT_RegisterService env sid inst nb rt = (Ok (), rt')"
  obtains g where "g_initialized rt" "g_dual_registry rt = Some g"
    "is_qm_range sid \<or> is_asil_range sid" "inst \<noteq> 0" "inst \<noteq> 0xffff"
    "fst (smr_register (ucast sid) (env, runtime_offer inst nb) g) = Ok ()"
    "rt' = rt\<lparr> g_dual_registry :=
       Some (snd (smr_register (ucast sid) (env, runtime_offer inst nb) g)) \<rparr>"
  using assms that
  by (auto simp: RT_RegisterService_def smr_register_def Let_def case_prod_beta
      split: if_splits option.splits)

lemma RT_Unregister_Ok:
  assumes "RT_UnregisterService sid rt = (Ok (), rt')"
  obtains g where "g_initialized rt" "g_dual_registry rt = Some g"
    "fst (SMR_UnregisterService (ucast sid) g) = Ok ()"
    "rt' = rt\<lparr> g_dual_registry := Some (snd (SMR_UnregisterService (ucast sid) g)) \<rparr>"
  using assms that
  by (auto simp: RT_UnregisterService_def Let_def case_prod_beta split: if_splits option.splits)

subsection \<open>Properties\<close>

text \<open>C10: What is registered is found: after a successful \<open>RegisterService\<close> of any identifier
  (the broadcast one included) \<open>FindService\<close> returns the service with its instance, version
  1.0 and the name of its binding, until a successful \<open>UnregisterService\<close>, after which it
  returns nothing.\<close>

theorem runtime_register_find_unregister:
  assumes "RT_wf rt" "RT_RegisterService env sid inst nb rt = (Ok (), rt')"
    "RT_UnregisterService sid rt' = (Ok (), rt'')"
  shows "rt_lookup sid rt' = Some (rt_entry sid inst nb) \<and> rt_lookup sid rt'' = None"
proof -
  obtain g where g: "g_initialized rt" "g_dual_registry rt = Some g"
      "is_qm_range sid \<or> is_asil_range sid"
      "fst (smr_register (ucast sid) (env, runtime_offer inst nb) g) = Ok ()"
      "rt' = rt\<lparr> g_dual_registry :=
         Some (snd (smr_register (ucast sid) (env, runtime_offer inst nb) g)) \<rparr>"
    by (rule RT_Register_Ok [OF assms(2)])
  let ?g1 = "snd (smr_register (ucast sid) (env, runtime_offer inst nb) g)"
  have wf: "SMR_wf g" "SMR_wf ?g1"
    using assms(1) g(2) register_wf by (auto simp: RT_wf_def smr_register_def)
  have "rt_lookup sid rt' = smr_lookup (ucast sid) ?g1"
    using g by (auto simp: rt_lookup_def RT_FindService_def smr_lookup_def)
  then have found: "rt_lookup sid rt' = Some (rt_entry sid inst nb)"
    using register_found [OF wf(1) g(4)] by (simp add: runtime_offer_entry rt_entry_def)
  obtain g' where g': "g_dual_registry rt' = Some g'"
      "fst (SMR_UnregisterService (ucast sid) g') = Ok ()"
      "rt'' = rt'\<lparr> g_dual_registry := Some (snd (SMR_UnregisterService (ucast sid) g')) \<rparr>"
    by (rule RT_Unregister_Ok [OF assms(3)])
  then have "g' = ?g1"
    using g(5) by simp
  then have "rt_lookup sid rt'' = None"
    using unregister_gone [OF wf(2)] g' g
    by (auto simp: rt_lookup_def RT_FindService_def smr_lookup_def)
  then show ?thesis
    using found by simp
qed

definition demo_runtime :: runtime where
  "demo_runtime = \<lparr> g_dual_registry = Some blank_registry, g_heartbeat_thread = True,
     g_heartbeat_running = True, g_initialized = True \<rparr>"

lemma demo_runtime_wf: "RT_wf demo_runtime"
  by (simp add: RT_wf_def demo_runtime_def blank_wf)

lemma demo_runtime_register:
  "RT_RegisterService (fst demo_offer) 1 7 1 demo_runtime =
     (Ok (), demo_runtime\<lparr> g_dual_registry :=
       Some (snd (smr_register 1 (fst demo_offer, runtime_offer 7 1) blank_registry)) \<rparr>)"
proof -
  have "fst (smr_register 1 x blank_registry) = Ok ()" for x
    using smr.reg_accepted [OF blank_wf demo_ids(1)] by (simp add: blank_lookup)
  then have "SMR_RegisterService (fst demo_offer) 1 (runtime_offer 7 1) blank_registry =
      (Ok (), snd (smr_register 1 (fst demo_offer, runtime_offer 7 1) blank_registry))"
    by (metis fst_conv prod.collapse smr_register_def snd_conv)
  then show ?thesis
    by (simp add: RT_RegisterService_def demo_runtime_def is_qm_range_def)
qed

lemma demo_runtime_unregister:
  "RT_UnregisterService 1 (snd (RT_RegisterService (fst demo_offer) 1 7 1 demo_runtime)) =
     (Ok (), snd (RT_UnregisterService 1
       (snd (RT_RegisterService (fst demo_offer) 1 7 1 demo_runtime))))"
proof -
  let ?g = "snd (smr_register 1 (fst demo_offer, runtime_offer 7 1) blank_registry)"
  have "fst (SMR_UnregisterService 1 ?g) = Ok ()"
    using smr.unreg_ok [OF smr.inv_reg [OF blank_wf demo_ids(1)] demo_ids(1)] by blast
  then show ?thesis
    unfolding demo_runtime_register
    by (simp add: RT_UnregisterService_def demo_runtime_def is_qm_range_def Let_def case_prod_beta)
qed

lemma runtime_register_find_unregister_witness:
  "let rt' = snd (RT_RegisterService (fst demo_offer) 1 7 1 demo_runtime);
       rt'' = snd (RT_UnregisterService 1 rt')
   in rt_lookup 1 rt' = Some (rt_entry 1 7 1) \<and> rt_lookup 1 rt'' = None"
  unfolding Let_def
  by (rule runtime_register_find_unregister
      [where env = "fst demo_offer", OF demo_runtime_wf _ demo_runtime_unregister])
    (simp add: demo_runtime_register)

text \<open>Descriptors the kernel hands out during the initialisation are not in use yet.\<close>

definition fresh_fds :: "recv_env \<Rightarrow> recv_env \<Rightarrow> os_state \<Rightarrow> bool" where
  "fresh_fds qenv aenv os \<longleftrightarrow>
     socket_ret qenv \<notin> open_fds os \<and> socket_ret aenv \<notin> open_fds os \<and>
     (\<forall>l t fd. recv_cmsg qenv = Some (l, t, fd) \<longrightarrow>
        0 \<le> fd \<and> fd \<notin> open_fds os \<and> fd \<noteq> socket_ret aenv) \<and>
     (\<forall>l t fd. recv_cmsg aenv = Some (l, t, fd) \<longrightarrow> 0 \<le> fd \<and> fd \<notin> open_fds os) \<and>
     (\<forall>l t fd l' t' fd'. recv_cmsg qenv = Some (l, t, fd) \<longrightarrow>
        recv_cmsg aenv = Some (l', t', fd') \<longrightarrow> fd \<noteq> fd')"

definition fds_available :: "recv_env \<Rightarrow> os_state \<Rightarrow> bool" where
  "fds_available env os \<longleftrightarrow> socket_ret env \<notin> open_fds os \<and>
     (\<forall>l t fd. recv_cmsg env = Some (l, t, fd) \<longrightarrow> 0 \<le> fd \<and> fd \<notin> open_fds os)"

lemma receive_fd:
  assumes "receiveMemfdFromSocket env os = (Ok fd, os1)" "fds_available env os"
  shows "0 \<le> fd \<and> fd \<notin> open_fds os \<and> os1 = os_open fd os \<and>
    (\<exists>l t. recv_cmsg env = Some (l, t, fd))"
  using assms
  by (cases env, cases os) (auto simp: receiveMemfdFromSocket_def fds_available_def Let_def os_open_def os_close_def
      split: if_splits option.splits)

lemma receive_error:
  assumes "receiveMemfdFromSocket env os = (Inl e, os1)" "fds_available env os"
  shows "os1 = os"
  using assms
  by (cases env, cases os) (auto simp: receiveMemfdFromSocket_def fds_available_def Let_def os_open_def os_close_def
      split: if_splits option.splits)

lemma os_open_close [simp]: "fd \<notin> open_fds os \<Longrightarrow> os_close fd (os_open fd os) = os"
  by (cases os) (simp add: os_open_def os_close_def)

lemma os_map_unmap [simp]: "os_unmap (os_map os) = os"
  by (cases os) (simp add: os_map_def os_unmap_def)

lemma open_fds_map [simp]: "open_fds (os_map os) = open_fds os"
  by (simp add: os_map_def)

lemma open_fds_open [simp]: "open_fds (os_open fd os) = insert fd (open_fds os)"
  by (simp add: os_open_def)

text \<open>Initialising one new registry from a socket: on success it holds one descriptor and one
  mapping more, which \<open>Cleanup\<close> gives back; on failure nothing is left behind.\<close>

lemma SR_from_socket_resources:
  assumes "SR_InitializeFromSocket env (single_new t) os = (r, reg, os')" "fds_available env os"
  shows "if has_value r
    then (\<exists>l ty fd. recv_cmsg env = Some (l, ty, fd) \<and> memfd reg = fd \<and>
            os' = os_map (os_open fd os)) \<and> snd (SR_Cleanup reg os') = os
    else reg = single_new t \<and> os' = os"
proof (cases "receiveMemfdFromSocket env os")
  case (Pair rr os1)
  show ?thesis
  proof (cases rr)
    case (Inl e)
    then have "os1 = os"
      using receive_error [OF _ assms(2)] Pair by simp
    then show ?thesis
      using assms(1) Pair Inl
      by (auto simp: SR_InitializeFromSocket_def single_new_def IsInitialized_def)
  next
    case (Inr fd)
    then have fd: "0 \<le> fd" "fd \<notin> open_fds os" "os1 = os_open fd os"
        "\<exists>l t. recv_cmsg env = Some (l, t, fd)"
      using receive_fd [OF _ assms(2)] Pair by auto
    then show ?thesis
      using assms(1) Pair Inr
      by (auto simp: SR_InitializeFromSocket_def single_new_def IsInitialized_def SR_Cleanup_def
          split: option.splits)
  qed
qed

lemma cleanup_new [simp]: "SR_Cleanup (single_new t) os = (single_new t, os)"
  by (simp add: SR_Cleanup_def single_new_def)

lemma pair_resources:
  assumes "SMR_InitializeFromSocket qenv aenv SMR_new os = (r, g, os')" "fresh_fds qenv aenv os"
  shows "SMR_destroy g os' = os"
proof -
  obtain rq q os1 where q: "SR_InitializeFromSocket qenv (single_new QM) os = (rq, q, os1)"
    by (metis prod_cases3)
  obtain ra a os2 where a: "SR_InitializeFromSocket aenv (single_new ASIL) os1 = (ra, a, os2)"
    by (metis prod_cases3)
  have qa: "fds_available qenv os"
    using assms(2) unfolding fresh_fds_def fds_available_def by blast
  note qr = SR_from_socket_resources [OF q qa]
  show ?thesis
  proof (cases "has_value rq")
    case False
    then show ?thesis
      using qr q assms(1)
      by (auto simp: SMR_InitializeFromSocket_def SMR_new_def SMR_destroy_def Let_def)
  next
    case True
    then obtain l ty fd where fd: "recv_cmsg qenv = Some (l, ty, fd)" "os1 = os_map (os_open fd os)"
        "snd (SR_Cleanup q os1) = os"
      using qr by auto
    have "fds_available aenv os1"
      using assms(2) fd(1) unfolding fresh_fds_def fds_available_def fd(2) open_fds_map open_fds_open
      by (metis insert_iff)
    note ar = SR_from_socket_resources [OF a this]
    have "snd (SR_Cleanup a os2) = os1"
      using ar by (auto split: if_splits)
    moreover have "g = \<lparr> qm_registry = q, asil_registry = a \<rparr>" "os' = os2"
      using assms(1) q a True
      by (auto simp: SMR_InitializeFromSocket_def SMR_new_def Let_def split: if_splits)
    ultimately show ?thesis
      using fd(3) by (simp add: SMR_destroy_def Let_def case_prod_beta)
  qed
qed

text \<open>C11: \<open>Initialize\<close> followed by \<open>Deinitialize\<close> is resource neutral for every outcome of the
  system calls: if initialisation fails at any point (also when only the second registry fails),
  or succeeds and is undone, the process holds the same descriptors and mappings and the
  runtime is in its start state again.\<close>

theorem runtime_lifecycle_neutral:
  assumes "fresh_fds qenv aenv os" "RT_Initialize qenv aenv runtime_start os = (r, rt, os')"
    "RT_Deinitialize rt os' = (r', rt', os'')"
  shows "os'' = os \<and> rt' = runtime_start \<and> (has_value r \<longleftrightarrow> has_value r') \<and>
    (\<not> has_value r \<longrightarrow> r = Err kInternal \<and> os' = os)"
proof -
  obtain ri g os1 where i: "SMR_InitializeFromSocket qenv aenv SMR_new os = (ri, g, os1)"
    by (metis prod_cases3)
  have undone: "SMR_destroy g os1 = os"
    by (rule pair_resources [OF i assms(1)])
  show ?thesis
    using assms(2,3) i undone
    by (cases "has_value ri") (auto simp: RT_Initialize_def RT_Deinitialize_def runtime_start_def
        reset_registry_def Let_def)
qed

definition demo_recv :: "int \<Rightarrow> int \<Rightarrow> service_slot list option \<Rightarrow> recv_env" where
  "demo_recv sock fd m = \<lparr> socket_ret = sock, connect_ret = 0, recvmsg_ret = 1,
     recv_cmsg = Some (SOL_SOCKET, SCM_RIGHTS, fd), recv_errno = 0, client_mmap_ret = m \<rparr>"

lemma runtime_lifecycle_neutral_witness:
  "let qe = demo_recv 3 4 (Some (replicate 1024 empty_slot)); ae = demo_recv 3 5 None;
       os = \<lparr> open_fds = {0, 1, 2}, mapped = 0 \<rparr>;
       (r, rt, os') = RT_Initialize qe ae runtime_start os;
       (r', rt', os'') = RT_Deinitialize rt os'
   in os'' = os \<and> rt' = runtime_start \<and> (has_value r \<longleftrightarrow> has_value r') \<and>
    (\<not> has_value r \<longrightarrow> r = Err kInternal \<and> os' = os)"
  unfolding Let_def case_prod_beta
  by (rule runtime_lifecycle_neutral [where qenv = "demo_recv 3 4 (Some (replicate 1024 empty_slot))"
        and aenv = "demo_recv 3 5 None"])
    (simp_all add: fresh_fds_def demo_recv_def)

text \<open>The runtime accepts the whole range from 0xF000 up as ASIL identifiers, but the routing
  knows ASIL only up to 0xF3FE: a service with an identifier from 0xF400 to 0xFFFE that the
  runtime accepts is stored in the QM registry and the ASIL registry is not touched.\<close>

lemma asil_range_falls_back_to_qm:
  assumes "RT_wf rt" "0xF400 \<le> sid" "sid \<noteq> 0xFFFF"
    "RT_RegisterService env sid inst nb rt = (Ok (), rt')"
  shows "\<exists>g g'. g_dual_registry rt = Some g \<and> g_dual_registry rt' = Some g' \<and>
    asil_registry g' = asil_registry g \<and>
    sr_lookup (ucast sid) (qm_registry g') = Some (rt_entry sid inst nb)"
proof -
  obtain g where g: "g_dual_registry rt = Some g"
      "fst (smr_register (ucast sid) (env, runtime_offer inst nb) g) = Ok ()"
      "rt' = rt\<lparr> g_dual_registry :=
         Some (snd (smr_register (ucast sid) (env, runtime_offer inst nb) g)) \<rparr>"
    by (rule RT_Register_Ok [OF assms(4)])
  let ?sid = "ucast sid :: u64" and ?g' = "snd (smr_register (ucast sid) (env, runtime_offer inst nb) g)"
  have u: "unat ?sid mod 65536 = unat sid"
  proof -
    have "unat sid < 65536"
      using unsigned_less [of sid, where ?'a = nat] by simp
    then show ?thesis
      by (simp add: unsigned_ucast_eq unsigned_take_bit_eq take_bit_nat_eq_self)
  qed
  have "unat sid \<noteq> 65535" "0xF400 \<le> unat sid"
    using assms(2,3) by (auto simp: word_le_nat_alt word_unat_eq_iff)
  then have route: "SelectRegistry ?sid = QM"
    using u SelectRegistry_ASIL_iff [of ?sid] SelectRegistry_BOTH_iff [of ?sid]
    by (cases "SelectRegistry ?sid") simp_all
  have wf: "SMR_wf g"
    using assms(1) g(1) by (simp add: RT_wf_def)
  have "asil_registry ?g' = asil_registry g"
    using route by (simp add: smr_register_def SMR_RegisterService_def Let_def)
  moreover have "smr_lookup ?sid ?g' = Some (rt_entry sid inst nb)"
    using register_found [OF wf g(2)] by (simp add: runtime_offer_entry rt_entry_def)
  ultimately show ?thesis
    using g route by (simp add: smr_lookup_home home_def)
qed

lemma demo_fallback_register:
  "RT_RegisterService (fst demo_offer) 0xF401 7 1 demo_runtime =
     (Ok (), snd (RT_RegisterService (fst demo_offer) 0xF401 7 1 demo_runtime))"
proof -
  have "unicast 0xF401"
    by (simp add: unicast_def SelectRegistry_def Let_def id_ranges)
  then have "fst (smr_register 0xF401 x blank_registry) = Ok ()" for x
    using smr.reg_accepted [OF blank_wf] by (simp add: blank_lookup)
  then show ?thesis
    by (simp add: RT_RegisterService_def demo_runtime_def is_asil_range_def Let_def case_prod_beta
        smr_register_def [of _ "(fst demo_offer, runtime_offer 7 1)", simplified, symmetric])
qed

lemma asil_range_falls_back_to_qm_witness:
  "\<exists>g g'. g_dual_registry demo_runtime = Some g \<and>
    g_dual_registry (snd (RT_RegisterService (fst demo_offer) 0xF401 7 1 demo_runtime)) = Some g' \<and>
    asil_registry g' = asil_registry g \<and>
    sr_lookup (ucast (0xF401 :: u16)) (qm_registry g') = Some (rt_entry 0xF401 7 1)"
  by (rule asil_range_falls_back_to_qm [OF demo_runtime_wf _ _ demo_fallback_register]) simp_all

end
