(* ===== verification/E2E.thy ===== *)
theory E2E
  imports ComTypes
begin

text \<open>
  runtime/inc/E2EProtection.hpp, profile 1: the CRC-8 (polynomial 0x1D), the protector that
  counts and stamps outgoing frames and the checker with its own copy of the CRC and its counter
  supervision.  Buffers are
  lists of bytes.  Shifts that the code makes in \<open>int\<close> before storing a byte are written on
  8-bit words, which is what the store keeps of them.
\<close>

record e2e_config =
  dataId :: u16
  maxDeltaCounter :: u32
  counterOffset :: u8
  crcOffset :: u8
  dataLength :: u16

subsection \<open>CRC-8\<close>

definition crc8_bit :: "u8 \<Rightarrow> u8" where
  "crc8_bit crc = (if crc AND 0x80 \<noteq> 0 then push_bit 1 crc XOR 0x1D else push_bit 1 crc)"

definition Crc8Update :: "u8 \<Rightarrow> u8 \<Rightarrow> u8" where
  "Crc8Update crc d = (crc8_bit ^^ 8) (crc XOR d)"

definition crc8_bytes :: "u8 \<Rightarrow> u8 list \<Rightarrow> u8" where
  "crc8_bytes crc ds = fold (\<lambda>d c. Crc8Update c d) ds crc"

definition CalculateCRC8 :: "u8 list \<Rightarrow> u8 \<Rightarrow> u16 \<Rightarrow> u8" where
  "CalculateCRC8 bytes counter did =
     (let c0 = 0xFF;
          c1 = Crc8Update c0 (ucast (did AND 0xFF));
          c2 = Crc8Update c1 (ucast (drop_bit 8 did AND 0xFF));
          c3 = Crc8Update c2 counter
      in crc8_bytes c3 bytes XOR 0xFF)"

subsection \<open>Counter and CRC fields\<close>

definition WriteCounter :: "e2e_config \<Rightarrow> u8 \<Rightarrow> u8 list \<Rightarrow> u8 list" where
  "WriteCounter cfg counter d =
     (let byteOffset = unat (counterOffset cfg) div 8; bitOffset = unat (counterOffset cfg) mod 8
      in if byteOffset < length d
         then d[byteOffset := (d ! byteOffset AND NOT (push_bit bitOffset 0x0F)) OR
                               push_bit bitOffset (counter AND 0x0F)]
         else d)"

definition WriteCRC :: "e2e_config \<Rightarrow> u8 \<Rightarrow> u8 list \<Rightarrow> u8 list" where
  "WriteCRC cfg crc d =
     (let byteOffset = unat (crcOffset cfg) div 8
      in if byteOffset < length d then d[byteOffset := crc] else d)"

definition ReadCounter :: "e2e_config \<Rightarrow> u8 list \<Rightarrow> u8" where
  "ReadCounter cfg d =
     (let byteOffset = unat (counterOffset cfg) div 8; bitOffset = unat (counterOffset cfg) mod 8
      in if byteOffset < length d then drop_bit bitOffset (d ! byteOffset) AND 0x0F else 0)"

definition ReadCRC :: "e2e_config \<Rightarrow> u8 list \<Rightarrow> u8" where
  "ReadCRC cfg d =
     (let byteOffset = unat (crcOffset cfg) div 8
      in if byteOffset < length d then d ! byteOffset else 0)"

subsection \<open>Protector and checker\<close>

record e2e_protector =
  p_config :: e2e_config
  p_counter :: u32

definition protector_new :: "e2e_config \<Rightarrow> e2e_protector" where
  "protector_new cfg = \<lparr> p_config = cfg, p_counter = 0 \<rparr>"

definition Protect :: "u8 list \<Rightarrow> e2e_protector \<Rightarrow> unit result \<times> u8 list \<times> e2e_protector" where
  "Protect d p =
     (if length d * 8 \<noteq> unat (dataLength (p_config p)) then (Err kInvalidArgument, d, p)
      else
        let counter = (p_counter p + 1) mod 15;
            crc = CalculateCRC8 d (ucast counter) (dataId (p_config p));
            d1 = WriteCounter (p_config p) (ucast counter) d;
            d2 = WriteCRC (p_config p) crc d1
        in (Ok (), d2, p\<lparr> p_counter := counter \<rparr>))"

record e2e_checker =
  c_config :: e2e_config
  c_lastCounter :: u32
  c_lastStatus :: e2e_check_status

definition checker_new :: "e2e_config \<Rightarrow> e2e_checker" where
  "checker_new cfg =
     \<lparr> c_config = cfg, c_lastCounter = 0, c_lastStatus = E2ECheckStatus E2E_NoNewData 0 \<rparr>"

text \<open>The counter supervision, as a function of the last and the received counter.\<close>

definition check_counter :: "u32 \<Rightarrow> u32 \<Rightarrow> u32 \<Rightarrow> e2e_result" where
  "check_counter maxDelta lastC counter =
     (let expectedCounter = (lastC + 1) mod 15 in
      if counter = lastC then E2E_Repeated
      else if counter \<noteq> expectedCounter then
        (let delta = (if counter \<ge> lastC then counter - lastC else 15 - lastC + counter)
         in if delta > maxDelta then E2E_WrongSequence else E2E_Ok)
      else E2E_Ok)"

text \<open>The checker computes the CRC with its own copy of the two functions: the eight rounds of the
  loop, and the bytes one by one.\<close>

fun crc8_rounds :: "nat \<Rightarrow> u8 \<Rightarrow> u8" where
  "crc8_rounds 0 crc = crc"
| "crc8_rounds (Suc i) crc =
     crc8_rounds i (if crc AND 0x80 \<noteq> 0 then push_bit 1 crc XOR 0x1D else push_bit 1 crc)"

definition checker_Crc8Update :: "u8 \<Rightarrow> u8 \<Rightarrow> u8" where
  "checker_Crc8Update crc d = crc8_rounds 8 (crc XOR d)"

fun checker_crc_loop :: "u8 list \<Rightarrow> u8 \<Rightarrow> u8" where
  "checker_crc_loop [] crc = crc"
| "checker_crc_loop (d # ds) crc = checker_crc_loop ds (checker_Crc8Update crc d)"

definition checker_CalculateCRC8 :: "u8 list \<Rightarrow> u8 \<Rightarrow> u16 \<Rightarrow> u8" where
  "checker_CalculateCRC8 bytes counter did =
     checker_crc_loop bytes
       (checker_Crc8Update
         (checker_Crc8Update (checker_Crc8Update 0xFF (ucast (did AND 0xFF)))
           (ucast (drop_bit 8 did AND 0xFF))) counter) XOR 0xFF"

lemma crc8_rounds_funpow: "crc8_rounds n crc = (crc8_bit ^^ n) crc"
  by (induction n arbitrary: crc) (simp_all add: crc8_bit_def funpow_swap1)

lemma checker_Crc8Update_eq: "checker_Crc8Update = Crc8Update"
  by (intro ext) (simp add: checker_Crc8Update_def Crc8Update_def crc8_rounds_funpow)

lemma checker_CRC_eq [simp]: "checker_CalculateCRC8 = CalculateCRC8"
proof (intro ext)
  have "checker_crc_loop ds crc = crc8_bytes crc ds" for ds crc
    by (induction ds arbitrary: crc) (simp_all add: crc8_bytes_def checker_Crc8Update_eq)
  then show "checker_CalculateCRC8 bytes counter did = CalculateCRC8 bytes counter did"
    for bytes counter did
    by (simp add: checker_CalculateCRC8_def CalculateCRC8_def checker_Crc8Update_eq Let_def)
qed

definition Check :: "u8 list \<Rightarrow> e2e_checker \<Rightarrow> e2e_check_status \<times> e2e_checker" where
  "Check d c =
     (let cfg = c_config c in
      if length d * 8 \<noteq> unat (dataLength cfg) then
        (let st = E2ECheckStatus E2E_Error 0 in (st, c\<lparr> c_lastStatus := st \<rparr>))
      else
        let counter = ReadCounter cfg d;
            receivedCrc = ReadCRC cfg d;
            expectedCrc = checker_CalculateCRC8 d counter (dataId cfg)
        in if receivedCrc \<noteq> expectedCrc then
             (let st = E2ECheckStatus E2E_Error (ucast counter) in (st, c\<lparr> c_lastStatus := st \<rparr>))
           else
             let st = E2ECheckStatus
                   (check_counter (maxDeltaCounter cfg) (c_lastCounter c) (ucast counter))
                   (ucast counter)
             in (st, c\<lparr> c_lastStatus := st, c_lastCounter := ucast counter \<rparr>))"

subsection \<open>The CRC detects every change of a single byte\<close>

lemma and_80_bit: "(w :: u8) AND 0x80 \<noteq> 0 \<longleftrightarrow> bit w 7"
proof -
  have "(0x80 :: u8) = push_bit 7 1"
    by (simp add: push_bit_eq_mult)
  then show ?thesis
    by (metis and.commute bit_iff_and_push_bit_not_eq_0)
qed

lemma shift_bit: "Suc n < 8 \<Longrightarrow> bit (push_bit 1 (s :: u8)) (Suc n) = bit s n"
  by (simp only: bit_push_bit_iff possible_bit_word) simp

lemma shift_inj:
  fixes s t :: u8
  assumes "push_bit 1 s = push_bit 1 t" "bit s 7 = bit t 7"
  shows "s = t"
proof (rule bit_word_eqI)
  fix n assume "n < LENGTH(8)"
  then consider "n = 7" | "Suc n < LENGTH(8)"
    by fastforce
  then show "bit s n = bit t n"
  proof cases
    case 1
    then show ?thesis using assms(2) by simp
  next
    case 2
    have "bit (push_bit 1 s) (Suc n) = bit (push_bit 1 t) (Suc n)"
      using assms(1) by simp
    then show ?thesis
      using 2 shift_bit [of n s] shift_bit [of n t] by simp
  qed
qed

lemma xor_cancel_left: "(a :: u8) XOR b = a XOR c \<longleftrightarrow> b = c"
  by (metis xor.left_commute xor_self_eq xor.right_neutral xor.commute)

lemma xor_cancel_right: "(b :: u8) XOR a = c XOR a \<longleftrightarrow> b = c"
  using xor_cancel_left [of a b c] by (simp add: xor.commute)

lemma crc8_bit_inj: "inj crc8_bit"
proof (rule injI)
  fix s t
  assume eq: "crc8_bit s = crc8_bit t"
  have low: "bit (crc8_bit w) 0 = bit w 7" for w
    by (simp add: crc8_bit_def and_80_bit bit_0 even_xor_iff)
  have "bit s 7 = bit t 7"
    using eq low by metis
  moreover have "push_bit 1 s = push_bit 1 t"
    using eq \<open>bit s 7 = bit t 7\<close>
    by (cases "bit s 7") (simp_all add: crc8_bit_def and_80_bit xor_cancel_right)
  ultimately show "s = t"
    by (rule shift_inj [rotated])
qed

lemma Crc8Update_inj_crc: "Crc8Update a d = Crc8Update b d \<longleftrightarrow> a = b"
proof -
  have "inj (crc8_bit ^^ 8)"
    using crc8_bit_inj by (rule inj_fn)
  then show ?thesis
    unfolding Crc8Update_def by (metis injD xor.commute xor_cancel_left)
qed

lemma Crc8Update_inj_data: "Crc8Update c a = Crc8Update c b \<longleftrightarrow> a = b"
proof -
  have "inj (crc8_bit ^^ 8)"
    using crc8_bit_inj by (rule inj_fn)
  then show ?thesis
    unfolding Crc8Update_def by (metis injD xor_cancel_left)
qed

lemma crc8_bytes_inj_crc: "crc8_bytes a ds = crc8_bytes b ds \<longleftrightarrow> a = b"
  by (induction ds arbitrary: a b) (simp_all add: crc8_bytes_def Crc8Update_inj_crc)

lemma crc8_bytes_append: "crc8_bytes c (xs @ ys) = crc8_bytes (crc8_bytes c xs) ys"
  by (simp add: crc8_bytes_def)

lemma crc8_one_byte: "crc8_bytes c (xs @ a # ys) = crc8_bytes c (xs @ b # ys) \<longleftrightarrow> a = b"
  by (simp add: crc8_bytes_append) (simp add: crc8_bytes_def Crc8Update_inj_data
      crc8_bytes_inj_crc [unfolded crc8_bytes_def])

lemma CRC8_update_byte:
  assumes "i < length d"
  shows "CalculateCRC8 (d[i := a]) c did = CalculateCRC8 (d[i := b]) c did \<longleftrightarrow> a = b"
  using assms by (simp add: CalculateCRC8_def Let_def upd_conv_take_nth_drop crc8_one_byte)
    (metis xor.commute xor_cancel_left crc8_one_byte)

subsection \<open>Frames of the protector\<close>

text \<open>The counter nibble lies inside one byte, and that byte is not the CRC byte.\<close>

definition frame_layout :: "e2e_config \<Rightarrow> bool" where
  "frame_layout cfg \<longleftrightarrow>
     unat (counterOffset cfg) mod 8 \<le> 4 \<and>
     unat (counterOffset cfg) div 8 < unat (dataLength cfg) div 8 \<and>
     unat (crcOffset cfg) div 8 < unat (dataLength cfg) div 8 \<and>
     unat (counterOffset cfg) div 8 \<noteq> unat (crcOffset cfg) div 8"

definition stamp :: "e2e_config \<Rightarrow> u8 \<Rightarrow> u8 \<Rightarrow> u8 list \<Rightarrow> u8 list" where
  "stamp cfg counter crc d = WriteCRC cfg crc (WriteCounter cfg counter d)"

lemma length_stamp [simp]: "length (stamp cfg counter crc d) = length d"
  by (simp add: stamp_def WriteCRC_def WriteCounter_def Let_def)

lemma Protect_ok:
  assumes "length d * 8 = unat (dataLength (p_config p))"
  shows "Protect d p =
    (let counter = (p_counter p + 1) mod 15
     in (Ok (), stamp (p_config p) (ucast counter)
                  (CalculateCRC8 d (ucast counter) (dataId (p_config p))) d,
         p\<lparr> p_counter := counter \<rparr>))"
  using assms by (simp add: Protect_def stamp_def Let_def)

lemma nibble_mask: "(0x0F :: u8) = mask 4"
  by (simp add: mask_eq_exp_minus_1)

lemma nibble_read_back_mask:
  fixes old c :: u8
  assumes "b \<le> 4"
  shows "drop_bit b ((old AND NOT (push_bit b (mask 4))) OR push_bit b (c AND mask 4)) AND mask 4 =
    c AND mask 4"
  by (rule bit_word_eqI) (use assms in \<open>auto simp: bit_simps\<close>)

lemmas nibble_read_back = nibble_read_back_mask [folded nibble_mask]

lemma ReadCounter_stamp:
  assumes "frame_layout cfg" "length d * 8 = unat (dataLength cfg)"
  shows "ReadCounter cfg (stamp cfg c crc d) = c AND 0x0F"
proof -
  have "unat (counterOffset cfg) div 8 < length d" "unat (crcOffset cfg) div 8 < length d"
    "unat (counterOffset cfg) div 8 \<noteq> unat (crcOffset cfg) div 8"
    "unat (counterOffset cfg) mod 8 \<le> 4"
    using assms by (auto simp: frame_layout_def)
  then show ?thesis
    unfolding ReadCounter_def stamp_def WriteCRC_def WriteCounter_def Let_def
    by (simp only: length_list_update if_True nth_list_update_eq nth_list_update_neq
        nibble_read_back not_sym)
qed

lemma ReadCRC_stamp:
  assumes "frame_layout cfg" "length d * 8 = unat (dataLength cfg)"
  shows "ReadCRC cfg (stamp cfg c crc d) = crc"
  using assms by (auto simp: frame_layout_def ReadCRC_def stamp_def WriteCRC_def WriteCounter_def Let_def)

lemma mod15_bound: "unat ((c :: u32) mod 15) < 15"
  by (simp add: unat_mod)

lemma mod15_nibble: "unat (c :: u32) < 15 \<Longrightarrow> (ucast c :: u8) AND 0x0F = ucast c"
proof -
  assume "unat c < 15"
  then have "unat (take_bit 4 (ucast c :: u8)) = unat (ucast c :: u8)"
    by (simp add: unsigned_ucast_eq unsigned_take_bit_eq take_bit_nat_eq_self)
  then show ?thesis
    unfolding nibble_mask take_bit_eq_mask [symmetric] by (simp only: word_unat_eq_iff)
qed

subsection \<open>Properties\<close>

text \<open>C15: The CRC detects every corruption of a single payload byte: for the same counter and
  data identifier, two payloads that differ in one byte have different CRCs.\<close>

theorem crc_detects_single_byte:
  assumes "i < length d"
  shows "CalculateCRC8 (d[i := a]) c did = CalculateCRC8 (d[i := b]) c did \<longleftrightarrow> a = b"
  using assms by (rule CRC8_update_byte)

lemma crc_detects_single_byte_witness:
  "CalculateCRC8 ([1, 2, 3][1 := 7]) 4 0x1234 = CalculateCRC8 ([1, 2, 3][1 := 9]) 4 0x1234 \<longleftrightarrow>
    (7::u8) = 9"
  by (rule crc_detects_single_byte) simp

lemma unat_delta:
  fixes l c :: u32
  assumes "unat l < 15" "unat c < 15"
  shows "unat ((l + 1) mod 15) = (unat l + 1) mod 15"
    "unat (if c \<ge> l then c - l else 15 - l + c) = (if unat l \<le> unat c then unat c - unat l
       else 15 - unat l + unat c)"
proof -
  have "unat (l + 1) = unat l + 1"
    using assms by (simp add: unat_plus_simple [THEN iffD1] unat_word_ariths(1))
  then show "unat ((l + 1) mod 15) = (unat l + 1) mod 15"
    by (simp add: unat_mod)
  have "unat (15 - l) = 15 - unat l"
    using assms by (subst unat_sub) (simp_all add: word_le_nat_alt)
  then have "unat (15 - l + c) = 15 - unat l + unat c"
    using assms by (simp add: unat_word_ariths(1))
  moreover have "unat (c - l) = unat c - unat l" if "l \<le> c"
    using that by (rule unat_sub)
  ultimately show "unat (if c \<ge> l then c - l else 15 - l + c) =
      (if unat l \<le> unat c then unat c - unat l else 15 - unat l + unat c)"
    by (simp add: word_le_nat_alt)
qed

lemma mod15_dist:
  fixes l c :: nat
  assumes "l < 15" "c < 15"
  shows "(c + 15 - l) mod 15 = (if l \<le> c then c - l else 15 - l + c)"
  using assms by (auto simp: mod_if)



text \<open>A frame of the protector carries the advanced counter, which the checker reads back, and
  the CRC of the payload as it was before counter and CRC were written; its length is that of the
  payload and the counter stays below 15.\<close>

lemma protect_stamps_frame:
  assumes "frame_layout (p_config p)" "length d * 8 = unat (dataLength (p_config p))"
    "Protect d p = (r, f, p')"
  shows "r = Ok () \<and> length f = length d \<and> p_counter p' = (p_counter p + 1) mod 15 \<and>
    unat (p_counter p') < 15 \<and> ReadCounter (p_config p) f = ucast (p_counter p') \<and>
    ReadCRC (p_config p) f = CalculateCRC8 d (ucast (p_counter p')) (dataId (p_config p))"
  using assms(3) mod15_bound mod15_nibble [OF mod15_bound]
  by (auto simp: Protect_ok [OF assms(2)] Let_def ReadCounter_stamp [OF assms(1,2)]
      ReadCRC_stamp [OF assms(1,2)])

definition demo_e2e :: e2e_config where
  "demo_e2e = \<lparr> dataId = 0x1234, maxDeltaCounter = 3, counterOffset = 0, crcOffset = 8,
     dataLength = 32 \<rparr>"

lemma demo_e2e_layout: "frame_layout demo_e2e"
  by (simp add: frame_layout_def demo_e2e_def)

lemma protect_stamps_frame_witness:
  "let p = protector_new demo_e2e; d = [0, 0, 5, 6]; (r, f, p') = Protect d p
   in r = Ok () \<and> length f = length d \<and> p_counter p' = (p_counter p + 1) mod 15 \<and>
    unat (p_counter p') < 15 \<and> ReadCounter (p_config p) f = ucast (p_counter p') \<and>
    ReadCRC (p_config p) f = CalculateCRC8 d (ucast (p_counter p')) (dataId (p_config p))"
  unfolding Let_def case_prod_beta
  by (rule protect_stamps_frame) (simp_all add: protector_new_def demo_e2e_layout, simp add: demo_e2e_def)

text \<open>Protector and checker with the same configuration do not agree: the CRC is computed
  before the CRC byte is written but checked over the written frame.  Whenever the counter
  nibble of the payload already has the new value and the CRC byte of the payload is not by
  chance the computed CRC, the checker rejects the frame it has just been given.\<close>

lemma protected_frame_rejected:
  assumes "frame_layout (p_config p)" "length d * 8 = unat (dataLength (p_config p))"
    "Protect d p = (r, f, p')" "c_config c = p_config p"
    "WriteCounter (p_config p) (ucast (p_counter p')) d = d"
    "ReadCRC (p_config p) d \<noteq> CalculateCRC8 d (ucast (p_counter p')) (dataId (p_config p))"
  shows "e2e_res (fst (Check f c)) = E2E_Error"
proof -
  let ?cfg = "p_config p" and ?n = "ucast (p_counter p') :: u8"
  let ?crc = "CalculateCRC8 d ?n (dataId ?cfg)" and ?i = "unat (crcOffset ?cfg) div 8"
  have i: "?i < length d"
    using assms(1,2) by (auto simp: frame_layout_def)
  have p': "p_counter p' = (p_counter p + 1) mod 15" and f: "f = stamp ?cfg ?n ?crc d"
    using assms(3) by (auto simp: Protect_ok [OF assms(2)] Let_def)
  have nib: "?n AND 0x0F = ?n"
    unfolding p' by (rule mod15_nibble [OF mod15_bound])
  have fd: "f = d[?i := ?crc]"
    using f assms(5) i by (simp add: stamp_def WriteCRC_def Let_def)
  have "d ! ?i \<noteq> ?crc"
    using assms(6) i by (simp add: ReadCRC_def Let_def)
  then have "CalculateCRC8 f ?n (dataId ?cfg) \<noteq> ?crc"
    using CRC8_update_byte [OF i, of ?crc ?n "dataId ?cfg" "d ! ?i"] by (simp add: fd)
  then show ?thesis
    using assms(2,4) f nib
    by (simp add: Check_def Let_def ReadCounter_stamp [OF assms(1,2)] ReadCRC_stamp [OF assms(1,2)])
qed

lemma protected_frame_rejected_witness:
  "let p = protector_new demo_e2e; (r, f, p') = Protect [1, 0, 5, 6] p
   in e2e_res (fst (Check f (checker_new demo_e2e))) = E2E_Error"
  unfolding Let_def case_prod_beta
  by (rule protected_frame_rejected [where p = "protector_new demo_e2e" and d = "[1, 0, 5, 6]"])
    (simp_all add: protector_new_def demo_e2e_layout checker_new_def, (simp add: demo_e2e_def
      Protect_def WriteCounter_def ReadCRC_def Let_def | code_simp)+)

end
