(* ===== verification/Bytes.thy ===== *)
theory Bytes
  imports ComTypes
begin

text \<open>
  Integers as byte sequences in either byte order, the way the serializers of the repository
  build and read them (a loop of shifts over the bytes), and the contract of a stream codec as a
  locale: decoding the encoding of a value yields the value and the rest of the stream.
\<close>

datatype byte_order = kBigEndian | kLittleEndian

text \<open>The shift of the \<open>i\<close>-th byte of an integer of \<open>nb\<close> bytes.\<close>

fun byte_shift :: "byte_order \<Rightarrow> nat \<Rightarrow> nat \<Rightarrow> nat" where
  "byte_shift kBigEndian nb i = 8 * (nb - 1 - i)"
| "byte_shift kLittleEndian nb i = 8 * i"

definition int_bytes :: "byte_order \<Rightarrow> nat \<Rightarrow> 'a::len word \<Rightarrow> u8 list" where
  "int_bytes bo nb v = map (\<lambda>i. ucast (drop_bit (byte_shift bo nb i) v AND 0xFF)) [0..<nb]"

definition bytes_int :: "byte_order \<Rightarrow> nat \<Rightarrow> u8 list \<Rightarrow> 'a::len word" where
  "bytes_int bo nb bs =
     fold (\<lambda>i v. v OR push_bit (byte_shift bo nb i) (ucast (bs ! i))) [0..<nb] 0"

lemma length_int_bytes [simp]: "length (int_bytes bo nb v) = nb"
  by (simp add: int_bytes_def)

lemma bit_fold_or:
  fixes f :: "nat \<Rightarrow> 'a::len word"
  shows "bit (fold (\<lambda>i v. v OR f i) [0..<n] 0) k \<longleftrightarrow> (\<exists>i<n. bit (f i) k)"
  by (induction n) (auto simp: bit_or_iff less_Suc_eq)

lemma byte_mask: "(0xFF :: 'a::len word) = mask 8"
  by (simp add: mask_eq_exp_minus_1)

lemma bit_one_byte:
  fixes v :: "'a::len word"
  shows "bit (push_bit s (ucast (ucast (drop_bit s v AND 0xFF) :: u8)) :: 'a word) k \<longleftrightarrow>
    s \<le> k \<and> k < s + 8 \<and> bit v k"
  unfolding byte_mask by (auto simp: bit_simps dest: bit_imp_le_length)

lemma byte_shift_covers:
  assumes "k < 8 * nb"
  shows "\<exists>i<nb. byte_shift bo nb i \<le> k \<and> k < byte_shift bo nb i + 8"
proof (cases bo)
  case kBigEndian
  have "k div 8 < nb" "8 * (k div 8) \<le> k" "k < 8 * (k div 8) + 8"
    using assms by (auto simp: less_mult_imp_div_less mult.commute)
  then show ?thesis
    using kBigEndian by (intro exI [of _ "nb - 1 - k div 8"]) auto
next
  case kLittleEndian
  have "k div 8 < nb" "8 * (k div 8) \<le> k" "k < 8 * (k div 8) + 8"
    using assms by (auto simp: less_mult_imp_div_less mult.commute)
  then show ?thesis
    using kLittleEndian by (intro exI [of _ "k div 8"]) auto
qed

lemma bytes_int_bytes:
  fixes v :: "'a::len word"
  assumes "LENGTH('a) = 8 * nb" "take nb bs = int_bytes bo nb v"
  shows "bytes_int bo nb bs = v"
proof (rule bit_word_eqI)
  fix k assume "k < LENGTH('a)"
  then have k: "k < 8 * nb"
    using assms(1) by simp
  have nth: "bs ! i = ucast (drop_bit (byte_shift bo nb i) v AND 0xFF)" if "i < nb" for i
  proof -
    have "bs ! i = take nb bs ! i"
      using that by simp
    then show ?thesis
      using that by (simp add: assms(2) int_bytes_def)
  qed
  have "bit (bytes_int bo nb bs :: 'a word) k \<longleftrightarrow>
      (\<exists>i<nb. bit (push_bit (byte_shift bo nb i) (ucast (bs ! i)) :: 'a word) k)"
    unfolding bytes_int_def by (rule bit_fold_or)
  also have "\<dots> \<longleftrightarrow> (\<exists>i<nb. byte_shift bo nb i \<le> k \<and> k < byte_shift bo nb i + 8 \<and> bit v k)"
    using nth bit_one_byte by (metis (no_types, lifting))
  also have "\<dots> \<longleftrightarrow> bit v k"
    using byte_shift_covers [OF k, of bo] by blast
  finally show "bit (bytes_int bo nb bs :: 'a word) k \<longleftrightarrow> bit v k" .
qed

text \<open>Characters as bytes and back.\<close>

definition char_byte :: "char \<Rightarrow> u8" where
  "char_byte c = of_nat (of_char c)"

definition byte_char :: "u8 \<Rightarrow> char" where
  "byte_char b = char_of (unat b)"

lemma byte_char_byte [simp]: "byte_char (char_byte c) = c"
  by (simp add: byte_char_def char_byte_def unat_of_nat)

lemma map_byte_char [simp]: "map (byte_char \<circ> char_byte) s = s"
  by (simp add: comp_def)

subsection \<open>Stream codecs\<close>

text \<open>Decoding a list of typed values one after the other, stopping at the first error.\<close>

fun dec_list :: "('t \<Rightarrow> 's \<Rightarrow> 'v result \<times> 's) \<Rightarrow> 't list \<Rightarrow> 's \<Rightarrow> 'v list result \<times> 's" where
  "dec_list dec [] s = (Ok [], s)"
| "dec_list dec (t # ts) s =
     (case dec t s of
        (Inl e, s1) \<Rightarrow> (Inl e, s1)
      | (Inr v, s1) \<Rightarrow>
          (case dec_list dec ts s1 of
             (Inl e, s2) \<Rightarrow> (Inl e, s2)
           | (Inr vs, s2) \<Rightarrow> (Ok (v # vs), s2)))"

locale stream_codec =
  fixes enc :: "'v \<Rightarrow> 'b list"
    and ty :: "'v \<Rightarrow> 't"
    and ok :: "'v \<Rightarrow> bool"
    and dec :: "'t \<Rightarrow> 's \<Rightarrow> 'v result \<times> 's"
    and inv :: "'s \<Rightarrow> bool"
    and remaining :: "'s \<Rightarrow> 'b list"
  assumes dec_enc: "inv s \<Longrightarrow> ok v \<Longrightarrow> remaining s = enc v @ rest \<Longrightarrow>
      \<exists>s'. dec (ty v) s = (Ok v, s') \<and> inv s' \<and> remaining s' = rest"
    and open_stream: "\<exists>s. inv s \<and> remaining s = bs"
begin

lemma dec_list_enc:
  assumes "inv s" "\<forall>v\<in>set vs. ok v" "remaining s = concat (map enc vs) @ rest"
  shows "\<exists>s'. dec_list dec (map ty vs) s = (Ok vs, s') \<and> inv s' \<and> remaining s' = rest"
  using assms
proof (induction vs arbitrary: s)
  case Nil
  then show ?case by simp
next
  case (Cons v vs)
  then obtain s1 where s1: "dec (ty v) s = (Ok v, s1)" "inv s1"
      "remaining s1 = concat (map enc vs) @ rest"
    using dec_enc [of s v "concat (map enc vs) @ rest"] by auto
  then obtain s2 where "dec_list dec (map ty vs) s1 = (Ok vs, s2)" "inv s2" "remaining s2 = rest"
    using Cons by auto
  then show ?case
    using s1 by simp
qed

text \<open>Encodings of values of one type are uniquely readable: none is a prefix of another.\<close>

lemma enc_unique:
  assumes "ok v" "ok w" "ty v = ty w" "enc v @ r = enc w @ r'"
  shows "v = w \<and> r = r'"
proof -
  obtain s where s: "inv s" "remaining s = enc v @ r"
    using open_stream by blast
  obtain s1 where "dec (ty v) s = (Ok v, s1)" "remaining s1 = r"
    using dec_enc [OF s(1) assms(1) s(2)] by blast
  moreover have w: "remaining s = enc w @ r'"
    using s(2) assms(4) by (rule trans)
  obtain s2 where "dec (ty w) s = (Ok w, s2)" "remaining s2 = r'"
    using dec_enc [OF s(1) assms(2) w] by blast
  ultimately show ?thesis
    using assms(3) by (metis prod.inject sum.inject(2))
qed

lemma enc_inj: "ok v \<Longrightarrow> ok w \<Longrightarrow> ty v = ty w \<Longrightarrow> enc v = enc w \<Longrightarrow> v = w"
  using enc_unique [of v w "[]" "[]"] by simp

end

end
