(* ===== verification/Serialization.thy ===== *)
theory Serialization
  imports Bytes
begin

text \<open>
  runtime/inc/Serialization.hpp: \<open>BinarySerializer\<close> and \<open>BinaryDeserializer\<close>.  The overloads
  of \<open>Serialize\<close> and \<open>Deserialize\<close> are one function over a tagged value (respectively a type
  tag); signed integers are HOL integers cast to and from the unsigned word of their width, and
  floating-point values are their bit patterns, as the memcpy of the code makes them.
\<close>

datatype ser_value =
    VBool bool
  | VInt8 int | VInt16 int | VInt32 int | VInt64 int
  | VUInt8 u8 | VUInt16 u16 | VUInt32 u32 | VUInt64 u64
  | VFloat u32 | VDouble u64
  | VString string
  | VBytes "u8 list"

datatype ser_type =
    TBool
  | TInt8 | TInt16 | TInt32 | TInt64
  | TUInt8 | TUInt16 | TUInt32 | TUInt64
  | TFloat | TDouble
  | TString
  | TBytes nat u32

record bin_serializer =
  s_order :: byte_order
  s_buffer :: "u8 list"

definition serializer_new :: "byte_order \<Rightarrow> bin_serializer" where
  "serializer_new bo = \<lparr> s_order = bo, s_buffer = [] \<rparr>"

definition push_bytes :: "u8 list \<Rightarrow> bin_serializer \<Rightarrow> unit result \<times> bin_serializer" where
  "push_bytes bs s = (Ok (), s\<lparr> s_buffer := s_buffer s @ bs \<rparr>)"

definition SerializeInteger :: "nat \<Rightarrow> 'a::len word \<Rightarrow> bin_serializer \<Rightarrow>
    unit result \<times> bin_serializer" where
  "SerializeInteger nb v s = push_bytes (int_bytes (s_order s) nb v) s"

fun Serialize :: "ser_value \<Rightarrow> bin_serializer \<Rightarrow> unit result \<times> bin_serializer" where
  "Serialize (VBool b) s = push_bytes [if b then 1 else 0] s"
| "Serialize (VInt8 v) s = push_bytes [word_of_int v] s"
| "Serialize (VInt16 v) s = SerializeInteger 2 (word_of_int v :: u16) s"
| "Serialize (VInt32 v) s = SerializeInteger 4 (word_of_int v :: u32) s"
| "Serialize (VInt64 v) s = SerializeInteger 8 (word_of_int v :: u64) s"
| "Serialize (VUInt8 v) s = push_bytes [v] s"
| "Serialize (VUInt16 v) s = SerializeInteger 2 v s"
| "Serialize (VUInt32 v) s = SerializeInteger 4 v s"
| "Serialize (VUInt64 v) s = SerializeInteger 8 v s"
| "Serialize (VFloat v) s = SerializeInteger 4 v s"
| "Serialize (VDouble v) s = SerializeInteger 8 v s"
| "Serialize (VString str) s =
     (let (lengthResult, s1) = SerializeInteger 4 (of_nat (length str) :: u32) s in
      if \<not> has_value lengthResult then (lengthResult, s1)
      else push_bytes (map char_byte str) s1)"
| "Serialize (VBytes bs) s = push_bytes bs s"

definition GetData :: "bin_serializer \<Rightarrow> u8 list" where
  "GetData s = s_buffer s"

definition serializer_reset :: "bin_serializer \<Rightarrow> bin_serializer" where
  "serializer_reset s = s\<lparr> s_buffer := [] \<rparr>"

record bin_deserializer =
  d_data :: "u8 list"
  d_order :: byte_order
  d_pos :: nat

definition deserializer_new :: "u8 list \<Rightarrow> byte_order \<Rightarrow> bin_deserializer" where
  "deserializer_new bs bo = \<lparr> d_data = bs, d_order = bo, d_pos = 0 \<rparr>"

definition HasMoreData :: "bin_deserializer \<Rightarrow> bool" where
  "HasMoreData d \<longleftrightarrow> d_pos d < length (d_data d)"

definition deserializer_reset :: "bin_deserializer \<Rightarrow> bin_deserializer" where
  "deserializer_reset d = d\<lparr> d_pos := 0 \<rparr>"

definition read_byte :: "bin_deserializer \<Rightarrow> u8 result \<times> bin_deserializer" where
  "read_byte d =
     (if d_pos d \<ge> length (d_data d) then (Err kInvalidArgument, d)
      else (Ok (d_data d ! d_pos d), d\<lparr> d_pos := d_pos d + 1 \<rparr>))"

definition DeserializeInteger :: "nat \<Rightarrow> bin_deserializer \<Rightarrow>
    'a::len word result \<times> bin_deserializer" where
  "DeserializeInteger nb d =
     (if d_pos d + nb > length (d_data d) then (Err kInvalidArgument, d)
      else (Ok (bytes_int (d_order d) nb (drop (d_pos d) (d_data d))),
            d\<lparr> d_pos := d_pos d + nb \<rparr>))"

text \<open>Wrapping the value of a successful read.\<close>

definition wrap :: "('a \<Rightarrow> ser_value) \<Rightarrow> 'a result \<times> 's \<Rightarrow> ser_value result \<times> 's" where
  "wrap f p = (case p of (Inl e, s) \<Rightarrow> (Inl e, s) | (Inr v, s) \<Rightarrow> (Inr (f v), s))"

fun Deserialize :: "ser_type \<Rightarrow> bin_deserializer \<Rightarrow> ser_value result \<times> bin_deserializer" where
  "Deserialize TBool d = wrap (\<lambda>b. VBool (b \<noteq> 0)) (read_byte d)"
| "Deserialize TInt8 d = wrap (\<lambda>b. VInt8 (sint b)) (read_byte d)"
| "Deserialize TInt16 d = wrap (\<lambda>v :: u16. VInt16 (sint v)) (DeserializeInteger 2 d)"
| "Deserialize TInt32 d = wrap (\<lambda>v :: u32. VInt32 (sint v)) (DeserializeInteger 4 d)"
| "Deserialize TInt64 d = wrap (\<lambda>v :: u64. VInt64 (sint v)) (DeserializeInteger 8 d)"
| "Deserialize TUInt8 d = wrap VUInt8 (read_byte d)"
| "Deserialize TUInt16 d = wrap VUInt16 (DeserializeInteger 2 d)"
| "Deserialize TUInt32 d = wrap VUInt32 (DeserializeInteger 4 d)"
| "Deserialize TUInt64 d = wrap VUInt64 (DeserializeInteger 8 d)"
| "Deserialize TFloat d = wrap VFloat (DeserializeInteger 4 d)"
| "Deserialize TDouble d = wrap VDouble (DeserializeInteger 8 d)"
| "Deserialize TString d =
     (case DeserializeInteger 4 d :: u32 result \<times> bin_deserializer of
        (Inl e, d1) \<Rightarrow> (Inl e, d1)
      | (Inr len, d1) \<Rightarrow>
          if d_pos d1 + unat len > length (d_data d1) then (Err kInvalidArgument, d1)
          else (Ok (VString (map byte_char (take (unat len) (drop (d_pos d1) (d_data d1))))),
                d1\<lparr> d_pos := d_pos d1 + unat len \<rparr>))"
| "Deserialize (TBytes capacity len) d =
     (if d_pos d + unat len > length (d_data d) \<or> unat len > capacity then (Err kInvalidArgument, d)
      else (Ok (VBytes (take (unat len) (drop (d_pos d) (d_data d)))),
            d\<lparr> d_pos := d_pos d + unat len \<rparr>))"

subsection \<open>The codec\<close>

fun type_of :: "ser_value \<Rightarrow> ser_type" where
  "type_of (VBool _) = TBool"
| "type_of (VInt8 _) = TInt8" | "type_of (VInt16 _) = TInt16"
| "type_of (VInt32 _) = TInt32" | "type_of (VInt64 _) = TInt64"
| "type_of (VUInt8 _) = TUInt8" | "type_of (VUInt16 _) = TUInt16"
| "type_of (VUInt32 _) = TUInt32" | "type_of (VUInt64 _) = TUInt64"
| "type_of (VFloat _) = TFloat" | "type_of (VDouble _) = TDouble"
| "type_of (VString _) = TString"
| "type_of (VBytes bs) = TBytes (length bs) (of_nat (length bs))"

text \<open>Values of the C++ types: signed values in range, lengths that fit in 32 bits.\<close>

fun in_range :: "ser_value \<Rightarrow> bool" where
  "in_range (VInt8 v) \<longleftrightarrow> - (2 ^ 7) \<le> v \<and> v < 2 ^ 7"
| "in_range (VInt16 v) \<longleftrightarrow> - (2 ^ 15) \<le> v \<and> v < 2 ^ 15"
| "in_range (VInt32 v) \<longleftrightarrow> - (2 ^ 31) \<le> v \<and> v < 2 ^ 31"
| "in_range (VInt64 v) \<longleftrightarrow> - (2 ^ 63) \<le> v \<and> v < 2 ^ 63"
| "in_range (VString str) \<longleftrightarrow> length str < 2 ^ 32"
| "in_range (VBytes bs) \<longleftrightarrow> length bs < 2 ^ 32"
| "in_range _ \<longleftrightarrow> True"

definition encode :: "byte_order \<Rightarrow> ser_value \<Rightarrow> u8 list" where
  "encode bo v = GetData (snd (Serialize v (serializer_new bo)))"

lemma Serialize_appends:
  "Serialize v s = (Ok (), s\<lparr> s_buffer := s_buffer s @ encode (s_order s) v \<rparr>)"
  by (cases v) (simp_all add: encode_def push_bytes_def SerializeInteger_def serializer_new_def
      GetData_def Let_def)

definition unread :: "bin_deserializer \<Rightarrow> u8 list" where
  "unread d = drop (d_pos d) (d_data d)"

definition de_inv :: "byte_order \<Rightarrow> bin_deserializer \<Rightarrow> bool" where
  "de_inv bo d \<longleftrightarrow> d_order d = bo \<and> d_pos d \<le> length (d_data d)"

lemma unread_advance:
  "unread d = xs @ rest \<Longrightarrow> unread (d\<lparr> d_pos := d_pos d + length xs \<rparr>) = rest"
  by (simp add: unread_def) (metis add.commute append_eq_conv_conj drop_drop)

lemma unread_length:
  "d_pos d \<le> length (d_data d) \<Longrightarrow> unread d = xs @ rest \<Longrightarrow>
     d_pos d + length xs \<le> length (d_data d)"
  by (drule arg_cong [of _ _ length]) (simp add: unread_def)

lemma read_byte_enc:
  assumes "de_inv bo d" "unread d = [b] @ rest"
  shows "\<exists>d'. read_byte d = (Ok b, d') \<and> de_inv bo d' \<and> unread d' = rest"
proof -
  have "d_pos d + 1 \<le> length (d_data d)"
    using unread_length [of d "[b]" rest] assms by (simp add: de_inv_def)
  moreover from this have "d_data d ! d_pos d = b"
    using assms(2) by (simp add: unread_def) (metis nth_via_drop)
  moreover have "unread (d\<lparr> d_pos := d_pos d + 1 \<rparr>) = rest"
    using unread_advance [OF assms(2)] by simp
  ultimately show ?thesis
    using assms(1) by (simp add: read_byte_def de_inv_def)
qed

lemma DeserializeInteger_enc:
  fixes v :: "'a::len word"
  assumes "de_inv bo d" "unread d = int_bytes bo nb v @ rest" "LENGTH('a) = 8 * nb"
  shows "\<exists>d'. DeserializeInteger nb d = (Ok v, d') \<and> de_inv bo d' \<and> unread d' = rest"
proof -
  have len: "d_pos d + nb \<le> length (d_data d)"
    using unread_length [OF _ assms(2)] assms(1) by (simp add: de_inv_def)
  have "take nb (unread d) = int_bytes bo nb v"
    by (simp add: assms(2))
  then have "bytes_int bo nb (unread d) = v"
    by (rule bytes_int_bytes [OF assms(3)])
  moreover have "unread (d\<lparr> d_pos := d_pos d + nb \<rparr>) = rest"
    using unread_advance [OF assms(2)] by simp
  ultimately show ?thesis
    using assms(1) len by (simp add: DeserializeInteger_def de_inv_def unread_def)
qed

lemma sint_word_of_int:
  "- (2 ^ (LENGTH('a) - 1)) \<le> v \<Longrightarrow> v < 2 ^ (LENGTH('a) - 1) \<Longrightarrow>
     sint (word_of_int v :: 'a::len word) = v"
  by (simp add: signed_of_int signed_take_bit_int_eq_self)

lemma wrapI:
  "\<exists>d'. r = (Ok x, d') \<and> P d' \<and> Q d' \<Longrightarrow> f x = v \<Longrightarrow> \<exists>d'. wrap f r = (Ok v, d') \<and> P d' \<and> Q d'"
  by (auto simp: wrap_def)

lemma Deserialize_bytes_enc:
  assumes "de_inv bo d" "unread d = xs @ rest" "length xs < 2 ^ 32"
  shows "\<exists>d'. Deserialize (TBytes (length xs) (of_nat (length xs))) d = (Ok (VBytes xs), d') \<and>
    de_inv bo d' \<and> unread d' = rest"
proof -
  have "unat (of_nat (length xs) :: u32) = length xs"
    using assms(3) by (simp add: unat_of_nat)
  moreover have "d_pos d + length xs \<le> length (d_data d)"
    using unread_length [OF _ assms(2)] assms(1) by (simp add: de_inv_def)
  moreover have "take (length xs) (drop (d_pos d) (d_data d)) = xs"
    using assms(2) by (simp add: unread_def)
  ultimately show ?thesis
    using assms(1) unread_advance [OF assms(2)] by (simp add: de_inv_def)
qed

lemma encode_string:
  "encode bo (VString str) = int_bytes bo 4 (of_nat (length str) :: u32) @ map char_byte str"
  by (simp add: encode_def push_bytes_def SerializeInteger_def serializer_new_def GetData_def Let_def)

lemma Deserialize_string_enc:
  assumes inv: "de_inv bo d" and str: "length str < 2 ^ 32"
    and un: "unread d = encode bo (VString str) @ rest"
  shows "\<exists>d'. Deserialize TString d = (Ok (VString str), d') \<and> de_inv bo d' \<and> unread d' = rest"
proof -
  let ?len = "of_nat (length str) :: u32"
  have len: "unat ?len = length str"
    using str by (simp add: unat_of_nat)
  obtain d1 where d1: "DeserializeInteger 4 d = (Ok ?len, d1)" "de_inv bo d1"
      "unread d1 = map char_byte str @ rest"
    using DeserializeInteger_enc [OF inv, of 4 ?len "map char_byte str @ rest"] un
    by (auto simp: encode_string)
  have "d_pos d1 + length str \<le> length (d_data d1)"
    using unread_length [OF _ d1(3)] d1(2) by (simp add: de_inv_def)
  moreover have "take (length str) (drop (d_pos d1) (d_data d1)) = map char_byte str"
    using d1(3) by (simp add: unread_def)
  moreover have "unread (d1\<lparr> d_pos := d_pos d1 + length str \<rparr>) = rest"
    using unread_advance [OF d1(3)] by simp
  ultimately show ?thesis
    using d1(1,2) len by (simp add: de_inv_def)
qed

lemmas encode_simps = encode_def push_bytes_def SerializeInteger_def serializer_new_def GetData_def

lemma Deserialize_encode:
  assumes "de_inv bo d" "in_range v" "unread d = encode bo v @ rest"
  shows "\<exists>d'. Deserialize (type_of v) d = (Ok v, d') \<and> de_inv bo d' \<and> unread d' = rest"
proof (cases v)
  case (VBool b)
  then have "unread d = [if b then 1 else 0] @ rest"
    using assms(3) by (simp add: encode_simps)
  then obtain d' where "read_byte d = (Ok (if b then 1 else 0), d')" "de_inv bo d'" "unread d' = rest"
    using read_byte_enc [OF assms(1)] by blast
  then show ?thesis
    using VBool by (simp add: wrap_def)
next
  case (VInt8 i)
  then show ?thesis
    using read_byte_enc [OF assms(1), of "word_of_int i" rest] assms(2,3)
    by (simp only: type_of.simps Deserialize.simps)
      (rule wrapI, auto simp: encode_simps sint_word_of_int)
next
  case (VInt16 i)
  then show ?thesis
    using DeserializeInteger_enc [OF assms(1), of 2 "word_of_int i :: u16" rest] assms(2,3)
    by (simp only: type_of.simps Deserialize.simps)
      (rule wrapI, auto simp: encode_simps sint_word_of_int)
next
  case (VInt32 i)
  then show ?thesis
    using DeserializeInteger_enc [OF assms(1), of 4 "word_of_int i :: u32" rest] assms(2,3)
    by (simp only: type_of.simps Deserialize.simps)
      (rule wrapI, auto simp: encode_simps sint_word_of_int)
next
  case (VInt64 i)
  then show ?thesis
    using DeserializeInteger_enc [OF assms(1), of 8 "word_of_int i :: u64" rest] assms(2,3)
    by (simp only: type_of.simps Deserialize.simps)
      (rule wrapI, auto simp: encode_simps sint_word_of_int)
next
  case (VUInt8 b)
  then show ?thesis
    using read_byte_enc [OF assms(1), of b rest] assms(3)
    by (simp only: type_of.simps Deserialize.simps) (rule wrapI, auto simp: encode_simps)
next
  case (VUInt16 w)
  then show ?thesis
    using DeserializeInteger_enc [OF assms(1), of 2 w rest] assms(3)
    by (simp only: type_of.simps Deserialize.simps) (rule wrapI, auto simp: encode_simps)
next
  case (VUInt32 w)
  then show ?thesis
    using DeserializeInteger_enc [OF assms(1), of 4 w rest] assms(3)
    by (simp only: type_of.simps Deserialize.simps) (rule wrapI, auto simp: encode_simps)
next
  case (VUInt64 w)
  then show ?thesis
    using DeserializeInteger_enc [OF assms(1), of 8 w rest] assms(3)
    by (simp only: type_of.simps Deserialize.simps) (rule wrapI, auto simp: encode_simps)
next
  case (VFloat w)
  then show ?thesis
    using DeserializeInteger_enc [OF assms(1), of 4 w rest] assms(3)
    by (simp only: type_of.simps Deserialize.simps) (rule wrapI, auto simp: encode_simps)
next
  case (VDouble w)
  then show ?thesis
    using DeserializeInteger_enc [OF assms(1), of 8 w rest] assms(3)
    by (simp only: type_of.simps Deserialize.simps) (rule wrapI, auto simp: encode_simps)
next
  case (VString str)
  then show ?thesis
    using Deserialize_string_enc [OF assms(1)] assms(2,3) by simp
next
  case (VBytes bs)
  then have "unread d = bs @ rest"
    using assms(3) by (simp add: encode_simps)
  then show ?thesis
    using Deserialize_bytes_enc [OF assms(1)] assms(2) VBytes by simp
qed

interpretation bin: stream_codec "encode bo" type_of in_range Deserialize "de_inv bo" unread for bo
proof
  show "\<exists>s'. Deserialize (type_of v) s = (Ok v, s') \<and> de_inv bo s' \<and> unread s' = rest"
    if "de_inv bo s" "in_range v" "unread s = encode bo v @ rest" for s v rest
    using that by (rule Deserialize_encode)
  show "\<exists>s. de_inv bo s \<and> unread s = bs" for bs
    by (rule exI [of _ "deserializer_new bs bo"]) (simp add: de_inv_def unread_def deserializer_new_def)
qed

lemma serialize_all:
  "fold (\<lambda>v s. snd (Serialize v s)) vs s = s\<lparr> s_buffer := s_buffer s @ concat (map (encode (s_order s)) vs) \<rparr>"
  by (induction vs arbitrary: s) (simp_all add: Serialize_appends)

lemma DeserializeInteger_short:
  "length (unread d) < nb \<Longrightarrow> d_pos d \<le> length (d_data d) \<Longrightarrow>
     DeserializeInteger nb d = (Err kInvalidArgument, d)"
  by (simp add: DeserializeInteger_def unread_def)

lemma read_byte_short: "unread d = [] \<Longrightarrow> read_byte d = (Err kInvalidArgument, d)"
  by (simp add: read_byte_def unread_def)

lemma Deserialize_string_truncated:
  assumes inv: "de_inv bo d" and un: "encode bo (VString str) = unread d @ y # ys"
    and str: "length str < 2 ^ 32"
  shows "fst (Deserialize TString d) = Err kInvalidArgument"
proof (cases "length (unread d) < 4")
  case True
  then show ?thesis
    using inv by (simp add: de_inv_def DeserializeInteger_short)
next
  case False
  let ?len = "of_nat (length str) :: u32"
  have "unread d = int_bytes bo 4 ?len @ drop 4 (unread d)"
  proof -
    have "take 4 (encode bo (VString str)) = take 4 (unread d)"
      using un False by simp
    then have "take 4 (unread d) = int_bytes bo 4 ?len"
      by (simp add: encode_string)
    then show ?thesis
      by (metis append_take_drop_id)
  qed
  then obtain d1 where d1: "DeserializeInteger 4 d = (Ok ?len, d1)" "de_inv bo d1"
      "unread d1 = drop 4 (unread d)"
    using DeserializeInteger_enc [OF inv, of 4 ?len] by auto
  have "length (encode bo (VString str)) = 4 + length str"
    by (simp add: encode_string)
  then have "length (unread d) < 4 + length str"
    using un by simp
  then have "length (unread d1) < length str"
    using d1(3) False by simp
  then have "d_pos d1 + length str > length (d_data d1)"
    using d1(2) by (simp add: unread_def de_inv_def)
  moreover have "unat ?len = length str"
    using str by (simp add: unat_of_nat)
  ultimately show ?thesis
    using d1(1) by simp
qed

lemma Deserialize_truncated:
  assumes "de_inv bo d" "in_range v" "encode bo v = unread d @ y # ys"
  shows "fst (Deserialize (type_of v) d) = Err kInvalidArgument"
proof -
  have pos: "d_pos d \<le> length (d_data d)"
    using assms(1) by (simp add: de_inv_def)
  have short: "length (unread d) < length (encode bo v)"
    using assms(3) by simp
  show ?thesis
  proof (cases v)
    case (VString str)
    then show ?thesis
      using Deserialize_string_truncated [OF assms(1)] assms(2,3) by simp
  next
    case (VBytes bs)
    then have "length (unread d) < length bs" "unat (of_nat (length bs) :: u32) = length bs"
      using short assms(2) by (simp_all add: encode_simps unat_of_nat)
    then show ?thesis
      using VBytes pos by (simp add: unread_def)
  qed (use short in \<open>simp_all add: encode_simps wrap_def DeserializeInteger_short [OF _ pos] read_byte_short\<close>)
qed

subsection \<open>Properties\<close>

text \<open>C12: Round trip: whatever sequence of in-range values is serialized in either byte order, a
  deserializer with the same byte order reads back exactly that sequence and has no data left.\<close>

theorem serialization_roundtrip:
  assumes "\<forall>v\<in>set vs. in_range v"
  shows "\<exists>d. dec_list Deserialize (map type_of vs)
      (deserializer_new (GetData (fold (\<lambda>v s. snd (Serialize v s)) vs (serializer_new bo))) bo) =
        (Ok vs, d) \<and> \<not> HasMoreData d"
proof -
  let ?data = "GetData (fold (\<lambda>v s. snd (Serialize v s)) vs (serializer_new bo))"
  have "?data = concat (map (encode bo) vs)"
    by (simp add: serialize_all GetData_def serializer_new_def)
  then have "unread (deserializer_new ?data bo) = concat (map (encode bo) vs) @ []"
    by (simp add: unread_def deserializer_new_def)
  moreover have "de_inv bo (deserializer_new ?data bo)"
    by (simp add: de_inv_def deserializer_new_def)
  ultimately show ?thesis
    using bin.dec_list_enc [OF _ assms] by (fastforce simp: HasMoreData_def unread_def)
qed

lemma serialization_roundtrip_witness:
  "\<exists>d. dec_list Deserialize (map type_of [VInt16 (- 2), VString ''abc'', VBool True])
      (deserializer_new (GetData (fold (\<lambda>v s. snd (Serialize v s))
         [VInt16 (- 2), VString ''abc'', VBool True] (serializer_new kBigEndian))) kBigEndian) =
        (Ok [VInt16 (- 2), VString ''abc'', VBool True], d) \<and> \<not> HasMoreData d"
  by (rule serialization_roundtrip) simp

text \<open>C13: Malformed input is safe: on any bytes and any type, reading stays inside the buffer, moves
  forward only and leaves the data alone, and the only error is \<open>kInvalidArgument\<close>.\<close>

theorem deserialize_in_bounds:
  assumes "d_pos d \<le> length (d_data d)" "Deserialize t d = (r, d')"
  shows "d_pos d \<le> d_pos d' \<and> d_pos d' \<le> length (d_data d') \<and> d_data d' = d_data d \<and>
    (has_value r \<or> r = Err kInvalidArgument)"
  using assms
  by (cases t) (auto simp: wrap_def read_byte_def DeserializeInteger_def
      split: if_splits sum.splits prod.splits)

lemma deserialize_in_bounds_witness:
  "let d = deserializer_new [0, 0, 0, 9, 65] kBigEndian; (r, d') = Deserialize TString d
   in d_pos d \<le> d_pos d' \<and> d_pos d' \<le> length (d_data d') \<and> d_data d' = d_data d \<and>
    (has_value r \<or> r = Err kInvalidArgument)"
  unfolding Let_def case_prod_beta
  by (rule deserialize_in_bounds [where t = TString])
    (simp_all only: prod.collapse deserializer_new_def, simp)

text \<open>C14: A truncated encoding is always rejected: reading any value from a strict prefix of its own
  encoding fails with \<open>kInvalidArgument\<close> instead of returning a partial value.\<close>

theorem truncated_input_rejected:
  assumes "in_range v" "n < length (encode bo v)"
  shows "fst (Deserialize (type_of v) (deserializer_new (take n (encode bo v)) bo)) =
    Err kInvalidArgument"
proof (rule Deserialize_truncated [OF _ assms(1)])
  show "de_inv bo (deserializer_new (take n (encode bo v)) bo)"
    by (simp add: de_inv_def deserializer_new_def)
  show "encode bo v = unread (deserializer_new (take n (encode bo v)) bo) @
      encode bo v ! n # drop (Suc n) (encode bo v)"
    using assms(2) by (simp add: unread_def deserializer_new_def id_take_nth_drop [symmetric])
qed

lemma truncated_input_rejected_witness:
  "fst (Deserialize (type_of (VUInt32 7))
     (deserializer_new (take 3 (encode kLittleEndian (VUInt32 7))) kLittleEndian)) =
    Err kInvalidArgument"
  by (rule truncated_input_rejected) (simp_all add: encode_simps)

text \<open>What it means for a value to be one of a type: a byte array is as long as the caller asked for
  and fits the caller's buffer.\<close>

fun has_type :: "ser_type \<Rightarrow> ser_value \<Rightarrow> bool" where
  "has_type (TBytes capacity len) v \<longleftrightarrow>
     (case v of VBytes bs \<Rightarrow> length bs = unat len \<and> length bs \<le> capacity | _ \<Rightarrow> False)"
| "has_type t v \<longleftrightarrow> type_of v = t"

lemma sint_range:
  fixes w :: "'a::len word"
  shows "- (2 ^ (LENGTH('a) - 1)) \<le> sint w \<and> sint w < 2 ^ (LENGTH('a) - 1)"
  using sint_ge [of w] sint_lt [of w] by simp

lemma unat_u32_less: "unat (w :: u32) < 2 ^ 32"
  using unsigned_less [of w] by simp

lemma Deserialize_string_sound:
  "Deserialize TString d = (Ok v, d') \<Longrightarrow> \<exists>str. v = VString str \<and> length str < 2 ^ 32"
  using unat_u32_less
  by (fastforce split: prod.splits sum.splits if_splits intro: order_le_less_trans [OF min.cobounded2])

lemma Deserialize_bytes_sound:
  "Deserialize (TBytes capacity len) d = (Ok v, d') \<Longrightarrow>
     \<exists>bs. v = VBytes bs \<and> length bs = unat len \<and> length bs \<le> capacity \<and> length bs < 2 ^ 32"
  using unat_u32_less [of len] by (auto split: if_splits)



end
