(* ===== verification/Locks.thy ===== *)
theory Locks
  imports ComTypes
begin

text \<open>
  Scoped locking of a non-recursive \<open>std::mutex\<close>.  The state of an object says whether its
  mutex is held; a \<open>lock_guard\<close> on a mutex that the same thread already holds never returns,
  which is the outcome \<open>Deadlock\<close>.  Components that run user callbacks under a lock use it to
  state which callbacks are safe.
\<close>

datatype 'a outcome = Done 'a | Deadlock

fun bind_outcome :: "'a outcome \<Rightarrow> ('a \<Rightarrow> 'b outcome) \<Rightarrow> 'b outcome" where
  "bind_outcome (Done x) f = f x"
| "bind_outcome Deadlock f = Deadlock"

definition lock_guard ::
  "('s \<Rightarrow> bool) \<Rightarrow> (bool \<Rightarrow> 's \<Rightarrow> 's) \<Rightarrow> ('s \<Rightarrow> ('r \<times> 's) outcome) \<Rightarrow> 's \<Rightarrow> ('r \<times> 's) outcome" where
  "lock_guard held set_held body s =
     (if held s then Deadlock
      else bind_outcome (body (set_held True s)) (\<lambda>(r, s1). Done (r, set_held False s1)))"

lemma bind_outcome_Done: "bind_outcome m f = Done y \<longleftrightarrow> (\<exists>x. m = Done x \<and> f x = Done y)"
  by (cases m) auto

lemma bind_outcome_Deadlock:
  "bind_outcome m f = Deadlock \<longleftrightarrow> m = Deadlock \<or> (\<exists>x. m = Done x \<and> f x = Deadlock)"
  by (cases m) auto

lemma lock_guard_held [simp]: "held s \<Longrightarrow> lock_guard held set_held body s = Deadlock"
  by (simp add: lock_guard_def)

text \<open>The contract of a lock field: what its update makes of the flag and that releasing undoes
  acquiring on a free lock.\<close>

locale scoped_lock =
  fixes held :: "'s \<Rightarrow> bool" and set_held :: "bool \<Rightarrow> 's \<Rightarrow> 's"
  assumes held_set [simp]: "held (set_held b s) = b"
    and set_set [simp]: "set_held b (set_held c s) = set_held b s"
    and set_same: "\<not> held s \<Longrightarrow> set_held False s = s"
begin

lemma guard_released:
  "lock_guard held set_held body s = Done (r, s') \<Longrightarrow> \<not> held s \<and> \<not> held s'"
  by (auto simp: lock_guard_def bind_outcome_Done split: if_splits prod.splits)

text \<open>A body that is a plain state change returns, and leaves the lock free.\<close>

lemma guard_pure:
  assumes "\<not> held s" "\<And>b s. f (set_held b s) = (let (r, s') = f s in (r, set_held b s'))"
  shows "lock_guard held set_held (\<lambda>s. Done (f s)) s = Done (fst (f s), set_held False (snd (f s)))"
  using assms by (simp add: lock_guard_def Let_def case_prod_beta)

text \<open>Taking the lock again inside the scope never returns.\<close>

lemma guard_reentered:
  assumes "\<not> held s" "\<And>s'. held s' \<Longrightarrow> body s' = Deadlock"
  shows "lock_guard held set_held body s = Deadlock"
  using assms by (simp add: lock_guard_def)

end

end
