(* ===== verification/Event.thy ===== *)
theory Event
  imports Locks
begin

text \<open>
  runtime/inc/Event.hpp: the sample queue of a subscribed proxy event and the sending side.
  Receive handlers are arbitrary code to the event; the model keeps of a handler the calls it
  makes on the same event, because these contend for the mutex that is held while it runs.
\<close>

text \<open>The calls of the public interface a handler may make.\<close>

datatype event_call =
    EC_Subscribe u32 | EC_Unsubscribe | EC_GetSubscriptionState | EC_GetNewSamples
  | EC_GetNextSample | EC_SetReceiveHandler | EC_UnsetReceiveHandler | EC_GetE2E

record 'a proxy_event =
  pe_locked :: bool
  pe_state :: subscription_state
  pe_max :: u32
  pe_queue :: "'a list"
  pe_handler :: "event_call list option"
  pe_e2e :: e2e_check_status

definition proxy_event_new :: "'a proxy_event" where
  "proxy_event_new = \<lparr> pe_locked = False, pe_state = kNotSubscribed, pe_max = 1, pe_queue = [],
     pe_handler = None, pe_e2e = E2ECheckStatus E2E_Ok 0 \<rparr>"

definition pe_set_locked :: "bool \<Rightarrow> 'a proxy_event \<Rightarrow> 'a proxy_event" where
  "pe_set_locked b e = e\<lparr> pe_locked := b \<rparr>"

abbreviation pe_guard ::
  "('a proxy_event \<Rightarrow> ('r \<times> 'a proxy_event) outcome) \<Rightarrow> 'a proxy_event \<Rightarrow>
     ('r \<times> 'a proxy_event) outcome" where
  "pe_guard \<equiv> lock_guard pe_locked pe_set_locked"

interpretation pe: scoped_lock "pe_locked :: 'a proxy_event \<Rightarrow> bool" pe_set_locked
  by standard (simp_all add: pe_set_locked_def)

subsection \<open>The operations of the proxy event\<close>

definition PE_Subscribe :: "u32 \<Rightarrow> 'a proxy_event \<Rightarrow> (unit result \<times> 'a proxy_event) outcome" where
  "PE_Subscribe n = pe_guard (\<lambda>e. Done
     (if pe_state e = kSubscribed then (Ok (), e)
      else (Ok (), e\<lparr> pe_max := n, pe_state := kSubscribed \<rparr>)))"

definition PE_Unsubscribe :: "'a proxy_event \<Rightarrow> (unit \<times> 'a proxy_event) outcome" where
  "PE_Unsubscribe = pe_guard (\<lambda>e. Done
     (if pe_state e = kSubscribed
      then ((), e\<lparr> pe_state := kNotSubscribed, pe_queue := [], pe_handler := None \<rparr>)
      else ((), e)))"

definition PE_GetSubscriptionState ::
  "'a proxy_event \<Rightarrow> (subscription_state \<times> 'a proxy_event) outcome" where
  "PE_GetSubscriptionState = pe_guard (\<lambda>e. Done (pe_state e, e))"

definition PE_GetNewSamples :: "'a proxy_event \<Rightarrow> (u32 \<times> 'a proxy_event) outcome" where
  "PE_GetNewSamples = pe_guard (\<lambda>e. Done (of_nat (length (pe_queue e)), e))"

text \<open>The timeout is a parameter the code does not use.\<close>

definition PE_GetNextSample :: "nat \<Rightarrow> 'a proxy_event \<Rightarrow> ('a result \<times> 'a proxy_event) outcome" where
  "PE_GetNextSample timeout_ms = pe_guard (\<lambda>e. Done
     (if pe_state e \<noteq> kSubscribed then (Err kServiceNotAvailable, e)
      else
        (case pe_queue e of
           [] \<Rightarrow> (Err kMaxSamplesExceeded, e)
         | x # xs \<Rightarrow> (Ok x, e\<lparr> pe_queue := xs \<rparr>))))"

definition PE_SetReceiveHandler ::
  "event_call list option \<Rightarrow> 'a proxy_event \<Rightarrow> (unit result \<times> 'a proxy_event) outcome" where
  "PE_SetReceiveHandler h = pe_guard (\<lambda>e. Done (Ok (), e\<lparr> pe_handler := h \<rparr>))"

definition PE_UnsetReceiveHandler :: "'a proxy_event \<Rightarrow> (unit \<times> 'a proxy_event) outcome" where
  "PE_UnsetReceiveHandler = pe_guard (\<lambda>e. Done ((), e\<lparr> pe_handler := None \<rparr>))"

definition PE_GetE2ECheckStatus ::
  "'a proxy_event \<Rightarrow> (e2e_check_status \<times> 'a proxy_event) outcome" where
  "PE_GetE2ECheckStatus = pe_guard (\<lambda>e. Done (pe_e2e e, e))"

text \<open>A call made from inside a handler, its result dropped.\<close>

definition drop_result :: "('r \<times> 's) outcome \<Rightarrow> 's outcome" where
  "drop_result m = bind_outcome m (\<lambda>(_, s). Done s)"

fun exec_call :: "event_call \<Rightarrow> 'a proxy_event \<Rightarrow> 'a proxy_event outcome" where
  "exec_call (EC_Subscribe n) e = drop_result (PE_Subscribe n e)"
| "exec_call EC_Unsubscribe e = drop_result (PE_Unsubscribe e)"
| "exec_call EC_GetSubscriptionState e = drop_result (PE_GetSubscriptionState e)"
| "exec_call EC_GetNewSamples e = drop_result (PE_GetNewSamples e)"
| "exec_call EC_GetNextSample e = drop_result (PE_GetNextSample 0 e)"
| "exec_call EC_SetReceiveHandler e = drop_result (PE_SetReceiveHandler None e)"
| "exec_call EC_UnsetReceiveHandler e = drop_result (PE_UnsetReceiveHandler e)"
| "exec_call EC_GetE2E e = drop_result (PE_GetE2ECheckStatus e)"

fun run_calls :: "event_call list \<Rightarrow> 'a proxy_event \<Rightarrow> 'a proxy_event outcome" where
  "run_calls [] e = Done e"
| "run_calls (c # cs) e = bind_outcome (exec_call c e) (run_calls cs)"

text \<open>The queue after one more sample: the oldest goes when the bound is reached.\<close>

definition enqueue :: "u32 \<Rightarrow> 'a \<Rightarrow> 'a list \<Rightarrow> 'a list" where
  "enqueue m x q = (if 0 < m \<and> unat m \<le> length q then tl q else q) @ [x]"

definition PE_PushSample :: "'a \<Rightarrow> 'a proxy_event \<Rightarrow> (unit \<times> 'a proxy_event) outcome" where
  "PE_PushSample x = pe_guard (\<lambda>e.
     let e1 = e\<lparr> pe_queue := enqueue (pe_max e) x (pe_queue e) \<rparr> in
     case pe_handler e1 of
       None \<Rightarrow> Done ((), e1)
     | Some calls \<Rightarrow> bind_outcome (run_calls calls e1) (\<lambda>e2. Done ((), e2)))"

lemmas pe_ops = PE_Subscribe_def PE_Unsubscribe_def PE_GetSubscriptionState_def PE_GetNewSamples_def
  PE_GetNextSample_def PE_SetReceiveHandler_def PE_UnsetReceiveHandler_def PE_GetE2ECheckStatus_def

lemma exec_call_locked [simp]: "pe_locked e \<Longrightarrow> exec_call c e = Deadlock"
  by (cases c) (simp_all add: drop_result_def pe_ops)

lemma run_calls_locked: "pe_locked e \<Longrightarrow> run_calls cs e = (if cs = [] then Done e else Deadlock)"
  by (cases cs) simp_all

lemma push_simple:
  assumes "\<not> pe_locked e" "pe_handler e = None \<or> pe_handler e = Some []"
  shows "PE_PushSample x e = Done ((), e\<lparr> pe_queue := enqueue (pe_max e) x (pe_queue e) \<rparr>)"
  using assms
  by (auto simp: PE_PushSample_def lock_guard_def pe_set_locked_def Let_def split: option.splits)

subsection \<open>The sending side\<close>

text \<open>\<open>Allocate\<close> gives a default sample (the allocation itself is a parameter that may fail);
  the transmission \<open>DoSend\<close> of the template is an empty success.\<close>

record skeleton_event =
  se_isOffered :: bool
  se_subscribers :: u32

definition skeleton_event_new :: skeleton_event where
  "skeleton_event_new = \<lparr> se_isOffered = False, se_subscribers = 0 \<rparr>"

definition SE_Allocate :: "'a option \<Rightarrow> skeleton_event \<Rightarrow> 'a result" where
  "SE_Allocate mem e = (case mem of None \<Rightarrow> Err kSampleAllocationFailure | Some x \<Rightarrow> Ok x)"

definition SE_DoSend :: "'a \<Rightarrow> unit result" where
  "SE_DoSend x = Ok ()"

definition SE_Send :: "'a option \<Rightarrow> skeleton_event \<Rightarrow> unit result" where
  "SE_Send sample e =
     (case sample of
        None \<Rightarrow> Err kInvalidArgument
      | Some x \<Rightarrow> if \<not> se_isOffered e then Err kServiceNotOffered else SE_DoSend x)"

definition SE_GetSubscriberCount :: "skeleton_event \<Rightarrow> u32" where
  "SE_GetSubscriberCount e = se_subscribers e"

definition SE_SetOffered :: "bool \<Rightarrow> skeleton_event \<Rightarrow> skeleton_event" where
  "SE_SetOffered b e = e\<lparr> se_isOffered := b \<rparr>"

subsection \<open>Queue discipline\<close>

fun push_all :: "'a list \<Rightarrow> 'a proxy_event \<Rightarrow> 'a proxy_event outcome" where
  "push_all [] e = Done e"
| "push_all (x # xs) e = bind_outcome (PE_PushSample x e) (\<lambda>(_, e1). push_all xs e1)"

fun get_all :: "nat \<Rightarrow> 'a proxy_event \<Rightarrow> ('a result list \<times> 'a proxy_event) outcome" where
  "get_all 0 e = Done ([], e)"
| "get_all (Suc n) e = bind_outcome (PE_GetNextSample 0 e)
     (\<lambda>(r, e1). bind_outcome (get_all n e1) (\<lambda>(rs, e2). Done (r # rs, e2)))"

definition newest :: "u32 \<Rightarrow> 'a list \<Rightarrow> 'a list" where
  "newest m xs = (if m = 0 then xs else drop (length xs - unat m) xs)"

lemma enqueue_newest: "enqueue m x (newest m xs) = newest m (xs @ [x])"
proof (cases "m = 0")
  case True
  then show ?thesis by (simp add: enqueue_def newest_def)
next
  case False
  then have m: "m \<noteq> 0" "0 < m" "0 < unat m"
    by (simp_all add: word_neq_0_conv unat_gt_0)
  show ?thesis
  proof (cases "unat m \<le> length xs")
    case True
    then have "Suc (length xs) - unat m = Suc (length xs - unat m)"
      by simp
    then show ?thesis
      using m True by (simp add: enqueue_def newest_def tl_drop drop_Suc)
  next
    case False
    then show ?thesis
      using m by (simp add: enqueue_def newest_def)
  qed
qed

lemma push_all_newest:
  assumes "\<not> pe_locked e" "pe_handler e = None" "pe_queue e = newest (pe_max e) ys"
  shows "push_all xs e = Done (e\<lparr> pe_queue := newest (pe_max e) (ys @ xs) \<rparr>)"
  using assms
proof (induction xs arbitrary: e ys)
  case Nil
  then show ?case by (cases e) simp
next
  case (Cons x xs)
  let ?e1 = "e\<lparr> pe_queue := newest (pe_max e) (ys @ [x]) \<rparr>"
  have "PE_PushSample x e = Done ((), ?e1)"
    using Cons.prems by (simp add: push_simple enqueue_newest)
  moreover have "push_all xs ?e1 = Done (?e1\<lparr> pe_queue := newest (pe_max ?e1) ((ys @ [x]) @ xs) \<rparr>)"
    using Cons.prems by (intro Cons.IH) simp_all
  ultimately show ?case
    by simp
qed

lemma get_next:
  "\<not> pe_locked e \<Longrightarrow> pe_state e = kSubscribed \<Longrightarrow> pe_queue e = x # xs \<Longrightarrow>
     PE_GetNextSample t e = Done (Ok x, e\<lparr> pe_queue := xs \<rparr>)"
  by (cases e) (simp add: PE_GetNextSample_def lock_guard_def pe_set_locked_def)

lemma get_all_queue:
  "\<not> pe_locked e \<Longrightarrow> pe_state e = kSubscribed \<Longrightarrow> pe_queue e = xs \<Longrightarrow>
     get_all (length xs) e = Done (map Ok xs, e\<lparr> pe_queue := [] \<rparr>)"
proof (induction xs arbitrary: e)
  case Nil
  then show ?case by (cases e) simp
next
  case (Cons x xs)
  have "get_all (length xs) (e\<lparr> pe_queue := xs \<rparr>) =
      Done (map Ok xs, (e\<lparr> pe_queue := xs \<rparr>)\<lparr> pe_queue := [] \<rparr>)"
    using Cons.prems by (intro Cons.IH) simp_all
  then show ?case
    using get_next [OF Cons.prems, of 0] by simp
qed

subsection \<open>Reachable states\<close>

text \<open>Every use of the public interface from outside, and samples that arrive while the event is
  subscribed.\<close>

inductive pe_reach :: "'a proxy_event \<Rightarrow> bool" where
  pe_init: "pe_reach proxy_event_new"
| pe_api: "pe_reach e \<Longrightarrow> exec_call c e = Done e' \<Longrightarrow> pe_reach e'"
| pe_handler_set: "pe_reach e \<Longrightarrow> PE_SetReceiveHandler h e = Done (r, e') \<Longrightarrow> pe_reach e'"
| pe_sample: "pe_reach e \<Longrightarrow> pe_state e = kSubscribed \<Longrightarrow> PE_PushSample x e = Done ((), e') \<Longrightarrow>
    pe_reach e'"

definition pe_bounded :: "'a proxy_event \<Rightarrow> bool" where
  "pe_bounded e \<longleftrightarrow> \<not> pe_locked e \<and> (pe_state e \<noteq> kSubscribed \<longrightarrow> pe_queue e = []) \<and>
     (0 < pe_max e \<longrightarrow> length (pe_queue e) \<le> unat (pe_max e))"

lemma length_enqueue: "0 < m \<Longrightarrow> length q \<le> unat m \<Longrightarrow> length (enqueue m x q) \<le> unat m"
  by (auto simp: enqueue_def word_less_nat_alt)

lemma exec_call_bounded:
  assumes "pe_bounded e" "exec_call c e = Done e'"
  shows "pe_bounded e'"
  using assms
  by (cases c) (auto simp: drop_result_def pe_ops bind_outcome_Done lock_guard_def pe_set_locked_def
      pe_bounded_def split: if_splits list.splits)

lemma push_bounded:
  assumes "pe_bounded e" "pe_state e = kSubscribed" "PE_PushSample x e = Done ((), e')"
  shows "pe_bounded e'"
  using assms length_enqueue
  by (auto simp: PE_PushSample_def lock_guard_def pe_set_locked_def Let_def pe_bounded_def
      bind_outcome_Done run_calls_locked split: if_splits option.splits)

lemma pe_reach_bounded: "pe_reach e \<Longrightarrow> pe_bounded e"
proof (induction rule: pe_reach.induct)
  case pe_init
  then show ?case by (simp add: pe_bounded_def proxy_event_new_def)
next
  case (pe_api e c e')
  then show ?case by (blast intro: exec_call_bounded)
next
  case (pe_handler_set e h r e')
  then show ?case
    by (auto simp: PE_SetReceiveHandler_def lock_guard_def pe_set_locked_def pe_bounded_def
        split: if_splits)
next
  case (pe_sample e x e')
  then show ?case by (blast intro: push_bounded)
qed

subsection \<open>Properties\<close>

text \<open>C17: A subscribed event keeps the newest \<open>maxSampleCount\<close> samples (all of them for 0) and
  hands them out oldest first: after any burst of samples on an empty queue, that many calls of
  \<open>GetNextSample\<close> return exactly those samples in the order of arrival and empty the queue.\<close>

theorem event_keeps_newest_in_order:
  assumes "\<not> pe_locked e" "pe_handler e = None" "pe_state e = kSubscribed" "pe_queue e = []"
  shows "bind_outcome (push_all xs e) (get_all (length (newest (pe_max e) xs))) =
    Done (map Ok (newest (pe_max e) xs), e)"
proof -
  let ?e1 = "e\<lparr> pe_queue := newest (pe_max e) xs \<rparr>"
  have "push_all xs e = Done ?e1"
    using push_all_newest [OF assms(1,2), of "[]" xs] assms(4) by (simp add: newest_def)
  moreover have "get_all (length (newest (pe_max e) xs)) ?e1 =
      Done (map Ok (newest (pe_max e) xs), ?e1\<lparr> pe_queue := [] \<rparr>)"
    using assms by (intro get_all_queue) simp_all
  moreover have "?e1\<lparr> pe_queue := [] \<rparr> = e"
    using assms(4) by (cases e) simp
  ultimately show ?thesis by simp
qed

definition demo_event :: "nat proxy_event" where
  "demo_event = proxy_event_new\<lparr> pe_state := kSubscribed, pe_max := 2 \<rparr>"

lemma event_keeps_newest_in_order_witness:
  "bind_outcome (push_all [10, 20, 30 :: nat] demo_event)
      (get_all (length (newest (pe_max demo_event) [10, 20, 30 :: nat]))) =
    Done (map Ok (newest (pe_max demo_event) [10, 20, 30 :: nat]), demo_event)"
  by (rule event_keeps_newest_in_order) (simp_all add: demo_event_def proxy_event_new_def)

text \<open>C18: As long as samples only arrive while the event is subscribed, the queue never exceeds
  the bound of the current subscription, an unsubscribed event holds no samples, and no call
  leaves the mutex held.\<close>

theorem event_queue_bounded:
  assumes "pe_reach e"
  shows "\<not> pe_locked e \<and> (pe_state e \<noteq> kSubscribed \<longrightarrow> pe_queue e = []) \<and>
    (0 < pe_max e \<longrightarrow> length (pe_queue e) \<le> unat (pe_max e))"
  using pe_reach_bounded [OF assms] unfolding pe_bounded_def .

lemma demo_event_reach: "pe_reach demo_event"
  by (rule pe_api [OF pe_init, of "EC_Subscribe 2"])
    (simp add: drop_result_def pe_ops lock_guard_def pe_set_locked_def demo_event_def
      proxy_event_new_def)

lemma event_queue_bounded_witness:
  "\<not> pe_locked demo_event \<and> length (pe_queue demo_event) \<le> 2"
  using event_queue_bounded [OF demo_event_reach]
  by (auto simp: demo_event_def proxy_event_new_def)

text \<open>The receive handler runs with the mutex of the event held: a handler that calls any
  operation of the same event, for instance \<open>GetNextSample\<close> to fetch the sample it was notified
  of, never returns, and neither does the delivery.\<close>

lemma reentrant_handler_deadlocks:
  assumes "pe_handler e = Some (c # cs)"
  shows "PE_PushSample x e = Deadlock"
  using assms by (simp add: PE_PushSample_def lock_guard_def pe_set_locked_def Let_def)

lemma reentrant_handler_deadlocks_witness:
  "PE_PushSample 5 (demo_event\<lparr> pe_handler := Some [EC_GetNextSample] \<rparr>) = Deadlock"
  by (rule reentrant_handler_deadlocks) simp

text \<open>Delivery does not look at the subscription: three samples that arrive after
  \<open>Unsubscribe\<close> are kept, and a new subscription for one sample starts with all three of them,
  more than its bound, delivering samples from before it existed.\<close>

lemma stale_samples_survive_resubscription:
  "drop_result (bind_outcome (push_all [a, b, c]
       (proxy_event_new\<lparr> pe_max := 3 \<rparr> :: 'a proxy_event)) (PE_Subscribe 1)) =
     Done (proxy_event_new\<lparr> pe_max := 1, pe_state := kSubscribed, pe_queue := [a, b, c] \<rparr>) \<and>
   drop_result (bind_outcome (PE_Subscribe 3 (proxy_event_new :: 'a proxy_event))
       (\<lambda>(_, e). PE_Unsubscribe e)) = Done (proxy_event_new\<lparr> pe_max := 3 \<rparr>)"
  by (simp add: push_simple drop_result_def pe_ops lock_guard_def pe_set_locked_def
      proxy_event_new_def enqueue_def)

lemma unoffered_send: "\<not> se_isOffered e \<Longrightarrow> \<not> has_value (SE_Send s e)"
  by (cases s) (simp_all add: SE_Send_def)

end
