(* ===== verification/Method.thy ===== *)
theory Method
  imports Locks
begin

text \<open>
  runtime/inc/Method.hpp: the proxy side (connected or not; the transmission of the templates is
  a placeholder that always fails) and the skeleton side with its user handler, for methods with
  a result and for fire-and-forget methods.  A future is the result it will hold.  As in theory
  Event, of a handler the model keeps the calls it makes on the same object and its result.
\<close>

subsection \<open>Proxy side\<close>

record proxy_method =
  pm_isConnected :: bool

definition proxy_method_new :: proxy_method where
  "proxy_method_new = \<lparr> pm_isConnected = False \<rparr>"

definition PM_DoSyncCall :: "'a \<Rightarrow> 'o result" where
  "PM_DoSyncCall args = Err kCommunicationLinkError"

definition PM_DoAsyncCall :: "'a \<Rightarrow> 'o result" where
  "PM_DoAsyncCall args = Err kCommunicationLinkError"

definition PM_call :: "'a \<Rightarrow> proxy_method \<Rightarrow> 'o result" where
  "PM_call args m =
     (if \<not> pm_isConnected m then Err kServiceNotAvailable else PM_DoSyncCall args)"

definition PM_CallAsync :: "'a \<Rightarrow> proxy_method \<Rightarrow> 'o result" where
  "PM_CallAsync args m =
     (if \<not> pm_isConnected m then Err kServiceNotAvailable else PM_DoAsyncCall args)"

definition PM_IsConnected :: "proxy_method \<Rightarrow> bool" where
  "PM_IsConnected m = pm_isConnected m"

definition PM_SetConnected :: "bool \<Rightarrow> proxy_method \<Rightarrow> proxy_method" where
  "PM_SetConnected b m = m\<lparr> pm_isConnected := b \<rparr>"

text \<open>Fire and forget: the transmission of the template is an empty success.\<close>

record proxy_ff =
  pf_isConnected :: bool

definition PFF_DoCall :: "'a \<Rightarrow> unit result" where
  "PFF_DoCall args = Ok ()"

definition PFF_call :: "'a \<Rightarrow> proxy_ff \<Rightarrow> unit result" where
  "PFF_call args m = (if \<not> pf_isConnected m then Err kServiceNotAvailable else PFF_DoCall args)"

definition PFF_IsConnected :: "proxy_ff \<Rightarrow> bool" where
  "PFF_IsConnected m = pf_isConnected m"

definition PFF_SetConnected :: "bool \<Rightarrow> proxy_ff \<Rightarrow> proxy_ff" where
  "PFF_SetConnected b m = m\<lparr> pf_isConnected := b \<rparr>"

subsection \<open>Skeleton side\<close>

datatype method_call = MC_Register | MC_Unregister | MC_HasHandler

datatype ('a, 'o) method_handler =
  MethodHandler (mh_calls: "method_call list") (mh_result: "'a \<Rightarrow> 'o result")

record ('a, 'o) skeleton_method =
  sm_locked :: bool
  sm_handler :: "('a, 'o) method_handler option"

definition skeleton_method_new :: "('a, 'o) skeleton_method" where
  "skeleton_method_new = \<lparr> sm_locked = False, sm_handler = None \<rparr>"

definition sm_set_locked :: "bool \<Rightarrow> ('a, 'o) skeleton_method \<Rightarrow> ('a, 'o) skeleton_method" where
  "sm_set_locked b m = m\<lparr> sm_locked := b \<rparr>"

abbreviation sm_guard where
  "sm_guard \<equiv> lock_guard sm_locked sm_set_locked"

interpretation sm: scoped_lock "sm_locked :: ('a, 'o) skeleton_method \<Rightarrow> bool" sm_set_locked
  by standard (simp_all add: sm_set_locked_def)

definition SM_RegisterMethodHandler ::
  "('a, 'o) method_handler option \<Rightarrow> ('a, 'o) skeleton_method \<Rightarrow>
     (unit result \<times> ('a, 'o) skeleton_method) outcome" where
  "SM_RegisterMethodHandler h = sm_guard (\<lambda>m. Done
     (if sm_handler m \<noteq> None then (Err kSetHandlerNotSet, m) else (Ok (), m\<lparr> sm_handler := h \<rparr>)))"

definition SM_UnregisterMethodHandler ::
  "('a, 'o) skeleton_method \<Rightarrow> (unit \<times> ('a, 'o) skeleton_method) outcome" where
  "SM_UnregisterMethodHandler = sm_guard (\<lambda>m. Done ((), m\<lparr> sm_handler := None \<rparr>))"

definition SM_HasHandler ::
  "('a, 'o) skeleton_method \<Rightarrow> (bool \<times> ('a, 'o) skeleton_method) outcome" where
  "SM_HasHandler = sm_guard (\<lambda>m. Done (sm_handler m \<noteq> None, m))"

fun method_call_step :: "method_call \<Rightarrow> ('a, 'o) skeleton_method \<Rightarrow>
    ('a, 'o) skeleton_method outcome" where
  "method_call_step MC_Register m =
     bind_outcome (SM_RegisterMethodHandler None m) (\<lambda>(_, m1). Done m1)"
| "method_call_step MC_Unregister m =
     bind_outcome (SM_UnregisterMethodHandler m) (\<lambda>(_, m1). Done m1)"
| "method_call_step MC_HasHandler m = bind_outcome (SM_HasHandler m) (\<lambda>(_, m1). Done m1)"

fun method_calls :: "method_call list \<Rightarrow> ('a, 'o) skeleton_method \<Rightarrow>
    ('a, 'o) skeleton_method outcome" where
  "method_calls [] m = Done m"
| "method_calls (c # cs) m = bind_outcome (method_call_step c m) (method_calls cs)"

definition SM_ProcessCall ::
  "'a \<Rightarrow> ('a, 'o) skeleton_method \<Rightarrow> ('o result \<times> ('a, 'o) skeleton_method) outcome" where
  "SM_ProcessCall args = sm_guard (\<lambda>m.
     case sm_handler m of
       None \<Rightarrow> Done (Err kSetHandlerNotSet, m)
     | Some h \<Rightarrow> bind_outcome (method_calls (mh_calls h) m) (\<lambda>m1. Done (mh_result h args, m1)))"

text \<open>The fire-and-forget skeleton: registration as above, a call without handler is dropped.  A
  handler has no result; the calls it has served are kept as handler and arguments.\<close>

record ('h, 'a) skeleton_ff =
  sf_handler :: "'h option"
  sf_served :: "('h \<times> 'a) list"

definition SFF_RegisterMethodHandler ::
  "'h option \<Rightarrow> ('h, 'a) skeleton_ff \<Rightarrow> unit result \<times> ('h, 'a) skeleton_ff" where
  "SFF_RegisterMethodHandler h m =
     (if sf_handler m \<noteq> None then (Err kSetHandlerNotSet, m) else (Ok (), m\<lparr> sf_handler := h \<rparr>))"

definition SFF_UnregisterMethodHandler :: "('h, 'a) skeleton_ff \<Rightarrow> ('h, 'a) skeleton_ff" where
  "SFF_UnregisterMethodHandler m = m\<lparr> sf_handler := None \<rparr>"

definition SFF_ProcessCall :: "'a \<Rightarrow> ('h, 'a) skeleton_ff \<Rightarrow> ('h, 'a) skeleton_ff" where
  "SFF_ProcessCall args m =
     (case sf_handler m of
        None \<Rightarrow> m
      | Some h \<Rightarrow> m\<lparr> sf_served := sf_served m @ [(h, args)] \<rparr>)"

lemma method_call_locked [simp]: "sm_locked m \<Longrightarrow> method_call_step c m = Deadlock"
  by (cases c) (simp_all add: SM_RegisterMethodHandler_def SM_UnregisterMethodHandler_def
      SM_HasHandler_def)

lemma method_calls_locked: "sm_locked m \<Longrightarrow> method_calls cs m = (if cs = [] then Done m else Deadlock)"
  by (cases cs) simp_all

subsection \<open>Registration sequences\<close>

datatype ('a, 'o) sm_op = SMReg "('a, 'o) method_handler" | SMUnreg

fun sm_run :: "('a, 'o) sm_op list \<Rightarrow> ('a, 'o) skeleton_method \<Rightarrow>
    ('a, 'o) skeleton_method outcome" where
  "sm_run [] m = Done m"
| "sm_run (SMReg h # ps) m =
     bind_outcome (SM_RegisterMethodHandler (Some h) m) (\<lambda>(_, m1). sm_run ps m1)"
| "sm_run (SMUnreg # ps) m = bind_outcome (SM_UnregisterMethodHandler m) (\<lambda>(_, m1). sm_run ps m1)"

text \<open>The specification: the handler in force is the first one registered since the last time the
  slot was free.\<close>

fun in_force :: "('a, 'o) sm_op list \<Rightarrow> ('a, 'o) method_handler option \<Rightarrow>
    ('a, 'o) method_handler option" where
  "in_force [] cur = cur"
| "in_force (SMReg h # ps) cur = in_force ps (case cur of None \<Rightarrow> Some h | Some k \<Rightarrow> Some k)"
| "in_force (SMUnreg # ps) cur = in_force ps None"

lemma sm_run_in_force:
  "\<not> sm_locked m \<Longrightarrow> sm_run ps m = Done (m\<lparr> sm_handler := in_force ps (sm_handler m) \<rparr>)"
proof (induction ps "sm_handler m" arbitrary: m rule: in_force.induct)
  case 1
  then show ?case by simp
next
  case (2 h ps)
  let ?m1 = "m\<lparr> sm_handler := (case sm_handler m of None \<Rightarrow> Some h | Some k \<Rightarrow> Some k) \<rparr>"
  have "SM_RegisterMethodHandler (Some h) m =
      Done (if sm_handler m \<noteq> None then Err kSetHandlerNotSet else Ok (), ?m1)"
    using 2(2) by (cases m) (auto simp: SM_RegisterMethodHandler_def lock_guard_def sm_set_locked_def)
  moreover have "sm_run ps ?m1 = Done (?m1\<lparr> sm_handler := in_force ps (sm_handler ?m1) \<rparr>)"
    using 2(2) by (intro 2(1)) simp_all
  ultimately show ?case by simp
next
  case (3 ps)
  let ?m1 = "m\<lparr> sm_handler := None \<rparr>"
  have "SM_UnregisterMethodHandler m = Done ((), ?m1)"
    using 3(2) by (cases m) (simp add: SM_UnregisterMethodHandler_def lock_guard_def sm_set_locked_def)
  moreover have "sm_run ps ?m1 = Done (?m1\<lparr> sm_handler := in_force ps (sm_handler ?m1) \<rparr>)"
    using 3(2) by (intro 3(1)) simp_all
  ultimately show ?case by simp
qed

subsection \<open>Properties\<close>

text \<open>C19: After any sequence of registrations and withdrawals on a new method, a call is answered by
  the handler in force: the first one registered since the slot was last free (a second
  registration is refused and changes nothing), or by \<open>kSetHandlerNotSet\<close> when there is none;
  a handler that calls back into the same method object never returns.\<close>

theorem method_call_served_by_handler_in_force:
  "bind_outcome (sm_run ps skeleton_method_new) (\<lambda>m. bind_outcome (SM_ProcessCall args m)
      (\<lambda>(r, m1). Done r)) =
    (case in_force ps None of
       None \<Rightarrow> Done (Err kSetHandlerNotSet)
     | Some h \<Rightarrow> if mh_calls h = [] then Done (mh_result h args) else Deadlock)"
  by (simp add: sm_run_in_force skeleton_method_new_def SM_ProcessCall_def lock_guard_def
      sm_set_locked_def method_calls_locked split: option.split)

end
