(* ===== verification/Field.thy ===== *)
theory Field
  imports Event
begin

text \<open>
  runtime/inc/Field.hpp: a field is a getter, a setter and a notifier, each present or not.  The
  proxy side owns a \<open>proxy_event\<close>, the skeleton side a \<open>skeleton_event\<close>; the transmissions of
  the templates are placeholders that always fail.  Futures are the results they will hold;
  user handlers are functions.
\<close>

subsection \<open>Proxy side\<close>

record 'v proxy_field =
  pf_hasGetter :: bool
  pf_hasSetter :: bool
  pf_hasNotifier :: bool
  pf_isConnected :: bool
  pf_event :: "'v proxy_event"

definition proxy_field_new :: "bool \<Rightarrow> bool \<Rightarrow> bool \<Rightarrow> 'v proxy_field" where
  "proxy_field_new g s n = \<lparr> pf_hasGetter = g, pf_hasSetter = s, pf_hasNotifier = n,
     pf_isConnected = False, pf_event = proxy_event_new \<rparr>"

definition PF_DoGet :: "'v result" where "PF_DoGet = Err kCommunicationLinkError"

definition PF_DoGetAsync :: "'v result" where "PF_DoGetAsync = Err kCommunicationLinkError"

definition PF_DoSet :: "'v \<Rightarrow> unit result" where "PF_DoSet v = Err kCommunicationLinkError"

definition PF_DoSetAsync :: "'v \<Rightarrow> unit result" where
  "PF_DoSetAsync v = Err kCommunicationLinkError"

definition PF_Get :: "'v proxy_field \<Rightarrow> 'v result" where
  "PF_Get f =
     (if \<not> pf_hasGetter f then Err kInvalidArgument
      else if \<not> pf_isConnected f then Err kServiceNotAvailable
      else PF_DoGet)"

definition PF_GetAsync :: "'v proxy_field \<Rightarrow> 'v result" where
  "PF_GetAsync f =
     (if \<not> pf_hasGetter f then Err kInvalidArgument
      else if \<not> pf_isConnected f then Err kServiceNotAvailable
      else PF_DoGetAsync)"

definition PF_Set :: "'v \<Rightarrow> 'v proxy_field \<Rightarrow> unit result" where
  "PF_Set v f =
     (if \<not> pf_hasSetter f then Err kInvalidArgument
      else if \<not> pf_isConnected f then Err kServiceNotAvailable
      else PF_DoSet v)"

definition PF_SetAsync :: "'v \<Rightarrow> 'v proxy_field \<Rightarrow> unit result" where
  "PF_SetAsync v f =
     (if \<not> pf_hasSetter f then Err kInvalidArgument
      else if \<not> pf_isConnected f then Err kServiceNotAvailable
      else PF_DoSetAsync v)"

text \<open>Running an operation of the event inside the field.\<close>

definition on_event ::
  "('v proxy_event \<Rightarrow> ('r \<times> 'v proxy_event) outcome) \<Rightarrow> 'v proxy_field \<Rightarrow>
     ('r \<times> 'v proxy_field) outcome" where
  "on_event op f = bind_outcome (op (pf_event f)) (\<lambda>(r, e). Done (r, f\<lparr> pf_event := e \<rparr>))"

definition PF_Subscribe :: "u32 \<Rightarrow> 'v proxy_field \<Rightarrow> (unit result \<times> 'v proxy_field) outcome" where
  "PF_Subscribe n f =
     (if \<not> pf_hasNotifier f then Done (Err kInvalidArgument, f) else on_event (PE_Subscribe n) f)"

definition PF_Unsubscribe :: "'v proxy_field \<Rightarrow> (unit \<times> 'v proxy_field) outcome" where
  "PF_Unsubscribe f = (if pf_hasNotifier f then on_event PE_Unsubscribe f else Done ((), f))"

definition PF_GetSubscriptionState ::
  "'v proxy_field \<Rightarrow> (subscription_state \<times> 'v proxy_field) outcome" where
  "PF_GetSubscriptionState = on_event PE_GetSubscriptionState"

definition PF_GetNewSamples :: "'v proxy_field \<Rightarrow> (u32 \<times> 'v proxy_field) outcome" where
  "PF_GetNewSamples = on_event PE_GetNewSamples"

definition PF_GetNextSample :: "nat \<Rightarrow> 'v proxy_field \<Rightarrow> ('v result \<times> 'v proxy_field) outcome" where
  "PF_GetNextSample t = on_event (PE_GetNextSample t)"

definition PF_SetReceiveHandler ::
  "event_call list option \<Rightarrow> 'v proxy_field \<Rightarrow> (unit result \<times> 'v proxy_field) outcome" where
  "PF_SetReceiveHandler h f =
     (if \<not> pf_hasNotifier f then Done (Err kInvalidArgument, f)
      else on_event (PE_SetReceiveHandler h) f)"

definition PF_UnsetReceiveHandler :: "'v proxy_field \<Rightarrow> (unit \<times> 'v proxy_field) outcome" where
  "PF_UnsetReceiveHandler = on_event PE_UnsetReceiveHandler"

definition PF_SetConnected :: "bool \<Rightarrow> 'v proxy_field \<Rightarrow> 'v proxy_field" where
  "PF_SetConnected b f = f\<lparr> pf_isConnected := b \<rparr>"

subsection \<open>Skeleton side\<close>

record 'v skeleton_field =
  sfd_hasGetter :: bool
  sfd_hasSetter :: bool
  sfd_hasNotifier :: bool
  sfd_getter :: "'v result option"
  sfd_setter :: "('v \<Rightarrow> unit result) option"
  sfd_event :: skeleton_event

definition skeleton_field_new :: "bool \<Rightarrow> bool \<Rightarrow> bool \<Rightarrow> 'v skeleton_field" where
  "skeleton_field_new g s n = \<lparr> sfd_hasGetter = g, sfd_hasSetter = s, sfd_hasNotifier = n,
     sfd_getter = None, sfd_setter = None, sfd_event = skeleton_event_new \<rparr>"

definition SF_RegisterGetHandler ::
  "'v result option \<Rightarrow> 'v skeleton_field \<Rightarrow> unit result \<times> 'v skeleton_field" where
  "SF_RegisterGetHandler h f =
     (if \<not> sfd_hasGetter f then (Err kInvalidArgument, f) else (Ok (), f\<lparr> sfd_getter := h \<rparr>))"

definition SF_RegisterSetHandler ::
  "('v \<Rightarrow> unit result) option \<Rightarrow> 'v skeleton_field \<Rightarrow> unit result \<times> 'v skeleton_field" where
  "SF_RegisterSetHandler h f =
     (if \<not> sfd_hasSetter f then (Err kInvalidArgument, f) else (Ok (), f\<lparr> sfd_setter := h \<rparr>))"

text \<open>\<open>Update\<close>: the allocated sample (a parameter that may fail) receives the value and is sent.\<close>

definition SF_Update :: "bool \<Rightarrow> 'v \<Rightarrow> 'v skeleton_field \<Rightarrow> unit result" where
  "SF_Update mem v f =
     (if \<not> sfd_hasNotifier f then Err kInvalidArgument
      else
        (case SE_Allocate (if mem then Some () else None) (sfd_event f) of
           Inl e \<Rightarrow> Inl e
         | Inr _ \<Rightarrow> SE_Send (Some v) (sfd_event f)))"

definition SF_GetSubscriberCount :: "'v skeleton_field \<Rightarrow> u32" where
  "SF_GetSubscriberCount f = SE_GetSubscriberCount (sfd_event f)"

definition SF_ProcessGet :: "'v skeleton_field \<Rightarrow> 'v result" where
  "SF_ProcessGet f = (case sfd_getter f of None \<Rightarrow> Err kSetHandlerNotSet | Some r \<Rightarrow> r)"

definition SF_ProcessSet :: "'v \<Rightarrow> 'v skeleton_field \<Rightarrow> unit result" where
  "SF_ProcessSet v f = (case sfd_setter f of None \<Rightarrow> Err kSetHandlerNotSet | Some h \<Rightarrow> h v)"

subsection \<open>Reachable fields\<close>

text \<open>What a client can do to a proxy field through its public interface.\<close>

inductive pf_reach :: "bool \<Rightarrow> bool \<Rightarrow> bool \<Rightarrow> 'v proxy_field \<Rightarrow> bool" for g s n where
  pf_init: "pf_reach g s n (proxy_field_new g s n)"
| pf_sub: "pf_reach g s n f \<Longrightarrow> PF_Subscribe k f = Done (r, f') \<Longrightarrow> pf_reach g s n f'"
| pf_unsub: "pf_reach g s n f \<Longrightarrow> PF_Unsubscribe f = Done (u, f') \<Longrightarrow> pf_reach g s n f'"
| pf_next: "pf_reach g s n f \<Longrightarrow> PF_GetNextSample t f = Done (x, f') \<Longrightarrow> pf_reach g s n f'"
| pf_set_handler: "pf_reach g s n f \<Longrightarrow> PF_SetReceiveHandler h f = Done (r, f') \<Longrightarrow> pf_reach g s n f'"
| pf_unset_handler: "pf_reach g s n f \<Longrightarrow> PF_UnsetReceiveHandler f = Done (u, f') \<Longrightarrow> pf_reach g s n f'"

inductive sf_reach :: "bool \<Rightarrow> bool \<Rightarrow> bool \<Rightarrow> 'v skeleton_field \<Rightarrow> bool" for g s n where
  sf_init: "sf_reach g s n (skeleton_field_new g s n)"
| sf_get: "sf_reach g s n f \<Longrightarrow> sf_reach g s n (snd (SF_RegisterGetHandler h f))"
| sf_set: "sf_reach g s n f \<Longrightarrow> sf_reach g s n (snd (SF_RegisterSetHandler k f))"

lemma on_event_fields:
  "on_event op f = Done (r, f') \<Longrightarrow> pf_hasGetter f' = pf_hasGetter f \<and> pf_hasSetter f' = pf_hasSetter f \<and>
     pf_hasNotifier f' = pf_hasNotifier f \<and> pf_isConnected f' = pf_isConnected f"
  by (auto simp: on_event_def bind_outcome_Done)

lemma pf_reach_inv:
  "pf_reach g s n f \<Longrightarrow>
     pf_hasGetter f = g \<and> pf_hasSetter f = s \<and> pf_hasNotifier f = n \<and> \<not> pf_isConnected f \<and>
     (\<not> n \<longrightarrow> pe_state (pf_event f) = kNotSubscribed \<and> pe_queue (pf_event f) = [])"
proof (induction rule: pf_reach.induct)
  case pf_init
  then show ?case by (simp add: proxy_field_new_def proxy_event_new_def)
next
  case (pf_sub f k r f')
  then show ?case
    by (auto simp: PF_Subscribe_def dest: on_event_fields split: if_splits)
next
  case (pf_unsub f u f')
  then show ?case
    by (auto simp: PF_Unsubscribe_def dest: on_event_fields split: if_splits)
next
  case (pf_next f t x f')
  then show ?case
    by (auto simp: PF_GetNextSample_def on_event_def PE_GetNextSample_def lock_guard_def
        pe_set_locked_def bind_outcome_Done split: if_splits list.splits)
next
  case (pf_set_handler f h r f')
  then show ?case
    by (auto simp: PF_SetReceiveHandler_def dest: on_event_fields split: if_splits)
next
  case (pf_unset_handler f u f')
  then show ?case
    by (auto simp: PF_UnsetReceiveHandler_def on_event_def PE_UnsetReceiveHandler_def lock_guard_def
        pe_set_locked_def bind_outcome_Done split: if_splits)
qed

lemma sf_reach_inv:
  "sf_reach g s n f \<Longrightarrow>
     sfd_hasGetter f = g \<and> sfd_hasSetter f = s \<and> sfd_hasNotifier f = n \<and>
     \<not> se_isOffered (sfd_event f) \<and> (\<not> g \<longrightarrow> sfd_getter f = None) \<and> (\<not> s \<longrightarrow> sfd_setter f = None)"
  by (induction rule: sf_reach.induct)
    (auto simp: skeleton_field_new_def skeleton_event_new_def SF_RegisterGetHandler_def
      SF_RegisterSetHandler_def)

subsection \<open>Properties\<close>

text \<open>Nothing connects a proxy field or offers the event of a skeleton field: whatever a client
  does through the public interfaces, every get, set and update ends in an error, the one that
  the missing feature or the missing connection calls for, and no value ever moves.\<close>

lemma field_never_transfers:
  assumes "pf_reach g s n pf" "sf_reach g s n sf"
  shows "PF_Get pf = Err (if g then kServiceNotAvailable else kInvalidArgument) \<and>
    PF_GetAsync pf = Err (if g then kServiceNotAvailable else kInvalidArgument) \<and>
    PF_Set v pf = Err (if s then kServiceNotAvailable else kInvalidArgument) \<and>
    PF_SetAsync v pf = Err (if s then kServiceNotAvailable else kInvalidArgument) \<and>
    SF_Update mem v sf = Err (if \<not> n then kInvalidArgument
      else if mem then kServiceNotOffered else kSampleAllocationFailure)"
  using pf_reach_inv [OF assms(1)] sf_reach_inv [OF assms(2)]
  by (auto simp: PF_Get_def PF_GetAsync_def PF_Set_def PF_SetAsync_def SF_Update_def SE_Allocate_def
      SE_Send_def)

lemma field_never_transfers_witness:
  "PF_Get (proxy_field_new True False True :: nat proxy_field) =
      Err (if True then kServiceNotAvailable else kInvalidArgument) \<and>
    PF_GetAsync (proxy_field_new True False True :: nat proxy_field) =
      Err (if True then kServiceNotAvailable else kInvalidArgument) \<and>
    PF_Set 5 (proxy_field_new True False True :: nat proxy_field) =
      Err (if False then kServiceNotAvailable else kInvalidArgument) \<and>
    PF_SetAsync 5 (proxy_field_new True False True :: nat proxy_field) =
      Err (if False then kServiceNotAvailable else kInvalidArgument) \<and>
    SF_Update True (5 :: nat) (snd (SF_RegisterGetHandler (Some (Ok 3)) (skeleton_field_new True False True))) =
      Err (if \<not> True then kInvalidArgument
        else if True then kServiceNotOffered else kSampleAllocationFailure)"
  by (rule field_never_transfers) (rule pf_init, rule sf_get, rule sf_init)

end
