(* ===== verification/Skeleton.thy ===== *)
theory Skeleton
  imports Locks
begin

text \<open>
  runtime/inc/SkeletonBase.hpp and runtime/inc/ProxyBase.hpp.  Skeletons live in a pool (a list
  indexed by object), because moves involve two of them; the two virtual hooks are the outcome
  \<open>DoOfferService\<close> reports and a log of the hook calls.  The offer of a service is a resource:
  the properties say that it is acquired and released exactly once.
\<close>

subsection \<open>Proxy base\<close>

text \<open>A handler is the calls it makes on the same proxy while it runs.\<close>

datatype proxy_call = PB_SetHandler | PB_UnsetHandler | PB_Notify

record proxy_base =
  pb_locked :: bool
  pb_isValid :: bool
  pb_state :: availability_state
  pb_handler :: "proxy_call list option"
  pb_max :: u32

definition proxy_base_new :: proxy_base where
  "proxy_base_new = \<lparr> pb_locked = False, pb_isValid = False, pb_state = kNotOffered,
     pb_handler = None, pb_max = 0 \<rparr>"

definition pb_set_locked :: "bool \<Rightarrow> proxy_base \<Rightarrow> proxy_base" where
  "pb_set_locked b p = p\<lparr> pb_locked := b \<rparr>"

abbreviation pb_guard where
  "pb_guard \<equiv> lock_guard pb_locked pb_set_locked"

interpretation pb: scoped_lock pb_locked pb_set_locked
  by standard (simp_all add: pb_set_locked_def)

definition PB_SetServiceAvailabilityHandler ::
  "proxy_call list option \<Rightarrow> u32 \<Rightarrow> proxy_base \<Rightarrow> (unit result \<times> proxy_base) outcome" where
  "PB_SetServiceAvailabilityHandler h n =
     pb_guard (\<lambda>p. Done (Ok (), p\<lparr> pb_handler := h, pb_max := n \<rparr>))"

definition PB_UnsetServiceAvailabilityHandler :: "proxy_base \<Rightarrow> (unit \<times> proxy_base) outcome" where
  "PB_UnsetServiceAvailabilityHandler = pb_guard (\<lambda>p. Done ((), p\<lparr> pb_handler := None \<rparr>))"

text \<open>Inside a handler every call takes the mutex first; a nested notification would do the same.\<close>

fun proxy_call_step :: "proxy_call \<Rightarrow> proxy_base \<Rightarrow> proxy_base outcome" where
  "proxy_call_step PB_SetHandler p =
     bind_outcome (PB_SetServiceAvailabilityHandler None 0 p) (\<lambda>(_, p1). Done p1)"
| "proxy_call_step PB_UnsetHandler p =
     bind_outcome (PB_UnsetServiceAvailabilityHandler p) (\<lambda>(_, p1). Done p1)"
| "proxy_call_step PB_Notify p = (if pb_locked p then Deadlock else Done p)"

fun proxy_calls :: "proxy_call list \<Rightarrow> proxy_base \<Rightarrow> proxy_base outcome" where
  "proxy_calls [] p = Done p"
| "proxy_calls (c # cs) p = bind_outcome (proxy_call_step c p) (proxy_calls cs)"

definition PB_NotifyAvailabilityChange ::
  "availability_state \<Rightarrow> proxy_base \<Rightarrow> (unit \<times> proxy_base) outcome" where
  "PB_NotifyAvailabilityChange st = pb_guard (\<lambda>p.
     let p1 = p\<lparr> pb_state := st \<rparr> in
     case pb_handler p1 of
       None \<Rightarrow> Done ((), p1)
     | Some calls \<Rightarrow> bind_outcome (proxy_calls calls p1) (\<lambda>p2. Done ((), p2)))"

text \<open>Move construction gives the new object and what is left of the old one.\<close>

definition PB_move :: "proxy_base \<Rightarrow> proxy_base \<times> proxy_base" where
  "PB_move other =
     (\<lparr> pb_locked = False, pb_isValid = pb_isValid other, pb_state = pb_state other,
        pb_handler = pb_handler other, pb_max = pb_max other \<rparr>,
      other\<lparr> pb_isValid := False, pb_handler := None \<rparr>)"

text \<open>Move assignment between two distinct objects.\<close>

definition PB_move_assign :: "proxy_base \<Rightarrow> proxy_base \<Rightarrow> proxy_base \<times> proxy_base" where
  "PB_move_assign this other =
     (this\<lparr> pb_isValid := pb_isValid other, pb_state := pb_state other,
            pb_handler := pb_handler other, pb_max := pb_max other \<rparr>,
      other\<lparr> pb_isValid := False, pb_handler := None \<rparr>)"

record service_proxy =
  sp_base :: proxy_base
  sp_handle :: service_handle
  sp_mode :: processing_mode

definition CreateProxy :: "service_handle \<Rightarrow> processing_mode \<Rightarrow> service_proxy result" where
  "CreateProxy h mode =
     (if \<not> handle_is_valid h then Err kInvalidArgument
      else Ok \<lparr> sp_base = proxy_base_new\<lparr> pb_isValid := True \<rparr>, sp_handle = h, sp_mode = mode \<rparr>)"

lemma proxy_call_locked [simp]: "pb_locked p \<Longrightarrow> proxy_call_step c p = Deadlock"
  by (cases c) (simp_all add: PB_SetServiceAvailabilityHandler_def
      PB_UnsetServiceAvailabilityHandler_def)

subsection \<open>Skeleton base\<close>

record skeleton =
  sk_instance :: string
  sk_mode :: processing_mode
  sk_isOffered :: bool

datatype hook = DidOffer nat | DidStop nat

record pool =
  objects :: "skeleton option list"
  hooks :: "hook list"

definition skeleton_new :: "string \<Rightarrow> processing_mode \<Rightarrow> skeleton" where
  "skeleton_new i m = \<lparr> sk_instance = i, sk_mode = m, sk_isOffered = False \<rparr>"

definition put :: "nat \<Rightarrow> skeleton option \<Rightarrow> pool \<Rightarrow> pool" where
  "put i x w = w\<lparr> objects := (objects w)[i := x] \<rparr>"

definition log_hook :: "hook \<Rightarrow> pool \<Rightarrow> pool" where
  "log_hook h w = w\<lparr> hooks := hooks w @ [h] \<rparr>"

text \<open>\<open>OfferService\<close> with the result \<open>DoOfferService\<close> reports.\<close>

definition SK_OfferService :: "unit result \<Rightarrow> nat \<Rightarrow> skeleton \<Rightarrow> pool \<Rightarrow> unit result \<times> pool" where
  "SK_OfferService hook_result i s w =
     (if sk_isOffered s then (Err kServiceNotOffered, w)
      else if has_value hook_result
      then (hook_result, log_hook (DidOffer i) (put i (Some (s\<lparr> sk_isOffered := True \<rparr>)) w))
      else (hook_result, w))"

text \<open>The hooks of \<open>ServiceSkeleton\<close>: nothing is registered or withdrawn.\<close>

definition service_DoOfferService :: "skeleton \<Rightarrow> unit result \<times> skeleton" where
  "service_DoOfferService s = (Ok (), s)"

definition service_DoStopOfferService :: "skeleton \<Rightarrow> skeleton" where
  "service_DoStopOfferService s = s"

definition SK_StopOfferService :: "nat \<Rightarrow> skeleton \<Rightarrow> pool \<Rightarrow> pool" where
  "SK_StopOfferService i s w =
     (if sk_isOffered s
      then put i (Some (s\<lparr> sk_isOffered := False \<rparr>)) (log_hook (DidStop i) w) else w)"

definition SK_ProcessNextMethodCall :: "u32 result \<Rightarrow> skeleton \<Rightarrow> u32 result" where
  "SK_ProcessNextMethodCall hook_result s =
     (if \<not> sk_isOffered s then Err kServiceNotOffered else hook_result)"

text \<open>The default of the hook: polling is not implemented.\<close>

definition SK_DoProcessNextMethodCall :: "u32 result" where
  "SK_DoProcessNextMethodCall = Err kWrongMethodCallProcessing"

text \<open>Move construction into a new object at the end of the pool; the moved-from instance
  specifier is empty.\<close>

definition SK_move :: "nat \<Rightarrow> skeleton \<Rightarrow> pool \<Rightarrow> pool" where
  "SK_move j other w =
     (let w1 = put j (Some (other\<lparr> sk_instance := [], sk_isOffered := False \<rparr>)) w
      in w1\<lparr> objects := objects w1 @ [Some other] \<rparr>)"

definition SK_move_assign :: "nat \<Rightarrow> skeleton \<Rightarrow> nat \<Rightarrow> skeleton \<Rightarrow> pool \<Rightarrow> pool" where
  "SK_move_assign i this j other w =
     (if i = j then w
      else
        let w1 = (if sk_isOffered this then SK_StopOfferService i this w else w)
        in put j (Some (other\<lparr> sk_instance := [], sk_isOffered := False \<rparr>))
             (put i (Some (this\<lparr> sk_instance := sk_instance other, sk_mode := sk_mode other,
                                 sk_isOffered := sk_isOffered other \<rparr>)) w1))"

text \<open>The destructor of \<open>ServiceSkeleton\<close>.\<close>

definition SK_destroy :: "nat \<Rightarrow> skeleton \<Rightarrow> pool \<Rightarrow> pool" where
  "SK_destroy i s w =
     (let w1 = (if sk_isOffered s then SK_StopOfferService i s w else w) in put i None w1)"

inductive sk_step :: "pool \<Rightarrow> pool \<Rightarrow> bool" where
  sk_create: "sk_step w (w\<lparr> objects := objects w @ [Some (skeleton_new n m)] \<rparr>)"
| sk_offer: "i < length (objects w) \<Longrightarrow> objects w ! i = Some s \<Longrightarrow>
    sk_step w (snd (SK_OfferService r i s w))"
| sk_stop: "i < length (objects w) \<Longrightarrow> objects w ! i = Some s \<Longrightarrow>
    sk_step w (SK_StopOfferService i s w)"
| sk_move: "j < length (objects w) \<Longrightarrow> objects w ! j = Some s \<Longrightarrow> sk_step w (SK_move j s w)"
| sk_assign: "i < length (objects w) \<Longrightarrow> objects w ! i = Some s \<Longrightarrow>
    j < length (objects w) \<Longrightarrow> objects w ! j = Some t \<Longrightarrow> sk_step w (SK_move_assign i s j t w)"
| sk_destroy: "i < length (objects w) \<Longrightarrow> objects w ! i = Some s \<Longrightarrow> sk_step w (SK_destroy i s w)"

inductive_cases sk_stepE: "sk_step w w'"

definition pool_empty :: pool where
  "pool_empty = \<lparr> objects = [], hooks = [] \<rparr>"

inductive sk_reach :: "pool \<Rightarrow> bool" where
  sk_start: "sk_reach pool_empty"
| sk_next: "sk_reach w \<Longrightarrow> sk_step w w' \<Longrightarrow> sk_reach w'"

subsection \<open>Counting offers\<close>

definition offers :: "hook list \<Rightarrow> nat" where
  "offers hs = length (filter (\<lambda>h. case h of DidOffer _ \<Rightarrow> True | _ \<Rightarrow> False) hs)"

definition stops :: "hook list \<Rightarrow> nat" where
  "stops hs = length (filter (\<lambda>h. case h of DidStop _ \<Rightarrow> True | _ \<Rightarrow> False) hs)"

definition offered_one :: "skeleton option \<Rightarrow> nat" where
  "offered_one x = (case x of None \<Rightarrow> 0 | Some s \<Rightarrow> if sk_isOffered s then 1 else 0)"

definition offered_count :: "pool \<Rightarrow> nat" where
  "offered_count w = sum_list (map offered_one (objects w))"

lemma hook_counts [simp]:
  "offers (hs @ [DidOffer i]) = Suc (offers hs)" "offers (hs @ [DidStop i]) = offers hs"
  "stops (hs @ [DidOffer i]) = stops hs" "stops (hs @ [DidStop i]) = Suc (stops hs)"
  by (simp_all add: offers_def stops_def)

lemma sum_list_map_update:
  "i < length xs \<Longrightarrow> sum_list (map f (xs[i := x])) + f (xs ! i) = sum_list (map f xs) + (f x :: nat)"
  by (induction xs arbitrary: i) (auto split: nat.splits)

lemma count_put:
  "i < length (objects w) \<Longrightarrow>
     offered_count (put i x w) + offered_one (objects w ! i) = offered_count w + offered_one x"
  by (simp add: offered_count_def put_def sum_list_map_update)

lemma count_log [simp]: "offered_count (log_hook h w) = offered_count w"
  by (simp add: offered_count_def log_hook_def)

lemma put_fields [simp]:
  "hooks (put i x w) = hooks w" "length (objects (put i x w)) = length (objects w)"
  "hooks (log_hook h w) = hooks w @ [h]" "objects (log_hook h w) = objects w"
  "i < length (objects w) \<Longrightarrow> objects (put i x w) ! i = x"
  "i \<noteq> j \<Longrightarrow> objects (put i x w) ! j = objects w ! j"
  by (simp_all add: put_def log_hook_def)

definition balanced :: "pool \<Rightarrow> bool" where
  "balanced w \<longleftrightarrow> offers (hooks w) = stops (hooks w) + offered_count w"

lemma offer_balanced:
  assumes "i < length (objects w)" "objects w ! i = Some s" "balanced w"
  shows "balanced (snd (SK_OfferService r i s w))"
proof -
  have "offered_count (put i (Some (s\<lparr> sk_isOffered := True \<rparr>)) w) = Suc (offered_count w)"
    if "\<not> sk_isOffered s"
    using count_put [OF assms(1), of "Some (s\<lparr> sk_isOffered := True \<rparr>)"] assms(2) that
    by (simp add: offered_one_def)
  then show ?thesis
    using assms(3) by (simp add: SK_OfferService_def balanced_def)
qed

lemma stop_balanced:
  assumes "i < length (objects w)" "objects w ! i = Some s" "balanced w"
  shows "balanced (SK_StopOfferService i s w)"
proof -
  have "Suc (offered_count (put i (Some (s\<lparr> sk_isOffered := False \<rparr>)) (log_hook (DidStop i) w))) =
      offered_count w" if "sk_isOffered s"
    using count_put [of i "log_hook (DidStop i) w" "Some (s\<lparr> sk_isOffered := False \<rparr>)"] assms(1,2) that
    by (simp add: offered_one_def)
  then show ?thesis
    using assms(3) by (auto simp: SK_StopOfferService_def balanced_def)
qed

lemma stop_object:
  assumes "i < length (objects w)" "objects w ! i = Some s"
  shows "objects (SK_StopOfferService i s w) ! i = Some (s\<lparr> sk_isOffered := False \<rparr>)"
    "j \<noteq> i \<Longrightarrow> objects (SK_StopOfferService i s w) ! j = objects w ! j"
    "length (objects (SK_StopOfferService i s w)) = length (objects w)"
  using assms by (auto simp: SK_StopOfferService_def)

text \<open>Stopping when offered, the way move assignment and the destructor do it.\<close>

lemma stop_if_offered:
  assumes "i < length (objects w)" "objects w ! i = Some s" "balanced w"
  defines "w1 \<equiv> (if sk_isOffered s then SK_StopOfferService i s w else w)"
  shows "balanced w1" "offered_one (objects w1 ! i) = 0" "length (objects w1) = length (objects w)"
    "j \<noteq> i \<Longrightarrow> objects w1 ! j = objects w ! j"
  using assms stop_balanced [OF assms(1-3)] stop_object [OF assms(1,2)]
  by (auto simp: offered_one_def)

lemma move_balanced:
  assumes "j < length (objects w)" "objects w ! j = Some s" "balanced w"
  shows "balanced (SK_move j s w)"
proof -
  let ?s' = "Some (s\<lparr> sk_instance := [], sk_isOffered := False \<rparr>)"
  have "offered_count (put j ?s' w) + offered_one (Some s) = offered_count w"
    using count_put [OF assms(1), of ?s'] assms(2) by (simp add: offered_one_def)
  moreover have "offered_count (SK_move j s w) = offered_count (put j ?s' w) + offered_one (Some s)"
    by (simp add: SK_move_def Let_def offered_count_def)
  ultimately show ?thesis
    using assms(3) by (simp add: balanced_def SK_move_def Let_def)
qed

lemma assign_balanced:
  assumes i: "i < length (objects w)" "objects w ! i = Some s"
    and j: "j < length (objects w)" "objects w ! j = Some t" and bal: "balanced w"
  shows "balanced (SK_move_assign i s j t w)"
proof (cases "i = j")
  case True
  then show ?thesis using bal by (simp add: SK_move_assign_def)
next
  case False
  let ?w1 = "if sk_isOffered s then SK_StopOfferService i s w else w"
  let ?s' = "Some (s\<lparr> sk_instance := sk_instance t, sk_mode := sk_mode t,
    sk_isOffered := sk_isOffered t \<rparr>)"
  let ?t' = "Some (t\<lparr> sk_instance := [], sk_isOffered := False \<rparr>)"
  note w1 = stop_if_offered [OF i bal]
  have tj: "objects (put i ?s' ?w1) ! j = Some t"
    using w1(4) [of j] False j(2) by simp
  have "offered_count (put i ?s' ?w1) = offered_count ?w1 + offered_one ?s'"
    using count_put [of i ?w1 ?s'] w1(2,3) i(1) by simp
  moreover have "offered_count (put j ?t' (put i ?s' ?w1)) + offered_one (Some t) =
      offered_count (put i ?s' ?w1)"
    using count_put [of j "put i ?s' ?w1" ?t'] tj w1(3) j(1) by (simp add: offered_one_def)
  moreover have "offered_one ?s' = offered_one (Some t)"
    by (simp add: offered_one_def)
  ultimately have "offered_count (put j ?t' (put i ?s' ?w1)) = offered_count ?w1"
    by simp
  then show ?thesis
    using w1(1) False by (simp add: balanced_def SK_move_assign_def Let_def)
qed

lemma destroy_balanced:
  assumes "i < length (objects w)" "objects w ! i = Some s" "balanced w"
  shows "balanced (SK_destroy i s w)"
proof -
  let ?w1 = "if sk_isOffered s then SK_StopOfferService i s w else w"
  note w1 = stop_if_offered [OF assms]
  have "offered_count (put i None ?w1) = offered_count ?w1"
    using count_put [of i ?w1 None] w1(2,3) assms(1) by (simp add: offered_one_def)
  then show ?thesis
    using w1(1) by (simp add: SK_destroy_def Let_def balanced_def)
qed

lemma step_balanced: "sk_step w w' \<Longrightarrow> balanced w \<Longrightarrow> balanced w'"
proof (elim sk_stepE)
  fix n m
  assume "balanced w" "w' = w\<lparr> objects := objects w @ [Some (skeleton_new n m)] \<rparr>"
  then show "balanced w'"
    by (simp add: balanced_def offered_count_def skeleton_new_def offered_one_def)
qed (auto intro: offer_balanced stop_balanced move_balanced assign_balanced destroy_balanced)

lemma reach_balanced: "sk_reach w \<Longrightarrow> balanced w"
proof (induction rule: sk_reach.induct)
  case sk_start
  then show ?case
    by (simp add: balanced_def pool_empty_def offers_def stops_def offered_count_def)
next
  case (sk_next w w')
  then show ?case by (blast intro: step_balanced)
qed

subsection \<open>Properties\<close>

text \<open>C20: Offers are balanced: in every state reachable by creating, offering, stopping, moving,
  move-assigning and destroying skeletons, the successful offers minus the stops are exactly the
  skeletons that say they are offered.  In particular moves neither lose nor duplicate an offer,
  and when all objects are gone every offer has been stopped exactly once.\<close>

theorem offers_balanced:
  assumes "sk_reach w"
  shows "offers (hooks w) = stops (hooks w) + offered_count w \<and>
    (set (objects w) \<subseteq> {None} \<longrightarrow> offers (hooks w) = stops (hooks w))"
proof -
  have "offered_count w = 0" if "set (objects w) \<subseteq> {None}"
    using that by (auto simp: offered_count_def offered_one_def)
  then show ?thesis
    using reach_balanced [OF assms] by (simp add: balanced_def)
qed

definition demo_skeleton :: skeleton where
  "demo_skeleton = skeleton_new ''radar'' kEvent"

definition demo_pool :: pool where
  "demo_pool = SK_destroy 0 (demo_skeleton\<lparr> sk_isOffered := True \<rparr>)
     (snd (SK_OfferService (Ok ()) 0 demo_skeleton
        \<lparr> objects = [Some demo_skeleton], hooks = [] \<rparr>))"

lemma demo_pool_reach: "sk_reach demo_pool"
proof -
  have "sk_reach \<lparr> objects = [Some demo_skeleton], hooks = [] \<rparr>"
    using sk_next [OF sk_start sk_create [of _ "''radar''" kEvent]]
    by (simp add: pool_empty_def demo_skeleton_def)
  then have "sk_reach (snd (SK_OfferService (Ok ()) 0 demo_skeleton
      \<lparr> objects = [Some demo_skeleton], hooks = [] \<rparr>))"
    by (rule sk_next) (rule sk_offer, simp_all)
  then show ?thesis
    unfolding demo_pool_def
    by (rule sk_next) (rule sk_destroy, simp_all add: SK_OfferService_def demo_skeleton_def
      skeleton_new_def put_def log_hook_def)
qed

lemma offers_balanced_witness:
  "offers (hooks demo_pool) = stops (hooks demo_pool) + offered_count demo_pool"
  by (rule conjunct1 [OF offers_balanced [OF demo_pool_reach]])

end
