(* ===== verification/BindingManager.thy ===== *)
theory BindingManager
  imports Complex_Main Locks "HOL-Library.AList"
begin

text \<open>
  binding/manager: the registry of transport bindings.  A binding object is a shared pointer,
  \<open>Binding id lib\<close>: its identity and the library its code lives in (\<open>None\<close> for an object
  registered by the application).  The plugin libraries, the dynamic loader, the YAML parser and
  the virtual functions of the objects are not part of the repository's sources: they are the
  parameters \<open>loader\<close>, \<open>yaml_file\<close> and \<open>plugin_api\<close>.  The trace records what is opened, closed,
  initialised, shut down and destroyed, in the order of the code; an object is destroyed when
  its last shared pointer goes away.
\<close>

subsection \<open>Data of the interface\<close>

datatype manager_error =
    SUCCESS
  | CONFIG_LOAD_FAILED
  | LIBRARY_LOAD_FAILED
  | SYMBOL_NOT_FOUND
  | BINDING_INIT_FAILED
  | NO_BINDING_AVAILABLE
  | BINDING_NOT_FOUND

text \<open>An error of the manager itself, or the error a plugin's \<open>Initialize\<close> returned.\<close>

datatype bm_error = Manager manager_error | Plugin int

type_synonym 'a bm_result = "bm_error + 'a"

record transport_metrics =
  messages_sent :: u64
  messages_received :: u64
  messages_dropped :: u64
  avg_latency_ns :: u64
  max_latency_ns :: u64
  min_latency_ns :: u64
  bytes_sent :: u64
  bytes_received :: u64
  current_bandwidth_bps :: u64
  active_connections :: u32
  failed_connections :: u32
  serialization_errors :: u32
  timeout_errors :: u32

definition transport_metrics_new :: transport_metrics where
  "transport_metrics_new =
     \<lparr> messages_sent = 0, messages_received = 0, messages_dropped = 0,
       avg_latency_ns = 0, max_latency_ns = 0, min_latency_ns = - 1,
       bytes_sent = 0, bytes_received = 0, current_bandwidth_bps = 0,
       active_connections = 0, failed_connections = 0,
       serialization_errors = 0, timeout_errors = 0 \<rparr>"

text \<open>The availability is a double in the code; here it is the exact quotient.\<close>

record binding_health =
  is_healthy :: bool
  error_count :: u32
  consecutive_errors :: u32
  availability_percent :: rat
  last_error_timestamp :: u64
  last_error_message :: string

definition MAX_CONSECUTIVE_ERRORS :: u32 where
  "MAX_CONSECUTIVE_ERRORS = 10"

definition MIN_AVAILABILITY_PERCENT :: rat where
  "MIN_AVAILABILITY_PERCENT = 95"

datatype binding_obj = Binding (bid: nat) (blib: "nat option")

record binding_config =
  cfg_name :: string
  cfg_priority :: u32
  cfg_library_path :: string
  cfg_enabled :: bool
  cfg_parameters :: "(string \<times> string) list"

record static_mapping =
  map_service_id :: u64
  map_instance_id :: u64
  map_binding_name :: string

datatype bm_event =
    EvOpen nat
  | EvClose nat
  | EvInit binding_obj
  | EvShutdown binding_obj
  | EvDestroy binding_obj

record binding_manager =
  bm_locked :: bool
  bm_bindings :: "(u32 \<times> binding_obj) list"
  bm_by_name :: "(string \<times> binding_obj) list"
  bm_handles :: "(string \<times> nat) list"
  bm_mappings :: "static_mapping list"
  bm_next :: nat
  bm_trace :: "bm_event list"

definition bm_new :: binding_manager where
  "bm_new = \<lparr> bm_locked = False, bm_bindings = [], bm_by_name = [], bm_handles = [],
              bm_mappings = [], bm_next = 0, bm_trace = [] \<rparr>"

text \<open>
  The outside world: \<open>dlopen\<close> of a path, whether \<open>CreateBindingInstance\<close> is exported, whether
  it returns an object, and the error of its \<open>Initialize\<close>, if any.
\<close>

record loader =
  ld_open :: "string \<Rightarrow> nat option"
  ld_symbol :: "nat \<Rightarrow> bool"
  ld_create :: "nat \<Rightarrow> bool"
  ld_init :: "nat \<Rightarrow> int option"

record plugin_api =
  api_supports :: "binding_obj \<Rightarrow> u64 \<Rightarrow> bool"
  api_metrics :: "binding_obj \<Rightarrow> transport_metrics"
  api_zero_copy :: "binding_obj \<Rightarrow> bool"
  api_priority :: "binding_obj \<Rightarrow> u32"

abbreviation bm_lock ::
  "(binding_manager \<Rightarrow> ('r \<times> binding_manager) outcome) \<Rightarrow> binding_manager \<Rightarrow>
   ('r \<times> binding_manager) outcome" where
  "bm_lock \<equiv> lock_guard bm_locked (\<lambda>b. bm_locked_update (\<lambda>_. b))"

interpretation bml: scoped_lock bm_locked "\<lambda>b. bm_locked_update (\<lambda>_. b)"
  by unfold_locales simp_all

definition emit :: "bm_event list \<Rightarrow> binding_manager \<Rightarrow> binding_manager" where
  "emit es m = m\<lparr>bm_trace := bm_trace m @ es\<rparr>"

subsection \<open>Configuration files\<close>

text \<open>
  A parsed document: the values \<open>node[...].as<T>(default)\<close> yields for each entry.  A parameter
  value that is no scalar makes \<open>as<std::string>()\<close> throw; it is \<open>None\<close>.
\<close>

record yaml_binding =
  y_name :: string
  y_library :: string
  y_enabled :: bool
  y_priority :: u32
  y_parameters :: "(string \<times> string option) list"

record yaml_mapping =
  y_service_id :: string
  y_instance_id :: "string option"
  y_binding :: string

record yaml_doc =
  y_bindings :: "yaml_binding list"
  y_static_mappings :: "yaml_mapping list"

type_synonym yaml_file = "string \<Rightarrow> yaml_doc option"

definition is_space :: "char \<Rightarrow> bool" where
  "is_space c \<longleftrightarrow> c = CHR '' '' \<or> (9 \<le> (of_char c :: nat) \<and> (of_char c :: nat) \<le> 13)"

definition digit_val :: "char \<Rightarrow> nat option" where
  "digit_val c =
     (let n = of_char c :: nat in
      if 48 \<le> n \<and> n \<le> 57 then Some (n - 48)
      else if 97 \<le> n \<and> n \<le> 102 then Some (n - 87)
      else if 65 \<le> n \<and> n \<le> 70 then Some (n - 55)
      else None)"

definition is_digit :: "nat \<Rightarrow> char \<Rightarrow> bool" where
  "is_digit base c = (case digit_val c of Some d \<Rightarrow> d < base | None \<Rightarrow> False)"

fun digits_value :: "nat \<Rightarrow> nat \<Rightarrow> string \<Rightarrow> nat" where
  "digits_value base acc [] = acc"
| "digits_value base acc (c # cs) =
     (case digit_val c of
        Some d \<Rightarrow> if d < base then digits_value base (acc * base + d) cs else acc
      | None \<Rightarrow> acc)"

definition has_0x :: "string \<Rightarrow> bool" where
  "has_0x s \<longleftrightarrow> take 2 s = ''0x'' \<or> take 2 s = ''0X''"

text \<open>
  \<open>std::stoull (s, nullptr, base)\<close>: blanks, an optional sign, for base 16 an optional prefix,
  digits; an exception (\<open>None\<close>) without digits or beyond 64 bits; a minus sign negates modulo
  \<open>2 ^ 64\<close>.
\<close>

definition stoull :: "nat \<Rightarrow> string \<Rightarrow> u64 option" where
  "stoull base s =
     (let s1 = dropWhile is_space s;
          neg = (take 1 s1 = ''-'');
          s2 = (if take 1 s1 = ''-'' \<or> take 1 s1 = ''+'' then drop 1 s1 else s1);
          s3 = (if base = 16 \<and> has_0x s2 \<and> takeWhile (is_digit 16) (drop 2 s2) \<noteq> []
                then drop 2 s2 else s2);
          v = digits_value base 0 s3
      in if takeWhile (is_digit base) s3 = [] then None
         else if 2 ^ 64 \<le> v then None
         else Some (if neg then - of_nat v else of_nat v))"

definition parse_id :: "string \<Rightarrow> u64 option" where
  "parse_id s = (if has_0x s then stoull 16 s else stoull 10 s)"

fun parse_parameters :: "(string \<times> string option) list \<Rightarrow> (string \<times> string) list \<Rightarrow> (string \<times> string) list option" where
  "parse_parameters [] acc = Some acc"
| "parse_parameters ((k, Some v) # ps) acc = parse_parameters ps (AList.update k v acc)"
| "parse_parameters ((k, None) # ps) acc = None"

definition parse_binding :: "yaml_binding \<Rightarrow> binding_config option" where
  "parse_binding y =
     (case parse_parameters (y_parameters y) [] of
        None \<Rightarrow> None
      | Some ps \<Rightarrow> Some \<lparr> cfg_name = y_name y, cfg_priority = y_priority y,
                          cfg_library_path = y_library y, cfg_enabled = y_enabled y,
                          cfg_parameters = ps \<rparr>)"

fun parse_bindings :: "yaml_binding list \<Rightarrow> binding_config list option" where
  "parse_bindings [] = Some []"
| "parse_bindings (y # ys) =
     (case parse_binding y of
        None \<Rightarrow> None
      | Some c \<Rightarrow> (case parse_bindings ys of None \<Rightarrow> None | Some cs \<Rightarrow> Some (c # cs)))"

definition parse_mapping :: "yaml_mapping \<Rightarrow> static_mapping option" where
  "parse_mapping y =
     (case parse_id (y_service_id y) of
        None \<Rightarrow> None
      | Some sid \<Rightarrow>
          (case y_instance_id y of
             None \<Rightarrow> Some \<lparr> map_service_id = sid, map_instance_id = 0,
                            map_binding_name = y_binding y \<rparr>
           | Some t \<Rightarrow>
               (case parse_id t of
                  None \<Rightarrow> None
                | Some iid \<Rightarrow> Some \<lparr> map_service_id = sid, map_instance_id = iid,
                                     map_binding_name = y_binding y \<rparr>)))"

text \<open>The mappings before the first bad one, and whether all were good.\<close>

fun parse_mappings :: "yaml_mapping list \<Rightarrow> static_mapping list \<times> bool" where
  "parse_mappings [] = ([], True)"
| "parse_mappings (y # ys) =
     (case parse_mapping y of
        None \<Rightarrow> ([], False)
      | Some x \<Rightarrow> (let (xs, ok) = parse_mappings ys in (x # xs, ok)))"

text \<open>Every mapping is pushed into the member as it is read, also when a later one is bad.\<close>

definition parseYamlConfig ::
  "yaml_file \<Rightarrow> string \<Rightarrow> binding_manager \<Rightarrow> binding_config list bm_result \<times> binding_manager" where
  "parseYamlConfig fs path m =
     (case fs path of
        None \<Rightarrow> (Inl (Manager CONFIG_LOAD_FAILED), m)
      | Some doc \<Rightarrow>
          (case parse_bindings (y_bindings doc) of
             None \<Rightarrow> (Inl (Manager CONFIG_LOAD_FAILED), m)
           | Some cs \<Rightarrow>
               (let (xs, ok) = parse_mappings (y_static_mappings doc);
                    m1 = m\<lparr>bm_mappings := bm_mappings m @ xs\<rparr>
                in if ok then (Inr cs, m1) else (Inl (Manager CONFIG_LOAD_FAILED), m1))))"

subsection \<open>Pointers held by the manager\<close>

definition held_objs :: "binding_manager \<Rightarrow> binding_obj list" where
  "held_objs m = map snd (bm_bindings m) @ map snd (bm_by_name m)"

text \<open>A shared pointer to \<open>b\<close> was dropped: the object is destroyed if it was the last one.\<close>

definition drop_ref :: "binding_obj \<Rightarrow> binding_manager \<Rightarrow> binding_manager" where
  "drop_ref b m = (if b \<in> set (held_objs m) then m else emit [EvDestroy b] m)"

text \<open>\<open>std::multimap\<close> with \<open>std::greater\<close>: after the entries of the same priority.\<close>

definition emplace :: "u32 \<Rightarrow> binding_obj \<Rightarrow> (u32 \<times> binding_obj) list \<Rightarrow> (u32 \<times> binding_obj) list" where
  "emplace p b xs = takeWhile (\<lambda>(q, _). p \<le> q) xs @ (p, b) # dropWhile (\<lambda>(q, _). p \<le> q) xs"

text \<open>\<open>bindings_by_name_[name] = binding\<close>; a pointer it held before is dropped.\<close>

definition assign_name :: "string \<Rightarrow> binding_obj \<Rightarrow> binding_manager \<Rightarrow> binding_manager" where
  "assign_name n b m =
     (let m1 = m\<lparr>bm_by_name := AList.update n b (bm_by_name m)\<rparr>
      in case map_of (bm_by_name m) n of
           None \<Rightarrow> m1
         | Some old \<Rightarrow> drop_ref old m1)"

definition store_binding :: "binding_config \<Rightarrow> binding_obj \<Rightarrow> binding_manager \<Rightarrow> binding_manager" where
  "store_binding cfg b m =
     assign_name (cfg_name cfg) b
       (m\<lparr>bm_bindings := emplace (cfg_priority cfg) b (bm_bindings m)\<rparr>)"

subsection \<open>Registration, loading and unloading\<close>

text \<open>\<open>None\<close> is the null pointer.\<close>

definition RegisterBinding ::
  "binding_config \<Rightarrow> binding_obj option \<Rightarrow> binding_manager \<Rightarrow> (unit bm_result \<times> binding_manager) outcome" where
  "RegisterBinding cfg bo m =
     (case bo of
        None \<Rightarrow> Done (Inl (Manager BINDING_INIT_FAILED), m)
      | Some b \<Rightarrow> bm_lock (\<lambda>m. Done (Inr (), store_binding cfg b m)) m)"

text \<open>
  Opening the library, creating the object and initialising it.  When \<open>Initialize\<close> fails the
  library is closed first and the shared pointer goes out of scope after that.
\<close>

definition load_plugin ::
  "loader \<Rightarrow> binding_config \<Rightarrow> binding_manager \<Rightarrow> (binding_obj \<times> nat) bm_result \<times> binding_manager" where
  "load_plugin ld cfg m =
     (case ld_open ld (cfg_library_path cfg) of
        None \<Rightarrow> (Inl (Manager LIBRARY_LOAD_FAILED), m)
      | Some h \<Rightarrow>
          (if \<not> ld_symbol ld h then
             (Inl (Manager SYMBOL_NOT_FOUND), emit [EvOpen h, EvClose h] m)
           else if \<not> ld_create ld h then
             (Inl (Manager BINDING_INIT_FAILED), emit [EvOpen h, EvClose h] m)
           else
             (let b = Binding (bm_next m) (Some h);
                  m1 = emit [EvOpen h, EvInit b] (m\<lparr>bm_next := Suc (bm_next m)\<rparr>)
              in case ld_init ld h of
                   Some e \<Rightarrow> (Inl (Plugin e), emit [EvClose h, EvDestroy b] m1)
                 | None \<Rightarrow> (Inr (b, h), m1))))"

definition store_plugin ::
  "binding_config \<Rightarrow> binding_obj \<Rightarrow> nat \<Rightarrow> binding_manager \<Rightarrow> binding_manager" where
  "store_plugin cfg b h m =
     (let m1 = store_binding cfg b m
      in m1\<lparr>bm_handles := AList.update (cfg_name cfg) h (bm_handles m1)\<rparr>)"

definition LoadBinding ::
  "loader \<Rightarrow> binding_config \<Rightarrow> binding_manager \<Rightarrow> (unit bm_result \<times> binding_manager) outcome" where
  "LoadBinding ld cfg m =
     (case load_plugin ld cfg m of
        (Inl e, m1) \<Rightarrow> Done (Inl e, m1)
      | (Inr (b, h), m1) \<Rightarrow> bm_lock (\<lambda>m. Done (Inr (), store_plugin cfg b h m)) m1)"

text \<open>The loop of \<open>LoadConfiguration\<close>; errors of single bindings are only logged.\<close>

fun load_all ::
  "loader \<Rightarrow> binding_config list \<Rightarrow> binding_manager \<Rightarrow> (unit bm_result \<times> binding_manager) outcome" where
  "load_all ld [] m = Done (Inr (), m)"
| "load_all ld (c # cs) m =
     (if \<not> cfg_enabled c then load_all ld cs m
      else bind_outcome (LoadBinding ld c m) (\<lambda>(r, m1). load_all ld cs m1))"

definition LoadConfiguration ::
  "yaml_file \<Rightarrow> loader \<Rightarrow> string \<Rightarrow> binding_manager \<Rightarrow> (unit bm_result \<times> binding_manager) outcome" where
  "LoadConfiguration fs ld path m =
     (case parseYamlConfig fs path m of
        (Inl e, m1) \<Rightarrow> Done (Inl e, m1)
      | (Inr cs, m1) \<Rightarrow> bm_lock (load_all ld cs) m1)"

definition erase_obj :: "binding_obj \<Rightarrow> (u32 \<times> binding_obj) list \<Rightarrow> (u32 \<times> binding_obj) list" where
  "erase_obj b xs = filter (\<lambda>(p, c). c \<noteq> b) xs"

definition close_handle :: "string \<Rightarrow> binding_manager \<Rightarrow> binding_manager" where
  "close_handle n m =
     (case map_of (bm_handles m) n of
        None \<Rightarrow> m
      | Some h \<Rightarrow> emit [EvClose h] (m\<lparr>bm_handles := AList.delete n (bm_handles m)\<rparr>))"

definition erase_name :: "string \<Rightarrow> binding_obj \<Rightarrow> binding_manager \<Rightarrow> binding_manager" where
  "erase_name n b m = drop_ref b (m\<lparr>bm_by_name := AList.delete n (bm_by_name m)\<rparr>)"

definition unload_found :: "string \<Rightarrow> binding_obj \<Rightarrow> binding_manager \<Rightarrow> binding_manager" where
  "unload_found n b m =
     (let m1 = emit [EvShutdown b] m;
          m2 = m1\<lparr>bm_bindings := erase_obj b (bm_bindings m1)\<rparr>
      in close_handle n (erase_name n b m2))"

definition UnloadBinding ::
  "string \<Rightarrow> binding_manager \<Rightarrow> (unit bm_result \<times> binding_manager) outcome" where
  "UnloadBinding n =
     bm_lock (\<lambda>m. case map_of (bm_by_name m) n of
                    None \<Rightarrow> Done (Inl (Manager BINDING_NOT_FOUND), m)
                  | Some b \<Rightarrow> Done (Inr (), unload_found n b m))"

subsection \<open>Selection and queries\<close>

fun findStaticMapping :: "u64 \<Rightarrow> u64 \<Rightarrow> static_mapping list \<Rightarrow> string option" where
  "findStaticMapping sid iid [] = None"
| "findStaticMapping sid iid (x # xs) =
     (if map_service_id x \<noteq> sid then findStaticMapping sid iid xs
      else if map_instance_id x = 0 \<or> map_instance_id x = iid then Some (map_binding_name x)
      else findStaticMapping sid iid xs)"

fun first_supporting :: "plugin_api \<Rightarrow> u64 \<Rightarrow> (u32 \<times> binding_obj) list \<Rightarrow> binding_obj option" where
  "first_supporting api sid [] = None"
| "first_supporting api sid ((p, b) # xs) =
     (if api_supports api b sid then Some b else first_supporting api sid xs)"

definition select_unlocked :: "plugin_api \<Rightarrow> u64 \<Rightarrow> u64 \<Rightarrow> binding_manager \<Rightarrow> binding_obj option" where
  "select_unlocked api sid iid m =
     (case findStaticMapping sid iid (bm_mappings m) of
        None \<Rightarrow> first_supporting api sid (bm_bindings m)
      | Some n \<Rightarrow>
          (case map_of (bm_by_name m) n of
             Some b \<Rightarrow> Some b
           | None \<Rightarrow> first_supporting api sid (bm_bindings m)))"

definition SelectBinding ::
  "plugin_api \<Rightarrow> u64 \<Rightarrow> u64 \<Rightarrow> binding_manager \<Rightarrow> (binding_obj option \<times> binding_manager) outcome" where
  "SelectBinding api sid iid = bm_lock (\<lambda>m. Done (select_unlocked api sid iid m, m))"

definition GetBinding ::
  "string \<Rightarrow> binding_manager \<Rightarrow> (binding_obj option \<times> binding_manager) outcome" where
  "GetBinding n = bm_lock (\<lambda>m. Done (map_of (bm_by_name m) n, m))"

text \<open>The order of an \<open>unordered_map\<close> is unspecified; the model's is that of the list.\<close>

definition GetLoadedBindings ::
  "binding_manager \<Rightarrow> (string list \<times> binding_manager) outcome" where
  "GetLoadedBindings = bm_lock (\<lambda>m. Done (map fst (bm_by_name m), m))"

definition GetBindingMetrics ::
  "plugin_api \<Rightarrow> string \<Rightarrow> binding_manager \<Rightarrow> (transport_metrics option \<times> binding_manager) outcome" where
  "GetBindingMetrics api n =
     bm_lock (\<lambda>m. Done (map_option (api_metrics api) (map_of (bm_by_name m) n), m))"

definition GetAllMetrics ::
  "plugin_api \<Rightarrow> binding_manager \<Rightarrow> ((string \<times> transport_metrics) list \<times> binding_manager) outcome" where
  "GetAllMetrics api = bm_lock (\<lambda>m. Done (map (\<lambda>(n, b). (n, api_metrics api b)) (bm_by_name m), m))"

definition bm_SupportsZeroCopy ::
  "plugin_api \<Rightarrow> string \<Rightarrow> binding_manager \<Rightarrow> (bool \<times> binding_manager) outcome" where
  "bm_SupportsZeroCopy api n =
     bm_lock (\<lambda>m. Done (case map_of (bm_by_name m) n of
                          None \<Rightarrow> False | Some b \<Rightarrow> api_zero_copy api b, m))"

definition GetBindingPriority ::
  "plugin_api \<Rightarrow> string \<Rightarrow> binding_manager \<Rightarrow> (u32 option \<times> binding_manager) outcome" where
  "GetBindingPriority api n =
     bm_lock (\<lambda>m. Done (map_option (api_priority api) (map_of (bm_by_name m) n), m))"

definition calculate_health :: "transport_metrics \<Rightarrow> binding_health" where
  "calculate_health k =
     (let errs = serialization_errors k + timeout_errors k;
          cons = (if 0 < timeout_errors k then min errs 10 else 0);
          total = messages_sent k + messages_received k;
          avail = (if 0 < total
                   then of_nat (unat (total - messages_dropped k)) / of_nat (unat total) * 100
                   else 100);
          ok = (cons < MAX_CONSECUTIVE_ERRORS \<and> MIN_AVAILABILITY_PERCENT \<le> avail)
      in \<lparr> is_healthy = ok, error_count = errs, consecutive_errors = cons,
           availability_percent = avail, last_error_timestamp = 0,
           last_error_message = (if ok then ''OK'' else ''Degraded performance'') \<rparr>)"

definition GetBindingHealth ::
  "plugin_api \<Rightarrow> string \<Rightarrow> binding_manager \<Rightarrow> (binding_health option \<times> binding_manager) outcome" where
  "GetBindingHealth api n =
     bm_lock (\<lambda>m. Done (map_option (\<lambda>b. calculate_health (api_metrics api b)) (map_of (bm_by_name m) n), m))"

subsection \<open>Shutdown and reload\<close>

text \<open>
  All libraries are closed before the containers are cleared: the objects only the priority map
  holds are destroyed by its \<open>clear\<close>, the others when the name map is cleared.
\<close>

definition shutdown_all :: "binding_manager \<Rightarrow> binding_manager" where
  "shutdown_all m =
     (let named = map snd (bm_by_name m);
          ranked = map snd (bm_bindings m);
          m1 = emit (map EvShutdown named) m;
          m2 = emit (map (\<lambda>(n, h). EvClose h) (bm_handles m)) m1;
          m3 = emit (map EvDestroy (remdups (filter (\<lambda>b. b \<notin> set named) ranked)))
                 (m2\<lparr>bm_bindings := []\<rparr>);
          m4 = emit (map EvDestroy (remdups named)) (m3\<lparr>bm_by_name := []\<rparr>)
      in m4\<lparr>bm_handles := [], bm_mappings := []\<rparr>)"

definition bm_Shutdown :: "binding_manager \<Rightarrow> (unit bm_result \<times> binding_manager) outcome" where
  "bm_Shutdown = bm_lock (\<lambda>m. Done (Inr (), shutdown_all m))"

text \<open>Unloading inside a reload closes the library before the last pointer is dropped.\<close>

definition reload_unload :: "string \<Rightarrow> binding_manager \<Rightarrow> binding_manager" where
  "reload_unload n m =
     (case map_of (bm_by_name m) n of
        None \<Rightarrow> m
      | Some b \<Rightarrow>
          (let m1 = emit [EvShutdown b] m;
               m2 = m1\<lparr>bm_bindings := erase_obj b (bm_bindings m1)\<rparr>
           in erase_name n b (close_handle n m2)))"

definition reload_load :: "loader \<Rightarrow> binding_config \<Rightarrow> binding_manager \<Rightarrow> binding_manager" where
  "reload_load ld c m =
     (if \<not> cfg_enabled c then m
      else if map_of (bm_by_name m) (cfg_name c) \<noteq> None then m
      else (case load_plugin ld c m of
              (Inl e, m1) \<Rightarrow> m1
            | (Inr (b, h), m1) \<Rightarrow> store_plugin c b h m1))"

definition enabled_names :: "binding_config list \<Rightarrow> string list" where
  "enabled_names cs = map cfg_name (filter cfg_enabled cs)"

definition reload_unlocked :: "loader \<Rightarrow> binding_config list \<Rightarrow> binding_manager \<Rightarrow> binding_manager" where
  "reload_unlocked ld cs m =
     (let gone = filter (\<lambda>n. n \<notin> set (enabled_names cs)) (map fst (bm_by_name m))
      in fold (reload_load ld) cs (fold reload_unload gone m))"

definition ReloadConfiguration ::
  "yaml_file \<Rightarrow> loader \<Rightarrow> string \<Rightarrow> binding_manager \<Rightarrow> (unit bm_result \<times> binding_manager) outcome" where
  "ReloadConfiguration fs ld path m =
     (case parseYamlConfig fs path m of
        (Inl e, m1) \<Rightarrow> Done (Inl e, m1)
      | (Inr cs, m1) \<Rightarrow> bm_lock (\<lambda>m. Done (Inr (), reload_unlocked ld cs m)) m1)"

subsection \<open>Sequences of operations\<close>

datatype bm_op =
    OpRegister binding_config "binding_obj option"
  | OpLoad loader binding_config
  | OpLoadConfiguration yaml_file loader string
  | OpUnload string
  | OpReload yaml_file loader string
  | OpShutdown

fun bm_exec :: "bm_op \<Rightarrow> binding_manager \<Rightarrow> (unit bm_result \<times> binding_manager) outcome" where
  "bm_exec (OpRegister c b) m = RegisterBinding c b m"
| "bm_exec (OpLoad ld c) m = LoadBinding ld c m"
| "bm_exec (OpLoadConfiguration fs ld p) m = LoadConfiguration fs ld p m"
| "bm_exec (OpUnload n) m = UnloadBinding n m"
| "bm_exec (OpReload fs ld p) m = ReloadConfiguration fs ld p m"
| "bm_exec OpShutdown m = bm_Shutdown m"

fun bm_run :: "bm_op list \<Rightarrow> binding_manager \<Rightarrow> binding_manager outcome" where
  "bm_run [] m = Done m"
| "bm_run (x # xs) m = bind_outcome (bm_exec x m) (\<lambda>(r, m1). bm_run xs m1)"

subsection \<open>The invariant\<close>

text \<open>
  Outside a call the mutex is free, the priority map is sorted, every named object is also
  ranked, and no name occurs twice.
\<close>

definition bm_ranked :: "binding_manager \<Rightarrow> bool" where
  "bm_ranked m \<longleftrightarrow>
     sorted_wrt (\<lambda>x y. fst y \<le> fst x) (bm_bindings m) \<and>
     distinct (map fst (bm_by_name m)) \<and>
     distinct (map fst (bm_handles m))"

definition bm_inv :: "binding_manager \<Rightarrow> bool" where
  "bm_inv m \<longleftrightarrow> \<not> bm_locked m \<and> bm_ranked m"

lemma sorted_emplace:
  "sorted_wrt (\<lambda>x y. fst y \<le> fst x) xs \<Longrightarrow> sorted_wrt (\<lambda>x y. fst y \<le> fst x) (emplace p b xs)"
  unfolding emplace_def
  by (induction xs) (fastforce dest: set_dropWhileD set_takeWhileD split: prod.splits)+

lemma set_emplace: "set (emplace p b xs) = insert (p, b) (set xs)"
  unfolding emplace_def by (metis Un_insert_right list.simps(15) set_append takeWhile_dropWhile_id)

lemma sorted_erase_obj:
  "sorted_wrt (\<lambda>x y. fst y \<le> fst x) xs \<Longrightarrow> sorted_wrt (\<lambda>x y. fst y \<le> fst x) (erase_obj b xs)"
  unfolding erase_obj_def by (rule sorted_wrt_filter)

lemma emit_simps [simp]:
  "bm_locked (emit es m) = bm_locked m" "bm_bindings (emit es m) = bm_bindings m"
  "bm_by_name (emit es m) = bm_by_name m" "bm_handles (emit es m) = bm_handles m"
  "bm_mappings (emit es m) = bm_mappings m" "bm_next (emit es m) = bm_next m"
  "bm_trace (emit es m) = bm_trace m @ es"
  by (simp_all add: emit_def)

lemma drop_ref_simps [simp]:
  "bm_locked (drop_ref b m) = bm_locked m" "bm_bindings (drop_ref b m) = bm_bindings m"
  "bm_by_name (drop_ref b m) = bm_by_name m" "bm_handles (drop_ref b m) = bm_handles m"
  "bm_mappings (drop_ref b m) = bm_mappings m" "bm_next (drop_ref b m) = bm_next m"
  by (simp_all add: drop_ref_def)

lemma assign_name_simps [simp]:
  "bm_locked (assign_name n b m) = bm_locked m" "bm_bindings (assign_name n b m) = bm_bindings m"
  "bm_by_name (assign_name n b m) = AList.update n b (bm_by_name m)"
  "bm_handles (assign_name n b m) = bm_handles m"
  "bm_mappings (assign_name n b m) = bm_mappings m" "bm_next (assign_name n b m) = bm_next m"
  by (simp_all add: assign_name_def Let_def split: option.split)

lemma close_handle_simps [simp]:
  "bm_locked (close_handle n m) = bm_locked m" "bm_bindings (close_handle n m) = bm_bindings m"
  "bm_by_name (close_handle n m) = bm_by_name m"
  "bm_mappings (close_handle n m) = bm_mappings m" "bm_next (close_handle n m) = bm_next m"
  "bm_handles (close_handle n m) = AList.delete n (bm_handles m)"
  by (simp_all add: close_handle_def delete_id map_of_eq_None_iff split: option.split)

lemma erase_name_simps [simp]:
  "bm_locked (erase_name n b m) = bm_locked m" "bm_bindings (erase_name n b m) = bm_bindings m"
  "bm_by_name (erase_name n b m) = AList.delete n (bm_by_name m)"
  "bm_mappings (erase_name n b m) = bm_mappings m" "bm_next (erase_name n b m) = bm_next m"
  "bm_handles (erase_name n b m) = bm_handles m"
  by (simp_all add: erase_name_def)

lemma store_plugin_simps [simp]:
  "bm_locked (store_plugin c b h m) = bm_locked m"
  "bm_bindings (store_plugin c b h m) = emplace (cfg_priority c) b (bm_bindings m)"
  "bm_by_name (store_plugin c b h m) = AList.update (cfg_name c) b (bm_by_name m)"
  "bm_handles (store_plugin c b h m) = AList.update (cfg_name c) h (bm_handles m)"
  "bm_mappings (store_plugin c b h m) = bm_mappings m"
  by (simp_all add: store_plugin_def store_binding_def Let_def)

text \<open>Loading a plugin touches no container.\<close>

definition same_tables :: "binding_manager \<Rightarrow> binding_manager \<Rightarrow> bool" where
  "same_tables m m1 \<longleftrightarrow>
     bm_locked m1 = bm_locked m \<and> bm_bindings m1 = bm_bindings m \<and> bm_by_name m1 = bm_by_name m \<and>
     bm_handles m1 = bm_handles m \<and> bm_mappings m1 = bm_mappings m"

definition plugin_loads :: "loader \<Rightarrow> binding_config \<Rightarrow> bool" where
  "plugin_loads ld c \<longleftrightarrow>
     (case ld_open ld (cfg_library_path c) of
        None \<Rightarrow> False
      | Some h \<Rightarrow> ld_symbol ld h \<and> ld_create ld h \<and> ld_init ld h = None)"

lemma load_plugin_tables:
  "load_plugin ld c m = (r, m1) \<Longrightarrow> same_tables m m1"
  by (auto simp: load_plugin_def same_tables_def Let_def split: option.splits if_splits)

lemma load_plugin_result:
  "(\<exists>b h m1. load_plugin ld c m = (Inr (b, h), m1)) \<longleftrightarrow> plugin_loads ld c"
  by (auto simp: load_plugin_def plugin_loads_def Let_def split: option.splits if_splits)

lemma load_plugin_fails:
  "\<not> plugin_loads ld c \<Longrightarrow> \<exists>e m1. load_plugin ld c m = (Inl e, m1)"
  by (auto simp: load_plugin_def plugin_loads_def Let_def split: option.splits if_splits)

lemma same_tables_refl [simp]: "same_tables m m"
  by (simp add: same_tables_def)

lemma same_tables_trans: "same_tables a b \<Longrightarrow> same_tables b c \<Longrightarrow> same_tables a c"
  by (simp add: same_tables_def)

lemma same_tables_ranked: "same_tables m m1 \<Longrightarrow> bm_ranked m \<Longrightarrow> bm_ranked m1"
  by (simp add: same_tables_def bm_ranked_def)

lemma ranked_locked [simp]: "bm_ranked (bm_locked_update f m) = bm_ranked m"
  by (simp add: bm_ranked_def)

lemma ranked_store_plugin: "bm_ranked m \<Longrightarrow> bm_ranked (store_plugin c b h m)"
  by (simp add: bm_ranked_def sorted_emplace distinct_update)

lemma ranked_store_binding: "bm_ranked m \<Longrightarrow> bm_ranked (store_binding c b m)"
  by (simp add: bm_ranked_def store_binding_def sorted_emplace distinct_update)

lemma ranked_unload: "bm_ranked m \<Longrightarrow> bm_ranked (unload_found n b m)"
  by (simp add: bm_ranked_def unload_found_def Let_def sorted_erase_obj distinct_delete)

lemma ranked_reload_unload: "bm_ranked m \<Longrightarrow> bm_ranked (reload_unload n m)"
  by (simp add: bm_ranked_def reload_unload_def Let_def sorted_erase_obj distinct_delete split: option.split)

lemma ranked_reload_load: "bm_ranked m \<Longrightarrow> bm_ranked (reload_load ld c m)"
  by (auto simp: reload_load_def intro: ranked_store_plugin
           dest: load_plugin_tables same_tables_ranked split: prod.splits sum.splits)

lemma ranked_reload: "bm_ranked m \<Longrightarrow> bm_ranked (reload_unlocked ld cs m)"
proof -
  assume "bm_ranked m"
  moreover have "bm_ranked m \<Longrightarrow> bm_ranked (fold reload_unload ns m)" for ns m
    by (induction ns arbitrary: m) (simp_all add: ranked_reload_unload)
  moreover have "bm_ranked m \<Longrightarrow> bm_ranked (fold (reload_load ld) cs m)" for cs m
    by (induction cs arbitrary: m) (simp_all add: ranked_reload_load)
  ultimately show ?thesis
    by (simp add: reload_unlocked_def)
qed

lemma ranked_shutdown: "bm_ranked (shutdown_all m)"
  by (simp add: bm_ranked_def shutdown_all_def Let_def)

lemma parse_tables:
  "parseYamlConfig fs path m = (r, m1) \<Longrightarrow>
     \<exists>xs. m1 = m\<lparr>bm_mappings := bm_mappings m @ xs\<rparr>"
proof -
  assume "parseYamlConfig fs path m = (r, m1)"
  then have "m1 = m \<or> (\<exists>xs. m1 = m\<lparr>bm_mappings := bm_mappings m @ xs\<rparr>)"
    by (auto simp: parseYamlConfig_def Let_def split: option.splits prod.splits if_splits)
  moreover have "m = m\<lparr>bm_mappings := bm_mappings m @ []\<rparr>"
    by simp
  ultimately show ?thesis
    by metis
qed

lemma parse_inv: "parseYamlConfig fs path m = (r, m1) \<Longrightarrow> bm_inv m1 = bm_inv m"
  by (auto dest!: parse_tables simp: bm_inv_def bm_ranked_def)

text \<open>With the mutex held, a configuration that loads completely blocks for ever.\<close>

lemma LoadBinding_held:
  assumes "bm_locked m"
  shows "plugin_loads ld c \<Longrightarrow> LoadBinding ld c m = Deadlock"
    and "\<not> plugin_loads ld c \<Longrightarrow> \<exists>e m1. LoadBinding ld c m = Done (Inl e, m1) \<and> same_tables m m1"
proof -
  show "LoadBinding ld c m = Deadlock" if "plugin_loads ld c"
  proof -
    obtain b h m1 where l: "load_plugin ld c m = (Inr (b, h), m1)"
      using \<open>plugin_loads ld c\<close> load_plugin_result by blast
    then have "bm_locked m1"
      using assms load_plugin_tables [OF l] by (simp add: same_tables_def)
    then show ?thesis
      using l by (simp add: LoadBinding_def)
  qed
  show "\<exists>e m1. LoadBinding ld c m = Done (Inl e, m1) \<and> same_tables m m1"
    if "\<not> plugin_loads ld c"
    using load_plugin_fails [OF that, of m] load_plugin_tables
    by (force simp: LoadBinding_def)
qed

lemma load_all_held:
  assumes "bm_locked m"
  shows "(\<exists>c\<in>set cs. cfg_enabled c \<and> plugin_loads ld c) \<and> load_all ld cs m = Deadlock \<or>
         \<not> (\<exists>c\<in>set cs. cfg_enabled c \<and> plugin_loads ld c) \<and>
         (\<exists>m1. load_all ld cs m = Done (Inr (), m1) \<and> same_tables m m1)"
  using assms
proof (induction cs arbitrary: m)
  case Nil
  then show ?case
    by simp
next
  case (Cons c cs)
  show ?case
  proof (cases "cfg_enabled c")
    case False
    then show ?thesis
      using Cons.IH [OF Cons.prems] by auto
  next
    case True
    show ?thesis
    proof (cases "plugin_loads ld c")
      case True
      then show ?thesis
        using \<open>cfg_enabled c\<close> LoadBinding_held(1) [OF Cons.prems] by simp
    next
      case False
      then obtain e m1 where l: "LoadBinding ld c m = Done (Inl e, m1)" "same_tables m m1"
        using LoadBinding_held(2) [OF Cons.prems] by blast
      then have "bm_locked m1"
        using Cons.prems by (simp add: same_tables_def)
      from Cons.IH [OF this] show ?thesis
        using l False \<open>cfg_enabled c\<close> by (auto intro: same_tables_trans)
    qed
  qed
qed

lemma LoadBinding_inv:
  assumes "LoadBinding ld c m = Done (r, m1)" "bm_inv m"
  shows "bm_inv m1"
proof (cases "load_plugin ld c m")
  case (Pair q m2)
  have t: "same_tables m m2"
    using load_plugin_tables [OF Pair] .
  then have "bm_locked m2 = bm_locked m"
    by (simp add: same_tables_def)
  then have m2: "bm_inv m2"
    using assms(2) same_tables_ranked [OF t] by (simp add: bm_inv_def)
  show ?thesis
    using assms(1) Pair m2
    by (auto simp: LoadBinding_def lock_guard_def bm_inv_def ranked_store_plugin
             split: sum.splits prod.splits)
qed

lemma LoadConfiguration_inv:
  assumes "LoadConfiguration fs ld path m = Done (r, m1)" "bm_inv m"
  shows "bm_inv m1"
proof (cases "parseYamlConfig fs path m")
  case (Pair q m2)
  have m2: "bm_inv m2"
    using parse_inv [OF Pair] assms(2) by simp
  show ?thesis
  proof (cases q)
    case (Inl e)
    then show ?thesis
      using Pair assms(1) m2 by (simp add: LoadConfiguration_def)
  next
    case (Inr cs)
    have "bm_locked (bm_locked_update (\<lambda>_. True) m2)"
      by simp
    from load_all_held [OF this, of cs ld] show ?thesis
      using Pair Inr assms(1) m2
      by (auto simp: LoadConfiguration_def lock_guard_def bm_inv_def bm_ranked_def same_tables_def)
  qed
qed

lemma bm_exec_inv:
  assumes "bm_exec x m = Done (r, m1)" "bm_inv m"
  shows "bm_inv m1"
proof (cases x)
  case (OpRegister c b)
  then show ?thesis
    using assms by (auto simp: RegisterBinding_def lock_guard_def bm_inv_def ranked_store_binding split: option.splits)
next
  case (OpLoad ld c)
  then show ?thesis
    using assms LoadBinding_inv by simp
next
  case (OpLoadConfiguration fs ld p)
  then show ?thesis
    using assms LoadConfiguration_inv by simp
next
  case (OpUnload n)
  then show ?thesis
    using assms
    by (auto simp: UnloadBinding_def lock_guard_def bm_inv_def ranked_unload split: option.splits)
next
  case (OpReload fs ld p)
  then show ?thesis
    using assms parse_inv [of fs p m]
    by (auto simp: ReloadConfiguration_def lock_guard_def bm_inv_def ranked_reload
             split: prod.splits sum.splits)
next
  case OpShutdown
  then show ?thesis
    using assms by (auto simp: bm_Shutdown_def lock_guard_def bm_inv_def ranked_shutdown)
qed

lemma bm_run_inv: "bm_run xs m = Done m1 \<Longrightarrow> bm_inv m \<Longrightarrow> bm_inv m1"
  by (induction xs arbitrary: m) (auto simp: bind_outcome_Done dest: bm_exec_inv)

lemma bm_inv_new: "bm_inv bm_new"
  by (simp add: bm_inv_def bm_ranked_def bm_new_def)

subsection \<open>Selection\<close>

definition forced_binding :: "u64 \<Rightarrow> u64 \<Rightarrow> binding_manager \<Rightarrow> binding_obj option" where
  "forced_binding sid iid m =
     (case findStaticMapping sid iid (bm_mappings m) of
        None \<Rightarrow> None
      | Some n \<Rightarrow> map_of (bm_by_name m) n)"

definition supporting :: "plugin_api \<Rightarrow> u64 \<Rightarrow> binding_manager \<Rightarrow> (u32 \<times> binding_obj) list" where
  "supporting api sid m = filter (\<lambda>(p, b). api_supports api b sid) (bm_bindings m)"

lemma first_supporting_filter:
  "first_supporting api sid xs =
     (case filter (\<lambda>(p, b). api_supports api b sid) xs of [] \<Rightarrow> None | (p, b) # _ \<Rightarrow> Some b)"
  by (induction xs) auto

lemma SelectBinding_free:
  "\<not> bm_locked m \<Longrightarrow> SelectBinding api sid iid m = Done (select_unlocked api sid iid m, m)"
  by (simp add: SelectBinding_def lock_guard_def select_unlocked_def bml.set_same split: option.split)

lemma select_unlocked_forced:
  "select_unlocked api sid iid m =
     (case forced_binding sid iid m of
        Some b \<Rightarrow> Some b
      | None \<Rightarrow> first_supporting api sid (bm_bindings m))"
  by (simp add: select_unlocked_def forced_binding_def split: option.split)

lemma first_supporting_best:
  assumes "sorted_wrt (\<lambda>x y. fst y \<le> fst x) xs" "first_supporting api sid xs = Some b"
  shows "\<exists>p. (p, b) \<in> set xs \<and> api_supports api b sid \<and>
             (\<forall>(q, c)\<in>set xs. api_supports api c sid \<longrightarrow> q \<le> p)"
  using assms by (induction xs) (fastforce split: if_splits)+

lemma first_supporting_None:
  "first_supporting api sid xs = None \<longleftrightarrow> (\<forall>(q, c)\<in>set xs. \<not> api_supports api c sid)"
  by (induction xs) (auto split: if_splits)

text \<open>C21: after any sequence of registrations, loads, configurations, reloads, unloads and
  shutdowns that returned, SelectBinding returns the loaded binding a static mapping forces, else
  a binding that supports the service and whose priority no other supporting binding exceeds;
  the null pointer exactly when none supports it.\<close>

theorem select_best_binding:
  assumes "bm_run xs bm_new = Done m"
  shows "\<exists>r. SelectBinding api sid iid m = Done (r, m) \<and>
             (case forced_binding sid iid m of
                Some b \<Rightarrow> r = Some b
              | None \<Rightarrow>
                  (r = None \<longleftrightarrow> supporting api sid m = []) \<and>
                  (\<forall>b. r = Some b \<longrightarrow>
                     (\<exists>p. (p, b) \<in> set (supporting api sid m) \<and>
                          (\<forall>(q, c)\<in>set (supporting api sid m). q \<le> p))))"
proof -
  have inv: "bm_inv m"
    using bm_run_inv [OF assms bm_inv_new] .
  then have s: "sorted_wrt (\<lambda>x y. fst y \<le> fst x) (bm_bindings m)"
    by (simp add: bm_inv_def bm_ranked_def)
  have free: "SelectBinding api sid iid m = Done (select_unlocked api sid iid m, m)"
    using SelectBinding_free inv by (simp add: bm_inv_def)
  have none: "first_supporting api sid (bm_bindings m) = None \<longleftrightarrow> supporting api sid m = []"
    by (auto simp: first_supporting_None supporting_def filter_empty_conv)
  have best: "\<exists>p. (p, b) \<in> set (supporting api sid m) \<and> (\<forall>(q, c)\<in>set (supporting api sid m). q \<le> p)"
    if "first_supporting api sid (bm_bindings m) = Some b" for b
    using first_supporting_best [OF s that] by (auto simp: supporting_def)
  show ?thesis
    using none best by (auto simp: free select_unlocked_forced split: option.splits)
qed

definition demo_cfg :: "string \<Rightarrow> u32 \<Rightarrow> binding_config" where
  "demo_cfg n p = \<lparr> cfg_name = n, cfg_priority = p, cfg_library_path = n, cfg_enabled = True,
                    cfg_parameters = [] \<rparr>"

definition demo_api :: plugin_api where
  "demo_api = \<lparr> api_supports = (\<lambda>b s. s \<noteq> 9), api_metrics = (\<lambda>b. transport_metrics_new),
                api_zero_copy = (\<lambda>b. False), api_priority = (\<lambda>b. 0) \<rparr>"

definition demo_ops :: "bm_op list" where
  "demo_ops = [OpRegister (demo_cfg ''socket'' 40) (Some (Binding 1 None)),
               OpRegister (demo_cfg ''dds'' 80) (Some (Binding 2 None))]"

lemmas bm_op_defs = RegisterBinding_def UnloadBinding_def LoadBinding_def bm_Shutdown_def
  lock_guard_def store_binding_def store_plugin_def assign_name_def emplace_def drop_ref_def
  held_objs_def load_plugin_def unload_found_def erase_obj_def erase_name_def close_handle_def
  shutdown_all_def emit_def Let_def

definition demo_manager :: binding_manager where
  "demo_manager = bm_new\<lparr>bm_bindings := [(80, Binding 2 None), (40, Binding 1 None)],
     bm_by_name := [(''socket'', Binding 1 None), (''dds'', Binding 2 None)]\<rparr>"

lemma demo_run: "bm_run demo_ops bm_new = Done demo_manager"
  by (simp add: demo_ops_def demo_manager_def bm_op_defs bm_new_def demo_cfg_def)

lemma demo_forced: "forced_binding sid iid demo_manager = None"
  by (simp add: forced_binding_def demo_manager_def bm_new_def)

lemma demo_supporting:
  "supporting demo_api 5 demo_manager = [(80, Binding 2 None), (40, Binding 1 None)]"
  "supporting demo_api 9 demo_manager = []"
  by (simp_all add: supporting_def demo_manager_def demo_api_def)

lemma select_best_binding_witness:
  "bm_run demo_ops bm_new = Done demo_manager \<and>
   SelectBinding demo_api 5 1 demo_manager = Done (Some (Binding 2 None), demo_manager) \<and>
   SelectBinding demo_api 9 1 demo_manager = Done (None, demo_manager)"
proof -
  obtain r where "SelectBinding demo_api 5 1 demo_manager = Done (r, demo_manager)"
    "r = Some (Binding 2 None)"
    using select_best_binding [OF demo_run, of demo_api 5 1]
    by (auto simp: demo_forced demo_supporting)
  moreover obtain q where "SelectBinding demo_api 9 1 demo_manager = Done (q, demo_manager)" "q = None"
    using select_best_binding [OF demo_run, of demo_api 9 1]
    by (auto simp: demo_forced demo_supporting)
  ultimately show ?thesis
    using demo_run by simp
qed

subsection \<open>Loading a configuration\<close>

text \<open>LoadConfiguration takes the mutex before its loop and LoadBinding takes it again when
  a plugin has been initialised, so the call never returns as soon as one enabled entry of the
  file loads completely; it returns only when no entry does, and then nothing is registered.\<close>

lemma load_configuration_deadlocks:
  assumes "\<not> bm_locked m"
    and "parseYamlConfig fs path m = (Inr cs, m1)"
  shows "(LoadConfiguration fs ld path m = Deadlock \<longleftrightarrow>
            (\<exists>c\<in>set cs. cfg_enabled c \<and> plugin_loads ld c)) \<and>
         (LoadConfiguration fs ld path m \<noteq> Deadlock \<longrightarrow>
            (\<exists>m2. LoadConfiguration fs ld path m = Done (Inr (), m2) \<and>
                  bm_bindings m2 = bm_bindings m \<and> bm_by_name m2 = bm_by_name m))"
proof -
  have m1: "\<not> bm_locked m1" "bm_bindings m1 = bm_bindings m" "bm_by_name m1 = bm_by_name m"
    using parse_tables [OF assms(2)] assms(1) by auto
  have l: "bm_locked (bm_locked_update (\<lambda>_. True) m1)"
    by simp
  show ?thesis
    using load_all_held [OF l, of cs ld] m1 assms(2)
    by (auto simp: LoadConfiguration_def lock_guard_def same_tables_def)
qed

definition demo_loader :: "nat list \<Rightarrow> loader" where
  "demo_loader bad = \<lparr> ld_open = (\<lambda>p. Some (length p)), ld_symbol = (\<lambda>h. True),
                       ld_create = (\<lambda>h. True),
                       ld_init = (\<lambda>h. if h \<in> set bad then Some 7 else None) \<rparr>"

definition demo_yaml :: "string \<Rightarrow> yaml_binding" where
  "demo_yaml n = \<lparr> y_name = n, y_library = n, y_enabled = True, y_priority = 80,
                   y_parameters = [] \<rparr>"

definition demo_doc :: "string list \<Rightarrow> yaml_mapping list \<Rightarrow> yaml_file" where
  "demo_doc ns ms = (\<lambda>path. Some \<lparr> y_bindings = map demo_yaml ns, y_static_mappings = ms \<rparr>)"

lemma parse_demo: "parseYamlConfig (demo_doc ns []) p m = (Inr (map (\<lambda>n. demo_cfg n 80) ns), m)"
proof -
  have "parse_bindings (map demo_yaml ns) = Some (map (\<lambda>n. demo_cfg n 80) ns)"
    by (induction ns) (simp_all add: parse_binding_def demo_yaml_def demo_cfg_def)
  then show ?thesis
    by (simp add: parseYamlConfig_def demo_doc_def)
qed

lemma load_configuration_deadlocks_witness:
  "LoadConfiguration (demo_doc [''dds''] []) (demo_loader []) [] bm_new = Deadlock \<and>
   (\<exists>m2. LoadConfiguration (demo_doc [''dds''] []) (demo_loader [3]) [] bm_new = Done (Inr (), m2) \<and>
         bm_by_name m2 = [])"
proof -
  note parsed = parse_demo [of "[''dds'']" "[]" bm_new]
  have free: "\<not> bm_locked bm_new"
    by (simp add: bm_new_def)
  show ?thesis
    using load_configuration_deadlocks [OF free parsed, of "demo_loader []"]
      load_configuration_deadlocks [OF free parsed, of "demo_loader [3]"]
    by (auto simp: plugin_loads_def demo_loader_def demo_cfg_def bm_new_def)
qed

subsection \<open>Reloading a configuration\<close>

lemma reload_unload_by_name:
  "bm_by_name (reload_unload n m) = AList.delete n (bm_by_name m)"
  by (simp add: reload_unload_def Let_def delete_id map_of_eq_None_iff split: option.split)

lemma fold_unload_by_name:
  "map_of (bm_by_name (fold reload_unload ns m)) k =
     (if k \<in> set ns then None else map_of (bm_by_name m) k)"
  by (induction ns arbitrary: m) (auto simp: reload_unload_by_name delete_conv')

lemma reload_load_by_name:
  "bm_by_name (reload_load ld c m) =
     (if cfg_enabled c \<and> map_of (bm_by_name m) (cfg_name c) = None \<and> plugin_loads ld c
      then AList.update (cfg_name c) (Binding (bm_next m) (ld_open ld (cfg_library_path c))) (bm_by_name m)
      else bm_by_name m)"
  by (auto simp: reload_load_def load_plugin_def plugin_loads_def Let_def split: option.splits if_splits)

lemma fold_load_by_name:
  "dom (map_of (bm_by_name (fold (reload_load ld) cs m))) =
     dom (map_of (bm_by_name m)) \<union> cfg_name ` {c \<in> set cs. cfg_enabled c \<and> plugin_loads ld c}"
proof (induction cs arbitrary: m)
  case Nil
  then show ?case
    by simp
next
  case (Cons c cs)
  have "dom (map_of (bm_by_name (reload_load ld c m))) =
          dom (map_of (bm_by_name m)) \<union>
          (if cfg_enabled c \<and> plugin_loads ld c then {cfg_name c} else {})"
    by (auto simp: reload_load_by_name update_conv' split: if_splits)
  then show ?case
    by (auto simp: Cons.IH)
qed

lemma fold_load_keeps:
  "map_of (bm_by_name m) k = Some b \<Longrightarrow> map_of (bm_by_name (fold (reload_load ld) cs m)) k = Some b"
proof (induction cs arbitrary: m)
  case (Cons c cs)
  have "map_of (bm_by_name (reload_load ld c m)) k = Some b"
    using Cons.prems by (auto simp: reload_load_by_name update_conv')
  then show ?case
    using Cons.IH by simp
qed simp

text \<open>C22: when the new file parses, ReloadConfiguration returns success, and the loaded names are
  then exactly the enabled names of the file that were loaded before and the enabled names some
  entry of which loads; a binding that is kept keeps its object.\<close>

theorem reload_converges:
  assumes "\<not> bm_locked m"
    and "parseYamlConfig fs path m = (Inr cs, m1)"
  shows "\<exists>m2. ReloadConfiguration fs ld path m = Done (Inr (), m2) \<and> \<not> bm_locked m2 \<and>
           dom (map_of (bm_by_name m2)) =
             (dom (map_of (bm_by_name m)) \<inter> set (enabled_names cs)) \<union>
             cfg_name ` {c \<in> set cs. cfg_enabled c \<and> plugin_loads ld c} \<and>
           (\<forall>n b. map_of (bm_by_name m) n = Some b \<and> n \<in> set (enabled_names cs) \<longrightarrow>
                  map_of (bm_by_name m2) n = Some b)"
proof -
  have m1: "\<not> bm_locked m1" "bm_by_name m1 = bm_by_name m"
    using parse_tables [OF assms(2)] assms(1) by auto
  define ml where "ml = bm_locked_update (\<lambda>_. True) m1"
  define gone where "gone = filter (\<lambda>n. n \<notin> set (enabled_names cs)) (map fst (bm_by_name ml))"
  have names: "bm_by_name ml = bm_by_name m"
    by (simp add: ml_def m1)
  have kept: "map_of (bm_by_name (fold reload_unload gone ml)) k =
                (if k \<in> set (enabled_names cs) then map_of (bm_by_name m) k else None)" for k
    by (auto simp: fold_unload_by_name names gone_def map_of_eq_None_iff)
  then have d: "dom (map_of (bm_by_name (fold reload_unload gone ml))) =
                  dom (map_of (bm_by_name m)) \<inter> set (enabled_names cs)"
    by (auto split: if_splits)
  have r: "reload_unlocked ld cs ml = fold (reload_load ld) cs (fold reload_unload gone ml)"
    by (simp add: reload_unlocked_def gone_def)
  have "ReloadConfiguration fs ld path m =
          Done (Inr (), bm_locked_update (\<lambda>_. False) (reload_unlocked ld cs ml))"
    using assms(2) m1 by (simp add: ReloadConfiguration_def lock_guard_def ml_def)
  then show ?thesis
    using kept by (auto simp: r fold_load_by_name d intro!: fold_load_keeps)
qed

lemma reload_converges_witness:
  "\<exists>m2. ReloadConfiguration (demo_doc [''dds'', ''tcp''] []) (demo_loader []) [] demo_manager = Done (Inr (), m2) \<and>
        dom (map_of (bm_by_name m2)) = {''dds'', ''tcp''} \<and>
        map_of (bm_by_name m2) ''dds'' = Some (Binding 2 None)"
proof -
  have free: "\<not> bm_locked demo_manager"
    by (simp add: demo_manager_def bm_new_def)
  have names: "map_of (bm_by_name demo_manager) ''dds'' = Some (Binding 2 None)"
    "dom (map_of (bm_by_name demo_manager)) = {''socket'', ''dds''}"
    by (auto simp: demo_manager_def)
  have loads: "{c \<in> set (map (\<lambda>n. demo_cfg n 80) [''dds'', ''tcp'']).
                  cfg_enabled c \<and> plugin_loads (demo_loader []) c} =
               {demo_cfg ''dds'' 80, demo_cfg ''tcp'' 80}"
    by (auto simp: plugin_loads_def demo_loader_def demo_cfg_def)
  have enabled: "set (enabled_names (map (\<lambda>n. demo_cfg n 80) [''dds'', ''tcp''])) = {''dds'', ''tcp''}"
    by (auto simp: enabled_names_def demo_cfg_def)
  have names2: "cfg_name ` {demo_cfg ''dds'' 80, demo_cfg ''tcp'' 80} = {''dds'', ''tcp''}"
    by (simp add: demo_cfg_def)
  obtain m2 where
    r: "ReloadConfiguration (demo_doc [''dds'', ''tcp''] []) (demo_loader []) [] demo_manager = Done (Inr (), m2)"
    and d: "dom (map_of (bm_by_name m2)) =
        dom (map_of (bm_by_name demo_manager)) \<inter> {''dds'', ''tcp''} \<union> {''dds'', ''tcp''}"
    and k: "\<forall>n b. map_of (bm_by_name demo_manager) n = Some b \<and> n \<in> {''dds'', ''tcp''} \<longrightarrow>
                   map_of (bm_by_name m2) n = Some b"
    using reload_converges [OF free parse_demo [of "[''dds'', ''tcp'']" "[]" demo_manager], of "demo_loader []"]
    unfolding loads enabled names2 by (elim exE conjE) (rule that)
  have "map_of (bm_by_name m2) ''dds'' = Some (Binding 2 None)"
    using k names(1) by simp
  moreover have "dom (map_of (bm_by_name m2)) = {''dds'', ''tcp''}"
    using d by blast
  ultimately show ?thesis
    using r by blast
qed

lemma find_append:
  "findStaticMapping sid iid (xs @ ys) =
     (case findStaticMapping sid iid xs of None \<Rightarrow> findStaticMapping sid iid ys | Some n \<Rightarrow> Some n)"
  by (induction xs) auto

lemma reload_load_mappings [simp]: "bm_mappings (reload_load ld c m) = bm_mappings m"
  by (auto simp: reload_load_def dest: load_plugin_tables
           simp: same_tables_def split: prod.splits sum.splits)

lemma reload_unload_mappings [simp]: "bm_mappings (reload_unload n m) = bm_mappings m"
  by (simp add: reload_unload_def Let_def split: option.split)

lemma reload_mappings: "bm_mappings (reload_unlocked ld cs m) = bm_mappings m"
proof -
  have "bm_mappings (fold reload_unload ns m) = bm_mappings m" for ns m
    by (induction ns arbitrary: m) simp_all
  moreover have "bm_mappings (fold (reload_load ld) cs m) = bm_mappings m" for m
    by (induction cs arbitrary: m) simp_all
  ultimately show ?thesis
    by (simp add: reload_unlocked_def)
qed

text \<open>a reload cannot change or withdraw the static mapping of a service: the mappings of the
  new file are appended to the old ones, so the binding name found for a service before is still
  the one found after, whatever the new file says and whether or not it parses.\<close>

lemma reload_keeps_old_mapping:
  assumes "ReloadConfiguration fs ld path m = Done (r, m2)"
    and "findStaticMapping sid iid (bm_mappings m) = Some n"
  shows "findStaticMapping sid iid (bm_mappings m2) = Some n"
proof (cases "parseYamlConfig fs path m")
  case (Pair q m1)
  obtain xs where "m1 = m\<lparr>bm_mappings := bm_mappings m @ xs\<rparr>"
    using parse_tables [OF Pair] by blast
  then have "findStaticMapping sid iid (bm_mappings m1) = Some n"
    using assms(2) by (simp add: find_append)
  moreover have "bm_mappings m2 = bm_mappings m1"
    using assms(1) Pair
    by (auto simp: ReloadConfiguration_def lock_guard_def reload_mappings split: sum.splits if_splits)
  ultimately show ?thesis
    by simp
qed

definition demo_mapped :: binding_manager where
  "demo_mapped = bm_new\<lparr>bm_mappings := [\<lparr> map_service_id = 26, map_instance_id = 0, map_binding_name = ''dds'' \<rparr>]\<rparr>"

definition demo_remap :: yaml_mapping where
  "demo_remap = \<lparr> y_service_id = ''0x1A'', y_instance_id = None, y_binding = ''socket'' \<rparr>"

lemma parse_0x1A: "parse_id ''0x1A'' = Some 26"
  by (simp add: parse_id_def has_0x_def stoull_def is_space_def is_digit_def digit_val_def Let_def)

lemma reload_keeps_old_mapping_witness:
  "\<exists>m2. ReloadConfiguration (demo_doc [] [demo_remap]) (demo_loader []) [] demo_mapped = Done (Inr (), m2) \<and>
        map map_binding_name (bm_mappings m2) = [''dds'', ''socket''] \<and>
        findStaticMapping 26 3 (bm_mappings m2) = Some ''dds''"
proof -
  have parsed: "parseYamlConfig (demo_doc [] [demo_remap]) [] demo_mapped =
      (Inr [], demo_mapped\<lparr>bm_mappings := bm_mappings demo_mapped @
         [\<lparr> map_service_id = 26, map_instance_id = 0, map_binding_name = ''socket'' \<rparr>]\<rparr>)"
    by (simp add: parseYamlConfig_def demo_doc_def parse_mapping_def demo_remap_def parse_0x1A)
  define m2 where "m2 = bm_locked_update (\<lambda>_. False)
    (reload_unlocked (demo_loader []) [] (bm_locked_update (\<lambda>_. True) (demo_mapped\<lparr>bm_mappings :=
       bm_mappings demo_mapped @
         [\<lparr> map_service_id = 26, map_instance_id = 0, map_binding_name = ''socket'' \<rparr>]\<rparr>)))"
  have r: "ReloadConfiguration (demo_doc [] [demo_remap]) (demo_loader []) [] demo_mapped = Done (Inr (), m2)"
    unfolding ReloadConfiguration_def parsed
    by (simp add: lock_guard_def m2_def demo_mapped_def bm_new_def)
  have "findStaticMapping 26 3 (bm_mappings demo_mapped) = Some ''dds''"
    by (simp add: demo_mapped_def)
  from reload_keeps_old_mapping [OF r this] r show ?thesis
    by (simp add: m2_def reload_mappings demo_mapped_def)
qed

subsection \<open>Objects and the libraries they live in\<close>

text \<open>The objects that are destroyed when their library is no longer mapped; the list holds the
  mapped libraries, once per \<open>dlopen\<close>.\<close>

fun unsafe_destroys :: "nat list \<Rightarrow> bm_event list \<Rightarrow> binding_obj list" where
  "unsafe_destroys ls [] = []"
| "unsafe_destroys ls (EvOpen h # es) = unsafe_destroys (h # ls) es"
| "unsafe_destroys ls (EvClose h # es) = unsafe_destroys (remove1 h ls) es"
| "unsafe_destroys ls (EvDestroy b # es) =
     (case blib b of
        None \<Rightarrow> unsafe_destroys ls es
      | Some h \<Rightarrow> if h \<in> set ls then unsafe_destroys ls es else b # unsafe_destroys ls es)"
| "unsafe_destroys ls (e # es) = unsafe_destroys ls es"

fun outcome_trace :: "binding_manager outcome \<Rightarrow> bm_event list" where
  "outcome_trace (Done m) = bm_trace m"
| "outcome_trace Deadlock = []"

definition loaded_one :: "binding_config \<Rightarrow> nat \<Rightarrow> binding_manager" where
  "loaded_one c h =
     bm_new\<lparr>bm_bindings := [(cfg_priority c, Binding 0 (Some h))],
            bm_by_name := [(cfg_name c, Binding 0 (Some h))],
            bm_handles := [(cfg_name c, h)], bm_next := 1,
            bm_trace := [EvOpen h, EvInit (Binding 0 (Some h))]\<rparr>"

lemma run_load_one:
  assumes "ld_open ld (cfg_library_path c) = Some h" "plugin_loads ld c"
  shows "LoadBinding ld c bm_new = Done (Inr (), loaded_one c h)"
  using assms by (simp add: plugin_loads_def bm_op_defs bm_new_def loaded_one_def)

lemma load_init_fails:
  assumes "ld_open ld (cfg_library_path c) = Some h" "ld_symbol ld h" "ld_create ld h"
    "ld_init ld h = Some e"
  shows "LoadBinding ld c bm_new =
           Done (Inl (Plugin e), bm_new\<lparr>bm_next := 1, bm_trace := [EvOpen h, EvInit (Binding 0 (Some h)),
             EvClose h, EvDestroy (Binding 0 (Some h))]\<rparr>)"
  using assms by (simp add: bm_op_defs bm_new_def)

text \<open>a plugin that was loaded and is unloaded by name is destroyed while its library is
  mapped; a manager that is shut down with the plugin loaded, and a load whose Initialize fails,
  run the destructor of the plugin's object after dlclose of the library that contains it.\<close>

lemma plugin_outlives_library:
  assumes "ld_open ld (cfg_library_path c) = Some h" "ld_symbol ld h" "ld_create ld h"
  shows "(ld_init ld h = None \<longrightarrow>
            unsafe_destroys [] (outcome_trace (bm_run [OpLoad ld c, OpUnload (cfg_name c)] bm_new)) = [] \<and>
            unsafe_destroys [] (outcome_trace (bm_run [OpLoad ld c, OpShutdown] bm_new)) =
              [Binding 0 (Some h)]) \<and>
         (\<forall>e. ld_init ld h = Some e \<longrightarrow>
            LoadBinding ld c bm_new \<noteq> Deadlock \<and>
            unsafe_destroys [] (outcome_trace (bm_run [OpLoad ld c] bm_new)) = [Binding 0 (Some h)])"
proof (intro conjI allI impI)
  assume ok: "ld_init ld h = None"
  have l: "LoadBinding ld c bm_new = Done (Inr (), loaded_one c h)"
    using run_load_one [OF assms(1)] assms ok by (simp add: plugin_loads_def)
  show "unsafe_destroys [] (outcome_trace (bm_run [OpLoad ld c, OpUnload (cfg_name c)] bm_new)) = []"
    by (simp add: l, simp add: loaded_one_def bm_op_defs bm_new_def)
  show "unsafe_destroys [] (outcome_trace (bm_run [OpLoad ld c, OpShutdown] bm_new)) = [Binding 0 (Some h)]"
    by (simp add: l, simp add: loaded_one_def bm_op_defs bm_new_def)
next
  fix e assume e: "ld_init ld h = Some e"
  show "LoadBinding ld c bm_new \<noteq> Deadlock"
    by (simp add: load_init_fails [OF assms e])
  show "unsafe_destroys [] (outcome_trace (bm_run [OpLoad ld c] bm_new)) = [Binding 0 (Some h)]"
    by (simp add: load_init_fails [OF assms e])
qed

lemma plugin_outlives_library_witness:
  "unsafe_destroys [] (outcome_trace (bm_run
      [OpLoad (demo_loader []) (demo_cfg ''dds'' 80), OpShutdown] bm_new)) = [Binding 0 (Some 3)] \<and>
   unsafe_destroys [] (outcome_trace (bm_run
      [OpLoad (demo_loader [3]) (demo_cfg ''dds'' 80)] bm_new)) = [Binding 0 (Some 3)]"
  using plugin_outlives_library [of "demo_loader []" "demo_cfg ''dds'' 80" 3]
    plugin_outlives_library [of "demo_loader [3]" "demo_cfg ''dds'' 80" 3]
  by (simp add: demo_loader_def demo_cfg_def del: bm_run.simps)

text \<open>registering a second object under the name of a loaded plugin hides the first one
  without removing it: unloading the name shuts down the second object, closes the library of the
  first and leaves the first one, never shut down, where SelectBinding still finds it.\<close>

lemma shadowed_plugin_left_behind:
  assumes "bm_inv m" "map_of (bm_by_name m) (cfg_name c) = Some b"
    and "(p, b) \<in> set (bm_bindings m)" "map_of (bm_handles m) (cfg_name c) = Some h" "b2 \<noteq> b"
  shows "\<exists>m2 es. bm_run [OpRegister c (Some b2), OpUnload (cfg_name c)] m = Done m2 \<and>
           (p, b) \<in> set (bm_bindings m2) \<and>
           map_of (bm_by_name m2) (cfg_name c) = None \<and>
           bm_trace m2 = bm_trace m @ es \<and>
           EvShutdown b2 \<in> set es \<and> EvClose h \<in> set es \<and> EvShutdown b \<notin> set es \<and> EvDestroy b \<notin> set es"
proof -
  define ml where "ml = bm_locked_update (\<lambda>_. True) m"
  define m1 where "m1 = store_binding c b2 ml"
  have un: "\<not> bm_locked m"
    using assms(1) by (simp add: bm_inv_def)
  have reg: "RegisterBinding c (Some b2) m = Done (Inr (), bm_locked_update (\<lambda>_. False) m1)"
    using un by (simp add: RegisterBinding_def lock_guard_def m1_def ml_def)
  have ranked: "(p, b) \<in> set (emplace (cfg_priority c) b2 (bm_bindings m))"
    by (simp add: set_emplace assms(3))
  then have "b \<in> snd ` set (emplace (cfg_priority c) b2 (bm_bindings m))"
    by force
  then have m1: "bm_bindings m1 = emplace (cfg_priority c) b2 (bm_bindings m)"
    "bm_by_name m1 = AList.update (cfg_name c) b2 (bm_by_name m)"
    "bm_handles m1 = bm_handles m" "bm_trace m1 = bm_trace m"
    using assms(2)
    by (simp_all add: m1_def ml_def store_binding_def assign_name_def Let_def drop_ref_def held_objs_def)
  define mu where "mu = unload_found (cfg_name c) b2 (bm_locked_update (\<lambda>_. True) m1)"
  have unl: "UnloadBinding (cfg_name c) (bm_locked_update (\<lambda>_. False) m1) =
               Done (Inr (), bm_locked_update (\<lambda>_. False) mu)"
    by (simp add: UnloadBinding_def lock_guard_def mu_def m1 update_conv')
  have keep: "(p, b) \<in> set (bm_bindings mu)"
    using ranked assms(5) by (simp add: mu_def unload_found_def Let_def m1 erase_obj_def)
  have gone: "map_of (bm_by_name mu) (cfg_name c) = None"
    by (simp add: mu_def unload_found_def Let_def m1 delete_conv')
  have trace: "bm_trace mu = bm_trace m @ [EvShutdown b2] @
       (if b2 \<in> set (held_objs (m1\<lparr>bm_bindings := erase_obj b2 (bm_bindings m1),
                                   bm_by_name := AList.delete (cfg_name c) (bm_by_name m1)\<rparr>))
        then [] else [EvDestroy b2]) @ [EvClose h]"
    using assms(4)
    by (simp add: mu_def unload_found_def Let_def close_handle_def m1 erase_name_def drop_ref_def held_objs_def)
  show ?thesis
    using keep gone trace assms(5) by (auto simp: reg unl)
qed

lemma shadowed_plugin_left_behind_witness:
  "\<exists>m2 es. bm_run [OpRegister (demo_cfg ''dds'' 40) (Some (Binding 9 None)), OpUnload ''dds'']
              (loaded_one (demo_cfg ''dds'' 80) 3) = Done m2 \<and>
           (80, Binding 0 (Some 3)) \<in> set (bm_bindings m2) \<and> EvClose 3 \<in> set es \<and>
           bm_trace m2 = bm_trace (loaded_one (demo_cfg ''dds'' 80) 3) @ es"
  using shadowed_plugin_left_behind [of "loaded_one (demo_cfg ''dds'' 80) 3" "demo_cfg ''dds'' 40"
      "Binding 0 (Some 3)" 80 3 "Binding 9 None"]
  by (auto simp: bm_inv_def bm_ranked_def loaded_one_def demo_cfg_def bm_new_def simp del: bm_run.simps)

subsection \<open>Health\<close>

lemma health_share_small:
  assumes "d \<le> t" "0 < t"
  shows "of_nat (t - d) / of_nat t * 100 = (100 * (of_nat t - of_nat d) / of_nat t :: rat)"
    and "95 \<le> (of_nat (t - d) / of_nat t * 100 :: rat) \<longleftrightarrow> 20 * d \<le> t"
proof -
  have pos: "0 < (of_nat t :: rat)"
    using assms(2) by simp
  show eq: "of_nat (t - d) / of_nat t * 100 = (100 * (of_nat t - of_nat d) / of_nat t :: rat)"
    using assms(1) by (simp add: of_nat_diff)
  have "95 \<le> (of_nat (t - d) / of_nat t * 100 :: rat) \<longleftrightarrow>
          95 * of_nat t \<le> (100 * (of_nat t - of_nat d) :: rat)"
    unfolding eq using pos by (simp add: pos_le_divide_eq)
  also have "\<dots> \<longleftrightarrow> (of_nat (20 * d) :: rat) \<le> of_nat t"
    by simp
  also have "\<dots> \<longleftrightarrow> 20 * d \<le> t"
    by (rule of_nat_le_iff)
  finally show "95 \<le> (of_nat (t - d) / of_nat t * 100 :: rat) \<longleftrightarrow> 20 * d \<le> t" .
qed

lemma health_share_big:
  assumes "t < d" "d \<le> 2 ^ 63" "0 < t"
  shows "100 < (of_nat (t + 2 ^ 64 - d) / of_nat t * 100 :: rat)"
proof -
  have "t < t + 2 ^ 64 - d"
    using assms by simp
  then have "(of_nat t :: rat) < of_nat (t + 2 ^ 64 - d)"
    by (simp only: of_nat_less_iff)
  moreover have "0 < (of_nat t :: rat)"
    using assms(3) by simp
  ultimately show ?thesis
    by (simp add: pos_less_divide_eq)
qed

text \<open>with no more dropped messages than messages, the reported availability is the share of
  messages that got through, and a binding is healthy exactly when that share is at least 95
  percent and it has no time-outs or fewer than ten errors.  When more messages were dropped than
  sent and received, the subtraction wraps and the availability exceeds 100 percent, so a binding
  without time-outs is reported healthy.\<close>

lemma health_by_availability:
  assumes "messages_sent k + messages_received k = msgs" "0 < msgs"
  shows "(messages_dropped k \<le> msgs \<longrightarrow>
            availability_percent (calculate_health k) =
              100 * (of_nat (unat msgs) - of_nat (unat (messages_dropped k))) / of_nat (unat msgs) \<and>
            (is_healthy (calculate_health k) \<longleftrightarrow>
               20 * unat (messages_dropped k) \<le> unat msgs \<and>
               (timeout_errors k = 0 \<or> serialization_errors k + timeout_errors k < 10))) \<and>
         (msgs < messages_dropped k \<and> unat (messages_dropped k) \<le> 2 ^ 63 \<longrightarrow>
            100 < availability_percent (calculate_health k) \<and>
            (timeout_errors k = 0 \<longrightarrow> is_healthy (calculate_health k)))"
proof -
  define t d where td: "t = unat msgs" "d = unat (messages_dropped k)"
  have t: "0 < t"
    using assms(2) by (simp add: td word_less_nat_alt)
  define av :: rat where "av = of_nat (unat (msgs - messages_dropped k)) / of_nat t * 100"
  have av: "availability_percent (calculate_health k) = av"
    using assms by (simp add: calculate_health_def Let_def av_def td)
  have cons: "consecutive_errors (calculate_health k) < MAX_CONSECUTIVE_ERRORS \<longleftrightarrow>
      timeout_errors k = 0 \<or> serialization_errors k + timeout_errors k < 10"
  proof (cases "timeout_errors k = 0")
    case False
    then have "0 < timeout_errors k"
      by (simp only: word_gt_0 not_False_eq_True)
    then have "consecutive_errors (calculate_health k) =
        min (serialization_errors k + timeout_errors k) 10"
      by (simp add: calculate_health_def Let_def)
    then show ?thesis
      using False by (simp add: MAX_CONSECUTIVE_ERRORS_def min_less_iff_disj)
  qed (simp add: calculate_health_def Let_def MAX_CONSECUTIVE_ERRORS_def)
  have ok: "is_healthy (calculate_health k) \<longleftrightarrow>
      (timeout_errors k = 0 \<or> serialization_errors k + timeout_errors k < 10) \<and> 95 \<le> av"
    unfolding cons [symmetric] av [symmetric]
    by (simp add: calculate_health_def Let_def MIN_AVAILABILITY_PERCENT_def)
  have small: "availability_percent (calculate_health k) = 100 * (of_nat t - of_nat d) / of_nat t \<and>
      (95 \<le> av \<longleftrightarrow> 20 * d \<le> t)" if "d \<le> t"
    using health_share_small [OF that t] that
    by (simp add: av av_def td unat_sub_if' word_le_nat_alt)
  have big: "100 < av" if "t < d" "d \<le> 2 ^ 63"
    using health_share_big [OF that t] that
    by (simp add: av_def td unat_sub_if')
  show ?thesis
    using small big ok av by (auto simp: td word_le_nat_alt word_less_nat_alt)
qed

definition demo_metrics :: "u64 \<Rightarrow> u64 \<Rightarrow> transport_metrics" where
  "demo_metrics s d = transport_metrics_new\<lparr>messages_sent := s, messages_dropped := d\<rparr>"

lemma health_by_availability_witness:
  "is_healthy (calculate_health (demo_metrics 100 3)) \<and>
   \<not> is_healthy (calculate_health (demo_metrics 100 6)) \<and>
   is_healthy (calculate_health (demo_metrics 1 2))"
  using health_by_availability [of "demo_metrics 100 3" 100]
    health_by_availability [of "demo_metrics 100 6" 100]
    health_by_availability [of "demo_metrics 1 2" 1]
  by (simp add: demo_metrics_def transport_metrics_new_def)

end
