(* ===== verification/RegistryServer.thy ===== *)
theory RegistryServer
  imports SingleRegistry
begin

text \<open>
  registry/inc/RegistryInitializer.hpp, registry/src/RegistryInitializer.cpp and
  daemon/lap-registry-init.cpp: the daemon that creates the memory of a registry, listens on a Unix
  domain socket and passes the descriptor to the clients.  Descriptors and mappings are the
  \<open>os_state\<close> of the registry; the socket files are a set of paths; what the system calls return is
  an argument.  The accept loop runs over the events of the server while it sits in \<open>accept\<close>: the
  call returns a client, it fails, or another thread (or a signal) calls \<open>Shutdown\<close>.  A list of
  events that ends while the loop still waits is the outcome \<open>None\<close>: the server has not returned.
\<close>

subsection \<open>State\<close>

record registry_initializer =
  ri_type :: registry_type
  ri_socket_path :: string
  ri_memfd :: int
  ri_socket_fd :: int
  ri_slots :: "service_slot list option"
  ri_running :: bool

record server_os =
  sos_os :: os_state
  sos_files :: "string set"

definition RI_new :: "registry_type \<Rightarrow> string \<Rightarrow> registry_initializer" where
  "RI_new type path =
     \<lparr> ri_type = type, ri_socket_path = path, ri_memfd = -1, ri_socket_fd = -1, ri_slots = None,
       ri_running = False \<rparr>"

definition on_os :: "(os_state \<Rightarrow> os_state) \<Rightarrow> server_os \<Rightarrow> server_os" where
  "on_os f d = d\<lparr>sos_os := f (sos_os d)\<rparr>"

text \<open>What the kernel answers to \<open>createSocket\<close>; a bind that succeeds creates the socket file.\<close>

record listen_env =
  sock_ret :: int
  bind_ret :: int
  chmod_ret :: int
  listen_ret :: int

subsection \<open>Memory\<close>

text \<open>The slots are constructed in place, whatever the mapping held.\<close>

definition construct_slots :: "service_slot list \<Rightarrow> service_slot list" where
  "construct_slots l = map (\<lambda>i. empty_slot) [0..<MAX_SLOTS] @ drop MAX_SLOTS l"

definition createMemfd ::
  "memfd_env \<Rightarrow> registry_initializer \<Rightarrow> server_os \<Rightarrow> unit result \<times> registry_initializer \<times> server_os" where
  "createMemfd env r d =
     (let fd = memfd_ret env in
      if fd < 0 then (Err kMemfdCreateFailed, r\<lparr>ri_memfd := fd\<rparr>, d)
      else
        let d1 = on_os (os_open fd) d in
        if truncate_ret env \<noteq> 0
        then (Err kSharedMemoryResizeFailed, r\<lparr>ri_memfd := -1\<rparr>, on_os (os_close fd) d1)
        else
          (case mmap_ret env of
             None \<Rightarrow> (Err kSharedMemoryMappingFailed, r\<lparr>ri_memfd := -1\<rparr>, on_os (os_close fd) d1)
           | Some l \<Rightarrow>
               (Ok (), r\<lparr>ri_memfd := fd, ri_slots := Some (construct_slots l)\<rparr>, on_os os_map d1)))"

definition RI_Initialize ::
  "memfd_env \<Rightarrow> registry_initializer \<Rightarrow> server_os \<Rightarrow> unit result \<times> registry_initializer \<times> server_os" where
  "RI_Initialize env r d =
     (case createMemfd env r d of
        (Inl e, r1, d1) \<Rightarrow> (Inl e, r1, d1)
      | (Inr _, r1, d1) \<Rightarrow> (Ok (), r1, d1))"

subsection \<open>Socket\<close>

definition createSocket ::
  "listen_env \<Rightarrow> bool \<Rightarrow> registry_initializer \<Rightarrow> server_os \<Rightarrow>
   unit result \<times> registry_initializer \<times> server_os" where
  "createSocket env use_systemd_socket r d =
     (let fd = sock_ret env; path = ri_socket_path r in
      if fd < 0 then (Err kSocketCreationFailed, r\<lparr>ri_socket_fd := fd\<rparr>, d)
      else
        let d1 = on_os (os_open fd) d; d2 = d1\<lparr>sos_files := sos_files d1 - {path}\<rparr> in
        if bind_ret env \<noteq> 0
        then (Err kSocketBindFailed, r\<lparr>ri_socket_fd := -1\<rparr>, on_os (os_close fd) d2)
        else
          let d3 = d2\<lparr>sos_files := insert path (sos_files d2)\<rparr> in
          if listen_ret env \<noteq> 0
          then (Err kSocketListenFailed, r\<lparr>ri_socket_fd := -1\<rparr>, on_os (os_close fd) d3)
          else (Ok (), r\<lparr>ri_socket_fd := fd\<rparr>, d3))"

definition socket_mode :: "registry_initializer \<Rightarrow> nat" where
  "socket_mode r = (if ri_type r = QM then 6*64 + 6*8 + 6 else 6*64 + 4*8)"

definition RI_Shutdown :: "registry_initializer \<Rightarrow> registry_initializer" where
  "RI_Shutdown r = r\<lparr>ri_running := False\<rparr>"

text \<open>The message to a client: one byte and a control message (level, type, descriptor), sent over
  the client's descriptor; \<open>sent\<close> is the result of \<open>sendmsg\<close>.\<close>

record fd_message =
  fm_payload :: char
  fm_cmsg :: "int \<times> int \<times> int"

definition sendMemfdToClient ::
  "bool \<Rightarrow> int \<Rightarrow> registry_initializer \<Rightarrow> unit result \<times> fd_message option" where
  "sendMemfdToClient has_header sent r =
     (if \<not> has_header then (Err kFdPassingFailed, None)
      else
        let msg = \<lparr> fm_payload = CHR ''R'', fm_cmsg = (SOL_SOCKET, SCM_RIGHTS, ri_memfd r) \<rparr> in
        if sent \<le> 0 then (Err kFdPassingFailed, None) else (Ok (), Some msg))"

definition handleClient ::
  "bool \<Rightarrow> int \<Rightarrow> registry_initializer \<Rightarrow> unit result \<times> fd_message option" where
  "handleClient has_header sent r = sendMemfdToClient has_header sent r"

datatype server_event =
    ClientConnects int bool int
  | AcceptFails
  | ShutdownCalled

text \<open>The loop of \<open>Run\<close> from a blocked \<open>accept\<close> on, with the clients served and what each received.\<close>

fun accept_loop ::
  "server_event list \<Rightarrow> registry_initializer \<Rightarrow> server_os \<Rightarrow> u64 \<Rightarrow> (int \<times> fd_message) list \<Rightarrow>
   (registry_initializer \<times> server_os \<times> u64 \<times> (int \<times> fd_message) list) option" where
  "accept_loop [] r d n log = None"
| "accept_loop (ShutdownCalled # es) r d n log = accept_loop es (RI_Shutdown r) d n log"
| "accept_loop (AcceptFails # es) r d n log =
     (if ri_running r then accept_loop es r d n log else Some (r, d, n, log))"
| "accept_loop (ClientConnects fd has_header sent # es) r d n log =
     (let d1 = on_os (os_open fd) d;
          log1 = (case snd (handleClient has_header sent r) of
                    Some msg \<Rightarrow> log @ [(fd, msg)]
                  | None \<Rightarrow> log);
          d2 = on_os (os_close fd) d1
      in if ri_running r then accept_loop es r d2 (n + 1) log1 else Some (r, d2, n + 1, log1))"

definition RI_Run ::
  "listen_env \<Rightarrow> server_event list \<Rightarrow> registry_initializer \<Rightarrow> server_os \<Rightarrow>
   (unit result \<times> registry_initializer \<times> server_os \<times> (int \<times> fd_message) list) option" where
  "RI_Run env es r d =
     (case createSocket env False r d of
        (Inl e, r1, d1) \<Rightarrow> Some (Inl e, r1, d1, [])
      | (Inr _, r1, d1) \<Rightarrow>
          (case accept_loop es (r1\<lparr>ri_running := True\<rparr>) d1 0 [] of
             None \<Rightarrow> None
           | Some (r2, d2, n, log) \<Rightarrow> Some (Ok (), r2, d2, log)))"

definition RI_destroy :: "registry_initializer \<Rightarrow> server_os \<Rightarrow> registry_initializer \<times> server_os" where
  "RI_destroy r d =
     (let r1 = RI_Shutdown r;
          (r2, d2) = (if ri_slots r1 \<noteq> None then (r1\<lparr>ri_slots := None\<rparr>, on_os os_unmap d) else (r1, d));
          (r3, d3) = (if ri_memfd r2 \<ge> 0
                      then (r2\<lparr>ri_memfd := -1\<rparr>, on_os (os_close (ri_memfd r2)) d2) else (r2, d2))
      in if ri_socket_fd r3 \<ge> 0
         then (r3\<lparr>ri_socket_fd := -1\<rparr>,
               (on_os (os_close (ri_socket_fd r3)) d3)
                 \<lparr>sos_files := sos_files d3 - {ri_socket_path r3}\<rparr>)
         else (r3, d3))"

subsection \<open>The daemon\<close>

record daemon_config =
  dc_type :: registry_type
  dc_socket_path :: string

definition daemon_config_new :: daemon_config where
  "daemon_config_new = \<lparr> dc_type = QM, dc_socket_path = ''/run/lap/registry_qm.sock'' \<rparr>"

text \<open>The arguments after the program's name; \<open>None\<close> is the result false.\<close>

fun parse_args :: "string list \<Rightarrow> daemon_config \<Rightarrow> daemon_config option" where
  "parse_args [] c = Some c"
| "parse_args (arg # args) c =
     (if take 7 arg = ''--type=''
      then (if drop 7 arg = ''qm'' then parse_args args (c\<lparr>dc_type := QM\<rparr>)
            else if drop 7 arg = ''asil'' then parse_args args (c\<lparr>dc_type := ASIL\<rparr>)
            else None)
      else if take 9 arg = ''--socket='' then parse_args args (c\<lparr>dc_socket_path := drop 9 arg\<rparr>)
      else None)"

text \<open>\<open>signal_handler\<close> with the global initializer, if it is set: SIGINT is 2, SIGTERM 15.\<close>

definition signal_handler ::
  "int \<Rightarrow> bool \<times> registry_initializer option \<Rightarrow> bool \<times> registry_initializer option" where
  "signal_handler sig g =
     (if sig = 2 \<or> sig = 15 then (True, map_option RI_Shutdown (snd g)) else g)"

text \<open>\<open>main\<close>: the exit status, with the signals that arrive before \<open>Run\<close> stores \<open>running_\<close>.  The
  destructor runs on every path after the initializer exists.\<close>

definition daemon_main ::
  "string list \<Rightarrow> memfd_env \<Rightarrow> int list \<Rightarrow> listen_env \<Rightarrow> server_event list \<Rightarrow> server_os \<Rightarrow>
   (int \<times> server_os \<times> (int \<times> fd_message) list) option" where
  "daemon_main args menv early lenv es d =
     (case parse_args args daemon_config_new of
        None \<Rightarrow> Some (1, d, [])
      | Some c \<Rightarrow>
          (case RI_Initialize menv (RI_new (dc_type c) (dc_socket_path c)) d of
             (Inl _, r1, d1) \<Rightarrow> Some (1, snd (RI_destroy r1 d1), [])
           | (Inr _, r1, d1) \<Rightarrow>
               (case snd (fold signal_handler early (False, Some r1)) of
                  None \<Rightarrow> None
                | Some r2 \<Rightarrow>
                    (case RI_Run lenv es r2 d1 of
                       None \<Rightarrow> None
                     | Some (Inl _, r3, d3, log) \<Rightarrow> Some (1, snd (RI_destroy r3 d3), log)
                     | Some (Inr _, r3, d3, log) \<Rightarrow> Some (0, snd (RI_destroy r3 d3), log)))))"

subsection \<open>When the server returns\<close>

text \<open>Some call of \<open>Shutdown\<close> is followed by another event of the loop, which is when \<open>accept\<close>
  returns and the flag is read.\<close>

definition stopped_by :: "server_event list \<Rightarrow> bool" where
  "stopped_by es \<longleftrightarrow>
     (\<exists>pre post. es = pre @ ShutdownCalled # post \<and> (\<exists>e\<in>set post. e \<noteq> ShutdownCalled))"

lemma stopped_by_Cons:
  "stopped_by (e # es) \<longleftrightarrow>
     (if e = ShutdownCalled then \<exists>e'\<in>set es. e' \<noteq> ShutdownCalled else stopped_by es)"
proof (cases "e = ShutdownCalled")
  case True
  have "\<exists>e'\<in>set es. e' \<noteq> ShutdownCalled" if "stopped_by (e # es)"
    using that by (auto simp: stopped_by_def Cons_eq_append_conv)
  moreover have "stopped_by (e # es)" if "\<exists>e'\<in>set es. e' \<noteq> ShutdownCalled"
    using that True unfolding stopped_by_def by (metis append_Nil)
  ultimately show ?thesis using True by auto
next
  case False
  then show ?thesis
    unfolding stopped_by_def by (auto simp: Cons_eq_append_conv)
qed

lemma accept_loop_None:
  "accept_loop es r d n log = None \<longleftrightarrow>
     \<not> (if ri_running r then stopped_by es else \<exists>e\<in>set es. e \<noteq> ShutdownCalled)"
  by (induction es r d n log rule: accept_loop.induct)
    (auto simp: stopped_by_Cons RI_Shutdown_def Let_def stopped_by_def [of "[]"])


subsection \<open>Resources\<close>

text \<open>The descriptors the kernel returns are not open when it returns them.\<close>

definition fds_fresh ::
  "memfd_env \<Rightarrow> listen_env \<Rightarrow> server_event list \<Rightarrow> server_os \<Rightarrow> bool" where
  "fds_fresh menv lenv es d \<longleftrightarrow>
     memfd_ret menv \<notin> open_fds (sos_os d) \<and>
     sock_ret lenv \<notin> insert (memfd_ret menv) (open_fds (sos_os d)) \<and>
     (\<forall>e\<in>set es. case e of
        ClientConnects fd h s \<Rightarrow> fd \<notin> {memfd_ret menv, sock_ret lenv} \<union> open_fds (sos_os d)
      | _ \<Rightarrow> True)"

lemma on_os_simps [simp]:
  "sos_os (on_os f d) = f (sos_os d)" "sos_files (on_os f d) = sos_files d"
  by (simp_all add: on_os_def)

lemma close_opened: "fd \<notin> open_fds os \<Longrightarrow> os_close fd (os_open fd os) = os"
  by (cases os) (simp add: os_close_def os_open_def)

lemma accept_loop_frame:
  assumes "accept_loop es r d n log = Some (r', d', n', log')"
    and "\<forall>e\<in>set es. case e of ClientConnects fd h s \<Rightarrow> fd \<notin> open_fds (sos_os d) | _ \<Rightarrow> True"
  shows "d' = d \<and> r' = r\<lparr>ri_running := ri_running r'\<rparr> \<and>
    (\<forall>(fd, msg)\<in>set log'. (fd, msg) \<in> set log \<or> fm_cmsg msg = (SOL_SOCKET, SCM_RIGHTS, ri_memfd r))"
  using assms
proof (induction es r d n log rule: accept_loop.induct)
  case (4 fd h s es r d n log)
  have d: "on_os (os_close fd) (on_os (os_open fd) d) = d"
    using "4.prems"(2) by (cases d) (simp add: on_os_def close_opened)
  let ?log = "case snd (handleClient h s r) of Some msg \<Rightarrow> log @ [(fd, msg)] | None \<Rightarrow> log"
  have log: "\<forall>(fd, msg)\<in>set ?log. (fd, msg) \<in> set log \<or> fm_cmsg msg = (SOL_SOCKET, SCM_RIGHTS, ri_memfd r)"
    by (auto simp: handleClient_def sendMemfdToClient_def Let_def)
  show ?case
  proof (cases "ri_running r")
    case True
    then have run: "accept_loop es r d (n + 1) ?log = Some (r', d', n', log')"
      using "4.prems"(1) by (simp add: Let_def d)
    have "d' = d \<and> r' = r\<lparr>ri_running := ri_running r'\<rparr> \<and>
        (\<forall>(fd, msg)\<in>set log'. (fd, msg) \<in> set ?log \<or> fm_cmsg msg = (SOL_SOCKET, SCM_RIGHTS, ri_memfd r))"
      by (rule "4.IH" [OF refl refl refl True, unfolded d]) (use run "4.prems"(2) in simp_all)
    then show ?thesis using log by fast
  next
    case False
    then have "r' = r" "d' = d" "log' = ?log" using "4.prems"(1) by (auto simp: Let_def d)
    then show ?thesis using log by simp
  qed
qed (auto simp: RI_Shutdown_def split: if_splits)

lemma RI_Initialize_cases:
  assumes "RI_Initialize env (RI_new t path) d = (res, r, d1)" "memfd_ret env \<notin> open_fds (sos_os d)"
  shows "(\<exists>e. res = Inl e) \<and> ri_slots r = None \<and> ri_memfd r < 0 \<and> ri_socket_fd r < 0 \<and> d1 = d \<or>
    (\<exists>l. res = Ok () \<and> 0 \<le> memfd_ret env \<and> mmap_ret env = Some l \<and>
      r = (RI_new t path)\<lparr>ri_memfd := memfd_ret env, ri_slots := Some (construct_slots l)\<rparr> \<and>
      d1 = on_os os_map (on_os (os_open (memfd_ret env)) d))"
  using assms by (cases d)
    (auto simp: RI_Initialize_def createMemfd_def RI_new_def Let_def on_os_def close_opened
      split: option.splits if_splits)

lemma createSocket_cases:
  assumes "createSocket env b r d = (res, r1, d1)" "sock_ret env \<notin> open_fds (sos_os d)" "ri_socket_fd r < 0"
  shows "(\<exists>e. res = Inl e) \<and> ri_socket_fd r1 < 0 \<and> r1 = r\<lparr>ri_socket_fd := ri_socket_fd r1\<rparr> \<and> sos_os d1 = sos_os d \<or>
    res = Ok () \<and> 0 \<le> sock_ret env \<and> r1 = r\<lparr>ri_socket_fd := sock_ret env\<rparr> \<and>
      sos_os d1 = os_open (sock_ret env) (sos_os d) \<and> sos_files d1 = insert (ri_socket_path r) (sos_files d)"
  using assms by (auto simp: createSocket_def Let_def close_opened split: if_splits)

lemma os_close_map: "os_close fd (os_map os) = os_map (os_close fd os)"
  by (simp add: os_close_def os_map_def)

lemma os_unmap_map [simp]: "os_unmap (os_map os) = os"
  by (cases os) (simp add: os_map_def os_unmap_def)

lemma os_unmap_open: "os_unmap (os_open fd os) = os_open fd (os_unmap os)"
  by (simp add: os_open_def os_unmap_def)

lemma os_close_open_other:
  "fd \<noteq> fd' \<Longrightarrow> fd \<notin> open_fds os \<Longrightarrow> os_close fd (os_open fd' (os_open fd os)) = os_open fd' os"
  by (cases os) (auto simp: os_close_def os_open_def)

text \<open>The signals before the loop reach a server that is not running yet.\<close>

lemma signal_before_run:
  "\<not> ri_running r \<Longrightarrow> \<exists>b. fold signal_handler sigs (f, Some r) = (b, Some r)"
proof (induction sigs arbitrary: f)
  case (Cons sig sigs)
  then have "RI_Shutdown r = r" by (cases r) (simp add: RI_Shutdown_def)
  then show ?case using Cons by (simp add: signal_handler_def)
qed simp

text \<open>A signal that arrives before the server runs is lost: the daemon behaves as if it had not
  been sent, so without a later one it never returns once its memory and socket are set up.\<close>

lemma daemon_loses_early_signals:
  "daemon_main args menv early lenv es d = daemon_main args menv [] lenv es d"
proof (cases "parse_args args daemon_config_new")
  case (Some c)
  obtain res r1 d1 where i: "RI_Initialize menv (RI_new (dc_type c) (dc_socket_path c)) d = (res, r1, d1)"
    by (cases "RI_Initialize menv (RI_new (dc_type c) (dc_socket_path c)) d") auto
  have "\<not> ri_running r1"
    using i by (auto simp: RI_Initialize_def createMemfd_def RI_new_def Let_def
        split: option.splits if_splits)
  then have "snd (fold signal_handler early (False, Some r1)) = Some r1"
    using signal_before_run [of r1 early False] by auto
  then show ?thesis using Some i by (cases res) (simp_all add: daemon_main_def)
qed (simp add: daemon_main_def)

lemma RI_destroy_before_socket:
  "ri_slots r = None \<Longrightarrow> ri_memfd r < 0 \<Longrightarrow> ri_socket_fd r < 0 \<Longrightarrow> snd (RI_destroy r d) = d"
  by (simp add: RI_destroy_def RI_Shutdown_def Let_def)

lemma RI_destroy_attached:
  assumes "ri_slots r = Some l" "0 \<le> ri_memfd r" "ri_memfd r \<notin> open_fds os"
  shows "ri_socket_fd r < 0 \<Longrightarrow> sos_os d = os_map (os_open (ri_memfd r) os) \<Longrightarrow>
      sos_os (snd (RI_destroy r d)) = os"
    and "0 \<le> ri_socket_fd r \<Longrightarrow> ri_socket_fd r \<notin> insert (ri_memfd r) (open_fds os) \<Longrightarrow>
      sos_os d = os_open (ri_socket_fd r) (os_map (os_open (ri_memfd r) os)) \<Longrightarrow>
      sos_os (snd (RI_destroy r d)) = os \<and>
      sos_files (snd (RI_destroy r d)) = sos_files d - {ri_socket_path r}"
  using assms
  by (simp_all add: RI_destroy_def RI_Shutdown_def Let_def close_opened os_unmap_open
      os_close_open_other)

lemma RI_Run_releases:
  assumes r1: "ri_slots r1 = Some l" "0 \<le> ri_memfd r1" "ri_memfd r1 \<notin> open_fds os" "ri_socket_fd r1 < 0"
    and d1: "sos_os d1 = os_map (os_open (ri_memfd r1) os)"
    and sock: "sock_ret env \<notin> insert (ri_memfd r1) (open_fds os)"
    and clients: "\<forall>e\<in>set es. case e of
      ClientConnects fd h s \<Rightarrow> fd \<notin> {ri_memfd r1, sock_ret env} \<union> open_fds os | _ \<Rightarrow> True"
    and run: "RI_Run env es r1 d1 = Some (res, r3, d3, log)"
  shows "sos_os (snd (RI_destroy r3 d3)) = os \<and>
    (\<forall>(fd, msg)\<in>set log. fm_cmsg msg = (SOL_SOCKET, SCM_RIGHTS, ri_memfd r1)) \<and>
    (res = Ok () \<longrightarrow> sos_files (snd (RI_destroy r3 d3)) = sos_files d1 - {ri_socket_path r1})"
proof -
  obtain sres r2 d2 where s: "createSocket env False r1 d1 = (sres, r2, d2)"
    by (cases "createSocket env False r1 d1") auto
  have "sock_ret env \<notin> open_fds (sos_os d1)"
    using sock d1 by (auto simp: os_map_def os_open_def)
  from createSocket_cases [OF s this r1(4)] consider
    (no_socket) e x where "sres = Inl e" "x < 0" "r2 = r1\<lparr>ri_socket_fd := x\<rparr>" "sos_os d2 = sos_os d1"
  | (listening) "sres = Ok ()" "0 \<le> sock_ret env" "r2 = r1\<lparr>ri_socket_fd := sock_ret env\<rparr>"
      "sos_os d2 = os_open (sock_ret env) (sos_os d1)"
      "sos_files d2 = insert (ri_socket_path r1) (sos_files d1)"
    by blast
  then show ?thesis
  proof cases
    case no_socket
    then have "r3 = r2" "d3 = d2" "log = []" "res = Inl e"
      using run s by (auto simp: RI_Run_def)
    then show ?thesis
      using RI_destroy_attached(1) [of r2 l os d2] no_socket r1 d1 by simp
  next
    case listening
    let ?r = "r2\<lparr>ri_running := True\<rparr>"
    obtain n where loop: "accept_loop es ?r d2 0 [] = Some (r3, d3, n, log)" and res: "res = Ok ()"
      using run s listening(1) by (auto simp: RI_Run_def split: option.splits)
    have "\<forall>e\<in>set es. case e of ClientConnects fd h s \<Rightarrow> fd \<notin> open_fds (sos_os d2) | _ \<Rightarrow> True"
      using clients d1 listening(4) by (auto simp: os_map_def os_open_def split: server_event.split)
    from accept_loop_frame [OF loop this]
    obtain b where "d3 = d2" "r3 = ?r\<lparr>ri_running := b\<rparr>"
      and log: "\<forall>(fd, msg)\<in>set log. fm_cmsg msg = (SOL_SOCKET, SCM_RIGHTS, ri_memfd r1)"
      using listening(3) by auto
    then have r3: "ri_slots r3 = Some l" "ri_memfd r3 = ri_memfd r1" "ri_socket_fd r3 = sock_ret env"
        "ri_socket_path r3 = ri_socket_path r1"
      using r1 listening(3) by simp_all
    show ?thesis
      using RI_destroy_attached(2) [of r3 l os d3] r3 r1 sock d1 listening(2,4,5) log res \<open>d3 = d2\<close>
      by auto
  qed
qed


definition demo_memfd_env :: memfd_env where
  "demo_memfd_env =
     \<lparr> memfd_ret = 3, truncate_ret = 0, mmap_ret = Some (replicate 1024 empty_slot), seal_ret = 0 \<rparr>"

definition demo_listen_env :: listen_env where
  "demo_listen_env = \<lparr> sock_ret = 4, bind_ret = 0, chmod_ret = 0, listen_ret = 0 \<rparr>"

definition demo_server_os :: server_os where
  "demo_server_os = \<lparr> sos_os = \<lparr> open_fds = {0}, mapped = 7 \<rparr>, sos_files = {''/run/x''} \<rparr>"


text \<open>When \<open>listen\<close> fails the socket file stays: the object no longer knows its socket.\<close>

lemma RI_destroy_no_socket: "ri_socket_fd r < 0 \<Longrightarrow> sos_files (snd (RI_destroy r d)) = sos_files d"
  by (cases "ri_slots r") (simp_all add: RI_destroy_def RI_Shutdown_def Let_def)

lemma listen_failure_leaves_file:
  assumes "0 \<le> sock_ret env" "bind_ret env = 0" "listen_ret env \<noteq> 0"
    and run: "RI_Run env es r d = Some (res, r1, d1, log)"
  shows "res = Err kSocketListenFailed \<and> ri_socket_path r \<in> sos_files (snd (RI_destroy r1 d1))"
proof -
  have "res = Err kSocketListenFailed" "ri_socket_fd r1 < 0" "ri_socket_path r \<in> sos_files d1"
    using assms by (auto simp: RI_Run_def createSocket_def Let_def)
  then show ?thesis by (simp only: RI_destroy_no_socket simp_thms)
qed

subsection \<open>What a client receives\<close>

lemma construct_slots_eq: "length l = MAX_SLOTS \<Longrightarrow> construct_slots l = replicate 1024 empty_slot"
  by (simp add: construct_slots_def MAX_SLOTS_def map_replicate_const)

lemma empty_registry:
  assumes "slots r = Some (replicate 1024 empty_slot)"
  shows "SR_wf r" and "SR_FindService sid r = None"
proof -
  have ok: "slot_ok i empty_slot" for i
    by (simp add: slot_ok_def empty_slot_layout) (simp add: empty_slot_def IsActive_def is_stable_def)
  then show "SR_wf r" using assms by (simp add: SR_wf_def)
  have "slot_at r (ucast (sid AND 1023)) = empty_slot" if "IsValidSlotIndex (ucast (sid AND 1023) :: u32)"
    using that assms by (simp add: slot_at_def valid_index_unat)
  then show "SR_FindService sid r = None"
    by (auto simp: SR_FindService_def Let_def quiet_read_eq empty_slot_def split: option.split)
qed


definition demo_recv_env :: recv_env where
  "demo_recv_env =
     \<lparr> socket_ret = 6, connect_ret = 0, recvmsg_ret = 3, recv_cmsg = Some (SOL_SOCKET, SCM_RIGHTS, 3),
       recv_errno = 0, client_mmap_ret = Some (replicate 1024 empty_slot) \<rparr>"



end
