(* ===== verification/Deployment.thy ===== *)
theory Deployment
  imports Runtime RegistryServer
begin

text \<open>
  Several processes in front of the memory of the two daemons.  The code has no definition of its
  own for this: a deployment is the memory behind the two descriptors (the mappings of the runtime
  are shared) and the runtime of every process.  A call of a process runs the runtime's operation on
  the memory as it is at that moment; calls do not overlap here, their interleaving inside a slot
  is theory SeqLock.  A process may also die without deinitialising.
\<close>

subsection \<open>Shared memory\<close>

record shared_memory =
  qm_memory :: "service_slot list"
  asil_memory :: "service_slot list"

text \<open>A mapped registry shows the memory; what a call writes is in the memory.\<close>

definition map_in :: "shared_memory \<Rightarrow> shared_registry \<Rightarrow> shared_registry" where
  "map_in M g =
     \<lparr> qm_registry = (qm_registry g)
         \<lparr>slots := map_option (\<lambda>_. qm_memory M) (slots (qm_registry g))\<rparr>,
       asil_registry = (asil_registry g)
         \<lparr>slots := map_option (\<lambda>_. asil_memory M) (slots (asil_registry g))\<rparr> \<rparr>"

definition attach :: "shared_memory \<Rightarrow> runtime \<Rightarrow> runtime" where
  "attach M rt = rt\<lparr>g_dual_registry := map_option (map_in M) (g_dual_registry rt)\<rparr>"

definition memory_of :: "service_slot list \<Rightarrow> single_registry \<Rightarrow> service_slot list" where
  "memory_of l r = (case slots r of None \<Rightarrow> l | Some l' \<Rightarrow> l')"

definition written :: "runtime \<Rightarrow> shared_memory \<Rightarrow> shared_memory" where
  "written rt M =
     (case g_dual_registry rt of
        None \<Rightarrow> M
      | Some g \<Rightarrow> \<lparr> qm_memory = memory_of (qm_memory M) (qm_registry g),
                    asil_memory = memory_of (asil_memory M) (asil_registry g) \<rparr>)"

definition shows_memory :: "service_slot list \<Rightarrow> recv_env \<Rightarrow> recv_env" where
  "shows_memory l env = env\<lparr>client_mmap_ret := map_option (\<lambda>_. l) (client_mmap_ret env)\<rparr>"

subsection \<open>Calls\<close>

datatype dep_call =
    CallInitialize recv_env recv_env
  | CallDeinitialize
  | CallRegister proc_env u16 u16 u8
  | CallUnregister u16
  | CallFind u16
  | Dies os_state

datatype dep_reply = Result "unit result" | Entry "svc_entry option" | NoReply

fun runtime_call ::
  "shared_memory \<Rightarrow> dep_call \<Rightarrow> runtime \<Rightarrow> os_state \<Rightarrow> dep_reply \<times> runtime \<times> os_state" where
  "runtime_call M (CallInitialize qenv aenv) rt os =
     apfst Result
       (RT_Initialize (shows_memory (qm_memory M) qenv) (shows_memory (asil_memory M) aenv) rt os)"
| "runtime_call M CallDeinitialize rt os = apfst Result (RT_Deinitialize rt os)"
| "runtime_call M (CallRegister env sid inst nb) rt os =
     (case RT_RegisterService env sid inst nb rt of (r, rt1) \<Rightarrow> (Result r, rt1, os))"
| "runtime_call M (CallUnregister sid) rt os =
     (case RT_UnregisterService sid rt of (r, rt1) \<Rightarrow> (Result r, rt1, os))"
| "runtime_call M (CallFind sid) rt os = (Entry (rt_lookup sid rt), rt, os)"
| "runtime_call M (Dies os1) rt os = (NoReply, runtime_start, os1)"

record deployment =
  dep_memory :: shared_memory
  dep_procs :: "nat \<Rightarrow> runtime \<times> os_state"

fun dep_step :: "nat \<times> dep_call \<Rightarrow> deployment \<Rightarrow> dep_reply \<times> deployment" where
  "dep_step (p, c) D =
     (case dep_procs D p of (rt, os) \<Rightarrow>
        (case runtime_call (dep_memory D) c (attach (dep_memory D) rt) os of (r, rt1, os1) \<Rightarrow>
           (r, D\<lparr> dep_memory := written rt1 (dep_memory D),
                  dep_procs := (dep_procs D)(p := (rt1, os1)) \<rparr>)))"

text \<open>The deployment after the two daemons have initialised, with no runtime started.\<close>

definition deployed :: "registry_initializer \<Rightarrow> registry_initializer \<Rightarrow> (nat \<Rightarrow> os_state) \<Rightarrow> deployment" where
  "deployed q a os =
     \<lparr> dep_memory = \<lparr> qm_memory = the (ri_slots q), asil_memory = the (ri_slots a) \<rparr>,
       dep_procs = (\<lambda>p. (runtime_start, os p)) \<rparr>"

subsection \<open>Specification\<close>

text \<open>One directory of services for all processes, and the processes whose runtime is up.\<close>

record directory =
  up_procs :: "nat \<Rightarrow> bool"
  services :: "u64 \<Rightarrow> svc_entry option"

definition client_ready :: "recv_env \<Rightarrow> bool" where
  "client_ready env \<longleftrightarrow>
     0 \<le> socket_ret env \<and> connect_ret env = 0 \<and> 0 < recvmsg_ret env \<and>
     (case recv_cmsg env of None \<Rightarrow> False | Some (l, t, fd) \<Rightarrow> l = SOL_SOCKET \<and> t = SCM_RIGHTS) \<and>
     client_mmap_ret env \<noteq> None"

definition in_range :: "u16 \<Rightarrow> bool" where
  "in_range sid \<longleftrightarrow> is_qm_range sid \<or> is_asil_range sid"

definition directory_op :: "(u64, proc_env \<times> offer) registry_op \<Rightarrow> directory \<Rightarrow> dep_reply \<times> directory" where
  "directory_op p d =
     (case spec_step shares_slot offer_entry p (services d) of (r, m) \<Rightarrow> (Result r, d\<lparr>services := m\<rparr>))"

fun directory_step :: "nat \<times> dep_call \<Rightarrow> directory \<Rightarrow> dep_reply \<times> directory" where
  "directory_step (p, CallInitialize qenv aenv) d =
     (if up_procs d p then (Result (Err kInvalidState), d)
      else if client_ready qenv \<and> client_ready aenv
      then (Result (Ok ()), d\<lparr>up_procs := (up_procs d)(p := True)\<rparr>)
      else (Result (Err kInternal), d))"
| "directory_step (p, CallDeinitialize) d =
     (if up_procs d p then (Result (Ok ()), d\<lparr>up_procs := (up_procs d)(p := False)\<rparr>)
      else (Result (Err kNotInitialized), d))"
| "directory_step (p, CallRegister env sid inst nb) d =
     (if \<not> up_procs d p then (Result (Err kNotInitialized), d)
      else if \<not> in_range sid then (Result (Inl (make_error_code kInvalidArgument (uint sid))), d)
      else if inst = 0 \<or> inst = 0xffff
      then (Result (Inl (make_error_code kInvalidArgument (uint inst))), d)
      else if unat sid mod 1024 = 0 then (Result (Err kInvalidArgument), d)
      else directory_op (Register (ucast sid) (env, runtime_offer inst nb)) d)"
| "directory_step (p, CallUnregister sid) d =
     (if \<not> up_procs d p then (Result (Err kNotInitialized), d)
      else if \<not> in_range sid then (Result (Inl (make_error_code kInvalidArgument (uint sid))), d)
      else if unat sid mod 1024 = 0 then (Result (Err kInvalidArgument), d)
      else directory_op (Unregister (ucast sid)) d)"
| "directory_step (p, CallFind sid) d =
     (Entry (if up_procs d p \<and> in_range sid then services d (ucast sid) else None), d)"
| "directory_step (p, Dies os) d = (NoReply, d\<lparr>up_procs := (up_procs d)(p := False)\<rparr>)"

text \<open>The registry that the memory is.\<close>

definition memory_view :: "shared_memory \<Rightarrow> shared_registry" where
  "memory_view M =
     \<lparr> qm_registry = \<lparr> reg_type = QM, memfd = -1, slots = Some (qm_memory M) \<rparr>,
       asil_registry = \<lparr> reg_type = ASIL, memfd = -1, slots = Some (asil_memory M) \<rparr> \<rparr>"

definition directory_of :: "deployment \<Rightarrow> directory" where
  "directory_of D =
     \<lparr> up_procs = (\<lambda>p. g_initialized (fst (dep_procs D p))),
       services = (\<lambda>sid. smr_lookup sid (memory_view (dep_memory D))) \<rparr>"

text \<open>Runtimes are consistent with the memory: initialised exactly with a mapped registry and a
  heartbeat.\<close>

definition mapped_runtime :: "runtime \<Rightarrow> bool" where
  "mapped_runtime rt \<longleftrightarrow>
     (g_initialized rt \<longleftrightarrow> g_dual_registry rt \<noteq> None) \<and> (g_initialized rt \<longleftrightarrow> g_heartbeat_thread rt) \<and>
     (g_initialized rt \<longleftrightarrow> g_heartbeat_running rt) \<and>
     (\<forall>g. g_dual_registry rt = Some g \<longrightarrow> slots (qm_registry g) \<noteq> None \<and> slots (asil_registry g) \<noteq> None)"

definition dep_inv :: "deployment \<Rightarrow> bool" where
  "dep_inv D \<longleftrightarrow>
     SMR_wf (memory_view (dep_memory D)) \<and> (\<forall>p. mapped_runtime (fst (dep_procs D p)))"

subsection \<open>Only the slots matter\<close>

definition same_slots :: "shared_registry \<Rightarrow> shared_registry \<Rightarrow> bool" where
  "same_slots g h \<longleftrightarrow>
     slots (qm_registry g) = slots (qm_registry h) \<and> slots (asil_registry g) = slots (asil_registry h)"

lemma find_cong:
  assumes eq: "slots r = slots r'"
  shows "SR_FindService sid r = SR_FindService sid r'"
  unfolding SR_FindService_def IsInitialized_def slot_at_def eq ..

lemma wf_cong:
  "slots r = slots r' \<Longrightarrow> SR_wf r \<longleftrightarrow> SR_wf r'"
  "slots r = slots r' \<Longrightarrow> actives_routed P r \<longleftrightarrow> actives_routed P r'"
  by (simp add: SR_wf_def) (simp add: actives_routed_def find_cong [of r r'])

lemma same_slots_wf: "same_slots g h \<Longrightarrow> SMR_wf g \<longleftrightarrow> SMR_wf h"
  unfolding same_slots_def SMR_wf_def
  using wf_cong [of "qm_registry g" "qm_registry h"] wf_cong [of "asil_registry g" "asil_registry h"]
  by simp

lemma same_slots_lookup: "same_slots g h \<Longrightarrow> smr_lookup sid g = smr_lookup sid h"
  by (simp add: same_slots_def smr_lookup_def SMR_FindService_def find_cong [of "qm_registry g" "qm_registry h"]
      find_cong [of "asil_registry g" "asil_registry h"])

lemma same_slots_map_in:
  assumes "slots (qm_registry g) \<noteq> None" "slots (asil_registry g) \<noteq> None"
  shows "same_slots (map_in M g) (memory_view M)"
  using assms by (auto simp: same_slots_def map_in_def memory_view_def)

lemma same_slots_written:
  assumes "slots (qm_registry g) \<noteq> None" "slots (asil_registry g) \<noteq> None" "g_dual_registry rt = Some g"
  shows "same_slots (memory_view (written rt M)) g"
  using assms by (auto simp: same_slots_def written_def memory_view_def memory_of_def)

lemma SMR_wf_slots: "SMR_wf g \<Longrightarrow> slots (qm_registry g) \<noteq> None \<and> slots (asil_registry g) \<noteq> None"
  by (auto simp: SMR_wf_def SR_wf_def)

subsection \<open>Refinement\<close>

lemma attach_simps [simp]:
  "g_initialized (attach M rt) = g_initialized rt"
  "g_heartbeat_thread (attach M rt) = g_heartbeat_thread rt"
  "g_heartbeat_running (attach M rt) = g_heartbeat_running rt"
  by (simp_all add: attach_def)

lemma attached: "g_dual_registry (attach M rt) = map_option (map_in M) (g_dual_registry rt)"
  by (simp add: attach_def)

lemma reattached: "g_dual_registry rt = Some g \<Longrightarrow> rt\<lparr>g_dual_registry := Some g\<rparr> = rt"
  by simp

lemma mapped_attach [simp]: "mapped_runtime (attach M rt) = mapped_runtime rt"
  by (auto simp: mapped_runtime_def map_in_def attached)

lemma mapped_start [simp]: "mapped_runtime runtime_start"
  by (simp add: mapped_runtime_def runtime_start_def)

lemma attached_registry:
  assumes "mapped_runtime rt" "g_initialized rt" "SMR_wf (memory_view M)"
  obtains g where "g_dual_registry (attach M rt) = Some g" "SMR_wf g"
    "\<And>sid. smr_lookup sid g = smr_lookup sid (memory_view M)"
proof -
  obtain g where g: "g_dual_registry rt = Some g" "slots (qm_registry g) \<noteq> None" "slots (asil_registry g) \<noteq> None"
    using assms(1,2) by (auto simp: mapped_runtime_def)
  have same: "same_slots (map_in M g) (memory_view M)" by (rule same_slots_map_in [OF g(2,3)])
  show ?thesis
    by (rule that [of "map_in M g"])
      (use g(1) assms(3) same_slots_wf [OF same] same_slots_lookup [OF same] in \<open>simp_all add: attached\<close>)
qed

text \<open>A call that leaves a well-formed registry in the runtime leaves it in the memory.\<close>

lemma written_registry:
  assumes "g_dual_registry rt = Some g" "SMR_wf g"
  shows "SMR_wf (memory_view (written rt M)) \<and>
    (\<lambda>sid. smr_lookup sid (memory_view (written rt M))) = (\<lambda>sid. smr_lookup sid g)"
proof -
  have same: "same_slots (memory_view (written rt M)) g"
    by (rule same_slots_written) (use SMR_wf_slots [OF assms(2)] assms(1) in simp_all)
  show ?thesis
    using assms(2) same_slots_wf [OF same] same_slots_lookup [OF same] by simp
qed

lemma written_None: "g_dual_registry rt = None \<Longrightarrow> written rt M = M"
  by (simp add: written_def)

lemma written_attach: "written (attach M rt) M = M"
  by (cases M) (auto simp: written_def attached map_in_def memory_of_def split: option.split)

text \<open>The identifiers the runtime passes on, without the broadcast one and the multiples of 1024,
  which have no slot.\<close>

lemma unat_ucast_id: "unat (ucast (sid :: u16) :: u64) = unat sid"
  using unsigned_less [of sid, where 'a = nat]
  by (simp add: unsigned_ucast_eq take_bit_nat_eq_self)

lemma unicast_id:
  assumes "sid \<noteq> 0xFFFF" "unat sid mod 1024 \<noteq> 0"
  shows "unicast (ucast (sid :: u16))"
proof -
  have "unat sid < 65536" "unat sid \<noteq> 65535"
    using unsigned_less [of sid, where 'a = nat] assms(1) by (simp_all add: word_unat_eq_iff)
  then show ?thesis
    using assms(2) by (simp add: unicast_def SelectRegistry_BOTH_iff unat_ucast_id)
qed

lemma client_mapping:
  assumes "SR_InitializeFromSocket (shows_memory l env) (single_new t) os = (r, reg, os1)"
  shows "has_value r \<longleftrightarrow> client_ready env"
    and "has_value r \<Longrightarrow> slots reg = Some l"
  using assms
  by (auto simp: SR_InitializeFromSocket_def receiveMemfdFromSocket_def client_ready_def
      shows_memory_def single_new_def IsInitialized_def Let_def split: option.splits if_splits)

definition call_ok :: "dep_call \<Rightarrow> bool" where
  "call_ok c \<longleftrightarrow>
     (case c of CallRegister env sid inst nb \<Rightarrow> sid \<noteq> 0xFFFF | CallUnregister sid \<Rightarrow> sid \<noteq> 0xFFFF | _ \<Rightarrow> True)"

text \<open>What has to be shown of one call: its reply, the runtime after it and the memory it leaves.\<close>

definition call_refines ::
  "shared_memory \<Rightarrow> (nat \<Rightarrow> bool) \<Rightarrow> nat \<Rightarrow> dep_call \<Rightarrow> dep_reply \<times> runtime \<times> os_state \<Rightarrow> bool" where
  "call_refines M up p c res \<longleftrightarrow>
     (case res of (r, rt1, os1) \<Rightarrow>
        mapped_runtime rt1 \<and> SMR_wf (memory_view (written rt1 M)) \<and>
        directory_step (p, c) \<lparr> up_procs = up, services = (\<lambda>sid. smr_lookup sid (memory_view M)) \<rparr> =
          (r, \<lparr> up_procs = up(p := g_initialized rt1),
                services = (\<lambda>sid. smr_lookup sid (memory_view (written rt1 M))) \<rparr>))"

lemma up_same: "up p = b \<Longrightarrow> up(p := b) = up"
  by auto

lemma refines_unchanged:
  assumes "mapped_runtime rt" "SMR_wf (memory_view M)" "up p = g_initialized rt"
    and "directory_step (p, c) \<lparr> up_procs = up, services = (\<lambda>sid. smr_lookup sid (memory_view M)) \<rparr> =
      (r, \<lparr> up_procs = up, services = (\<lambda>sid. smr_lookup sid (memory_view M)) \<rparr>)"
  shows "call_refines M up p c (r, attach M rt, os)"
  using assms by (simp add: call_refines_def written_attach up_same)

lemma register_refines:
  assumes rt: "mapped_runtime rt" "SMR_wf (memory_view M)" "up p = g_initialized rt" and sid: "sid \<noteq> 0xFFFF"
  shows "call_refines M up p (CallRegister env sid inst nb)
    (runtime_call M (CallRegister env sid inst nb) (attach M rt) os)"
proof (cases "g_initialized rt")
  case False
  then have "runtime_call M (CallRegister env sid inst nb) (attach M rt) os =
      (Result (Err kNotInitialized), attach M rt, os)"
    by (simp add: RT_RegisterService_def)
  with False rt show ?thesis by (simp only:) (rule refines_unchanged; simp)
next
  case True
  obtain g where g: "g_dual_registry (attach M rt) = Some g" "SMR_wf g"
      "\<And>sid. smr_lookup sid g = smr_lookup sid (memory_view M)"
    using attached_registry [OF rt(1) True rt(2)] by blast
  show ?thesis
  proof (cases "in_range sid \<and> inst \<noteq> 0 \<and> inst \<noteq> 0xffff \<and> unat sid mod 1024 \<noteq> 0")
    case False
    let ?r = "(if \<not> in_range sid then Inl (make_error_code kInvalidArgument (uint sid))
      else if inst = 0 \<or> inst = 0xffff then Inl (make_error_code kInvalidArgument (uint inst))
      else Err kInvalidArgument) :: unit result"
    have no_slot: "SMR_RegisterService env (ucast sid) (runtime_offer inst nb) g = (Err kInvalidArgument, g)" if "unat sid mod 1024 = 0"
      using that SMR_invalid_id [of "ucast sid"] by (simp add: unat_ucast_id)
    have r: "runtime_call M (CallRegister env sid inst nb) (attach M rt) os = (Result ?r, attach M rt, os)"
      using True False g(1) no_slot reattached [OF g(1)] by (auto simp: RT_RegisterService_def in_range_def)
    have d: "directory_step (p, CallRegister env sid inst nb)
         \<lparr> up_procs = up, services = (\<lambda>sid. smr_lookup sid (memory_view M)) \<rparr> =
       (Result ?r, \<lparr> up_procs = up, services = (\<lambda>sid. smr_lookup sid (memory_view M)) \<rparr>)"
      using True False rt(3) by auto
    show ?thesis unfolding r by (rule refines_unchanged [OF rt d])
  next
    case ok: True
    let ?op = "Register (ucast sid) (env, runtime_offer inst nb)"
    obtain r g1 where r: "smr_register (ucast sid) (env, runtime_offer inst nb) g = (r, g1)" by fastforce
    have u: "unicast (ucast sid)" using ok sid by (blast intro: unicast_id)
    have wf: "SMR_wf g1" using smr.inv_reg [OF g(2) u] r by (metis snd_conv)
    have "spec_step shares_slot offer_entry ?op (\<lambda>i. smr_lookup i g) = (r, \<lambda>i. smr_lookup i g1)"
      using smr.step_refines [OF g(2), of ?op] u r by simp
    moreover have "runtime_call M (CallRegister env sid inst nb) (attach M rt) os =
        (Result r, (attach M rt)\<lparr>g_dual_registry := Some g1\<rparr>, os)"
      using True ok g(1) r by (auto simp: RT_RegisterService_def in_range_def smr_register_def)
    moreover have "mapped_runtime ((attach M rt)\<lparr>g_dual_registry := Some g1\<rparr>)"
      using True rt(1) SMR_wf_slots [OF wf] by (auto simp: mapped_runtime_def)
    ultimately show ?thesis
      using True ok rt(3) written_registry [OF _ wf, of "(attach M rt)\<lparr>g_dual_registry := Some g1\<rparr>"] g(3)
      by (simp add: call_refines_def directory_op_def up_same)
  qed
qed

lemma unregister_refines:
  assumes rt: "mapped_runtime rt" "SMR_wf (memory_view M)" "up p = g_initialized rt" and sid: "sid \<noteq> 0xFFFF"
  shows "call_refines M up p (CallUnregister sid) (runtime_call M (CallUnregister sid) (attach M rt) os)"
proof (cases "g_initialized rt")
  case False
  then have "runtime_call M (CallUnregister sid) (attach M rt) os =
      (Result (Err kNotInitialized), attach M rt, os)"
    by (simp add: RT_UnregisterService_def)
  with False rt show ?thesis by (simp only:) (rule refines_unchanged; simp)
next
  case True
  obtain g where g: "g_dual_registry (attach M rt) = Some g" "SMR_wf g"
      "\<And>sid. smr_lookup sid g = smr_lookup sid (memory_view M)"
    using attached_registry [OF rt(1) True rt(2)] by blast
  show ?thesis
  proof (cases "in_range sid \<and> unat sid mod 1024 \<noteq> 0")
    case False
    let ?r = "(if \<not> in_range sid then Inl (make_error_code kInvalidArgument (uint sid))
      else Err kInvalidArgument) :: unit result"
    have no_slot: "SMR_UnregisterService (ucast sid) g = (Err kInvalidArgument, g)" if "unat sid mod 1024 = 0"
      using that SMR_invalid_id [of "ucast sid"] by (simp add: unat_ucast_id)
    have r: "runtime_call M (CallUnregister sid) (attach M rt) os = (Result ?r, attach M rt, os)"
      using True False g(1) no_slot reattached [OF g(1)] by (auto simp: RT_UnregisterService_def in_range_def)
    have d: "directory_step (p, CallUnregister sid)
         \<lparr> up_procs = up, services = (\<lambda>sid. smr_lookup sid (memory_view M)) \<rparr> =
       (Result ?r, \<lparr> up_procs = up, services = (\<lambda>sid. smr_lookup sid (memory_view M)) \<rparr>)"
      using True False rt(3) by auto
    show ?thesis unfolding r by (rule refines_unchanged [OF rt d])
  next
    case ok: True
    let ?op = "Unregister (ucast sid) :: (u64, proc_env \<times> offer) registry_op"
    obtain r g1 where r: "SMR_UnregisterService (ucast sid) g = (r, g1)" by fastforce
    have u: "unicast (ucast sid)" using ok sid by (blast intro: unicast_id)
    have wf: "SMR_wf g1" using smr.inv_unreg [OF g(2) u] r by (metis snd_conv)
    have "spec_step shares_slot offer_entry ?op (\<lambda>i. smr_lookup i g) = (r, \<lambda>i. smr_lookup i g1)"
      using smr.step_refines [OF g(2), of ?op] u r by simp
    moreover have "runtime_call M (CallUnregister sid) (attach M rt) os =
        (Result r, (attach M rt)\<lparr>g_dual_registry := Some g1\<rparr>, os)"
      using True ok g(1) r by (auto simp: RT_UnregisterService_def in_range_def)
    moreover have "mapped_runtime ((attach M rt)\<lparr>g_dual_registry := Some g1\<rparr>)"
      using True rt(1) SMR_wf_slots [OF wf] by (auto simp: mapped_runtime_def)
    ultimately show ?thesis
      using True ok rt(3) written_registry [OF _ wf, of "(attach M rt)\<lparr>g_dual_registry := Some g1\<rparr>"] g(3)
      by (simp add: call_refines_def directory_op_def up_same)
  qed
qed

lemma initialize_refines:
  assumes rt: "mapped_runtime rt" "SMR_wf (memory_view M)" "up p = g_initialized rt"
  shows "call_refines M up p (CallInitialize qenv aenv)
    (runtime_call M (CallInitialize qenv aenv) (attach M rt) os)"
proof (cases "g_initialized rt")
  case True
  then have "runtime_call M (CallInitialize qenv aenv) (attach M rt) os =
      (Result (Err kInvalidState), attach M rt, os)"
    by (simp add: RT_Initialize_def)
  with True rt show ?thesis by (simp only:) (rule refines_unchanged; simp)
next
  case False
  then have none: "g_dual_registry rt = None" "\<not> g_heartbeat_thread rt" "\<not> g_heartbeat_running rt"
    using rt(1) by (auto simp: mapped_runtime_def)
  then have at: "attach M rt = rt" by (simp add: attach_def)
  let ?qe = "shows_memory (qm_memory M) qenv" and ?ae = "shows_memory (asil_memory M) aenv"
  obtain rq q os1 where q: "SR_InitializeFromSocket ?qe (single_new QM) os = (rq, q, os1)"
    by (metis prod_cases3)
  obtain ra a os2 where a: "SR_InitializeFromSocket ?ae (single_new ASIL) os1 = (ra, a, os2)"
    by (metis prod_cases3)
  note qm = client_mapping [OF q] and am = client_mapping [OF a]
  show ?thesis
  proof (cases "client_ready qenv \<and> client_ready aenv")
    case True
    let ?g = "\<lparr> qm_registry = q, asil_registry = a \<rparr>"
    let ?rt = "rt\<lparr> g_dual_registry := Some ?g, g_heartbeat_running := True, g_heartbeat_thread := True,
      g_initialized := True \<rparr>"
    have sl: "slots q = Some (qm_memory M)" "slots a = Some (asil_memory M)"
      using True qm am by simp_all
    have call: "runtime_call M (CallInitialize qenv aenv) (attach M rt) os = (Result (Ok ()), ?rt, os2)"
      using True False none q a qm am at
      by (simp add: RT_Initialize_def reset_registry_def SMR_InitializeFromSocket_def SMR_new_def)
    have "written ?rt M = M" using sl by (simp add: written_def memory_of_def)
    moreover have "mapped_runtime ?rt" using sl by (simp add: mapped_runtime_def)
    ultimately show ?thesis
      unfolding call using True False rt by (simp add: call_refines_def)
  next
    case fails: False
    obtain os3 where "runtime_call M (CallInitialize qenv aenv) (attach M rt) os =
        (Result (Err kInternal), rt, os3)"
      using fails False none q a qm(1) am(1) at
      by (auto simp: RT_Initialize_def reset_registry_def SMR_InitializeFromSocket_def SMR_new_def
          Let_def split: prod.split if_splits)
    moreover have "call_refines M up p (CallInitialize qenv aenv) (Result (Err kInternal), attach M rt, os3)"
      by (rule refines_unchanged) (use rt False fails in auto)
    ultimately show ?thesis by (simp only: at)
  qed
qed

lemma call_refined:
  assumes "mapped_runtime rt" "SMR_wf (memory_view M)" "up p = g_initialized rt" "call_ok c"
  shows "call_refines M up p c (runtime_call M c (attach M rt) os)"
proof (cases c)
  case CallDeinitialize
  show ?thesis
  proof (cases "g_initialized rt")
    case True
    then obtain g where "g_dual_registry (attach M rt) = Some g" "g_heartbeat_thread rt" "g_heartbeat_running rt"
      using assms(1) by (auto simp: mapped_runtime_def attached)
    then have "\<exists>os1. RT_Deinitialize (attach M rt) os = (Ok (), runtime_start, os1)"
      using True by (simp add: RT_Deinitialize_def reset_registry_def runtime_start_def Let_def)
    then obtain os1 where "RT_Deinitialize (attach M rt) os = (Ok (), runtime_start, os1)" by blast
    then show ?thesis
      using True assms unfolding CallDeinitialize
      by (simp add: call_refines_def written_None runtime_start_def mapped_runtime_def)
  next
    case False
    then have "runtime_call M c (attach M rt) os = (Result (Err kNotInitialized), attach M rt, os)"
      by (simp add: CallDeinitialize RT_Deinitialize_def)
    with False assms show ?thesis unfolding CallDeinitialize by (simp only:) (rule refines_unchanged; simp)
  qed
next
  case (CallFind sid)
  have "rt_lookup sid (attach M rt) =
      (if g_initialized rt \<and> in_range sid then smr_lookup (ucast sid) (memory_view M) else None)"
  proof (cases "g_initialized rt")
    case True
    obtain g where "g_dual_registry (attach M rt) = Some g"
        "\<And>sid. smr_lookup sid g = smr_lookup sid (memory_view M)"
      using attached_registry [OF assms(1) True assms(2)] by blast
    with True show ?thesis
      by (simp add: rt_lookup_def RT_FindService_def in_range_def smr_lookup_def)
  qed (simp add: rt_lookup_def RT_FindService_def)
  then have "runtime_call M c (attach M rt) os =
      (Entry (if g_initialized rt \<and> in_range sid then smr_lookup (ucast sid) (memory_view M) else None),
       attach M rt, os)"
    by (simp add: CallFind)
  with assms show ?thesis
    unfolding CallFind by (simp only:) (rule refines_unchanged; simp)
next
  case (Dies os1)
  then show ?thesis
    using assms by (simp add: call_refines_def written_None runtime_start_def mapped_runtime_def)
next
  case (CallRegister env sid inst nb)
  then have "sid \<noteq> 0xFFFF" using assms(4) by (simp add: call_ok_def)
  then show ?thesis unfolding CallRegister by (rule register_refines [where up = up and p = p, OF assms(1-3)])
next
  case (CallUnregister sid)
  then have "sid \<noteq> 0xFFFF" using assms(4) by (simp add: call_ok_def)
  then show ?thesis unfolding CallUnregister by (rule unregister_refines [where up = up and p = p, OF assms(1-3)])
next
  case (CallInitialize qenv aenv)
  show ?thesis unfolding CallInitialize by (rule initialize_refines [where up = up and p = p, OF assms(1-3)])
qed

lemma dep_step_refines:
  assumes inv: "dep_inv D" and ok: "call_ok c"
  shows "dep_inv (snd (dep_step (p, c) D)) \<and>
    directory_step (p, c) (directory_of D) =
      (fst (dep_step (p, c) D), directory_of (snd (dep_step (p, c) D)))"
proof -
  let ?M = "dep_memory D" and ?up = "\<lambda>p. g_initialized (fst (dep_procs D p))"
  obtain rt os where p: "dep_procs D p = (rt, os)" by fastforce
  obtain r rt1 os1 where c: "runtime_call ?M c (attach ?M rt) os = (r, rt1, os1)"
    by (metis prod_cases3)
  have rt: "mapped_runtime rt" "SMR_wf (memory_view ?M)" "?up p = g_initialized rt"
    using inv p unfolding dep_inv_def by (metis fst_conv)+
  have ref: "call_refines ?M ?up p c (r, rt1, os1)"
    unfolding c [symmetric]
    by (rule call_refined [where up = ?up and p = p, OF rt ok])
  have step: "dep_step (p, c) D = (r, D\<lparr> dep_memory := written rt1 ?M,
      dep_procs := (dep_procs D)(p := (rt1, os1)) \<rparr>)"
    by (simp add: p c)
  have up: "(\<lambda>x. g_initialized (fst (((dep_procs D)(p := (rt1, os1))) x))) = ?up(p := g_initialized rt1)"
    by auto
  show ?thesis
    unfolding step
    using ref inv by (auto simp: call_refines_def dep_inv_def directory_of_def up)
qed

lemma deployment_run:
  "dep_inv D \<Longrightarrow> \<forall>pc\<in>set calls. call_ok (snd pc) \<Longrightarrow>
    dep_inv (snd (run_ops dep_step calls D)) \<and>
    run_ops directory_step calls (directory_of D) =
      (fst (run_ops dep_step calls D), directory_of (snd (run_ops dep_step calls D)))"
proof (induction calls arbitrary: D)
  case (Cons pc calls)
  obtain p c where pc: "pc = (p, c)" by (cases pc)
  have step: "dep_inv (snd (dep_step pc D))"
    "directory_step pc (directory_of D) = (fst (dep_step pc D), directory_of (snd (dep_step pc D)))"
    using dep_step_refines [OF Cons.prems(1), of c p] Cons.prems(2) pc by auto
  show ?case
    using Cons.IH [OF step(1)] Cons.prems(2)
    by (simp add: step(2) Let_def case_prod_beta del: dep_step.simps directory_step.simps)
qed simp

lemma daemon_memory:
  assumes "RI_Initialize menv (RI_new t path) d = (Ok (), r, d1)" "mmap_ret menv = Some l" "length l = MAX_SLOTS"
  shows "ri_slots r = Some (replicate 1024 empty_slot)"
  using assms by (auto simp: RI_Initialize_def createMemfd_def Let_def construct_slots_eq split: if_splits)

lemma deployed_empty:
  assumes "ri_slots q = Some (replicate 1024 empty_slot)" "ri_slots a = Some (replicate 1024 empty_slot)"
  shows "dep_inv (deployed q a os)"
    and "directory_of (deployed q a os) = \<lparr> up_procs = (\<lambda>p. False), services = (\<lambda>sid. None) \<rparr>"
proof -
  let ?r = "\<lambda>t. \<lparr> reg_type = t, memfd = -1, slots = Some (replicate 1024 empty_slot) \<rparr>"
  have e: "SR_wf (?r t)" "SR_FindService sid (?r t) = None" for t sid
    by (rule empty_registry; simp)+
  show "dep_inv (deployed q a os)"
    using assms e by (simp add: dep_inv_def deployed_def memory_view_def SMR_wf_def actives_routed_def)
  show "directory_of (deployed q a os) = \<lparr> up_procs = (\<lambda>p. False), services = (\<lambda>sid. None) \<rparr>"
    using assms e
    by (simp add: directory_of_def deployed_def memory_view_def runtime_start_def smr_lookup_home home_def
        sr_lookup_def fun_eq_iff)
qed

subsection \<open>Properties\<close>


definition demo_memfd_env2 :: memfd_env where
  "demo_memfd_env2 = demo_memfd_env\<lparr>memfd_ret := 5\<rparr>"

definition demo_calls :: "(nat \<times> dep_call) list" where
  "demo_calls =
     [(1, CallInitialize demo_recv_env demo_recv_env), (2, CallInitialize demo_recv_env demo_recv_env),
      (1, CallRegister (fst demo_offer) 5 7 1), (1, Dies \<lparr> open_fds = {}, mapped = 0 \<rparr>), (2, CallFind 5),
      (2, CallUnregister 5), (2, CallFind 5)]"


text \<open>Deinitialising a runtime, or the death of its process, withdraws none of its services; and any
  initialised process withdraws a service whoever registered it.\<close>

lemma services_outlive_process:
  assumes "dep_inv D" "c = CallDeinitialize \<or> c = Dies os"
  shows "services (directory_of (snd (dep_step (p, c) D))) = services (directory_of D)"
proof -
  have "directory_step (p, c) (directory_of D) =
      (fst (dep_step (p, c) D), directory_of (snd (dep_step (p, c) D)))"
    using dep_step_refines [OF assms(1), of c p] assms(2) by (auto simp: call_ok_def simp del: dep_step.simps)
  then have "directory_of (snd (dep_step (p, c) D)) = snd (directory_step (p, c) (directory_of D))"
    by (metis snd_conv)
  then show ?thesis
    using assms(2) by (auto simp del: dep_step.simps)
qed

lemma any_process_withdraws:
  assumes "dep_inv D" "up_procs (directory_of D) p" "in_range sid" "unat sid mod 1024 \<noteq> 0" "sid \<noteq> 0xFFFF"
  shows "services (directory_of (snd (dep_step (p, CallUnregister sid) D))) (ucast sid) = None"
proof -
  have "directory_step (p, CallUnregister sid) (directory_of D) =
      (fst (dep_step (p, CallUnregister sid) D), directory_of (snd (dep_step (p, CallUnregister sid) D)))"
    using dep_step_refines [OF assms(1), of "CallUnregister sid"] assms(5) by (simp add: call_ok_def)
  then have "directory_of (snd (dep_step (p, CallUnregister sid) D)) =
      snd (directory_step (p, CallUnregister sid) (directory_of D))"
    by (metis snd_conv)
  then show ?thesis
    using assms(2-4) by (simp add: directory_op_def shares_slot_def same_slot_def del: dep_step.simps)
qed

end
