(* ===== verification/RegisterRace.thy ===== *)
theory RegisterRace
  imports SharedRegistry
begin

text \<open>
  Overlapping calls of \<open>SingleRegistry::RegisterService\<close> on one memory.  The call tests whether the
  slot is active outside the writer scope, so between the test and the scope another call may run:
  a registration is two steps here, the test and the scope, and any number of them interleave.
  The stores inside a scope are theory SeqLock.
\<close>

subsection \<open>The two steps of a registration\<close>

text \<open>The error the call returns before the scope, if any.\<close>

definition register_check :: "u32 \<Rightarrow> single_registry \<Rightarrow> com_errc option" where
  "register_check i r =
     (if \<not> IsInitialized r then Some kNotInitialized
      else if \<not> IsValidSlotIndex i then Some kInvalidArgument
      else if IsActive (slot_at r i) then Some kServiceNotOffered
      else None)"

definition register_write :: "u64 \<Rightarrow> proc_env \<times> offer \<Rightarrow> single_registry \<Rightarrow> single_registry" where
  "register_write sid x r = update_slot (hash_slot sid) (write_slot (fill_slot (fst x) sid (snd x))) r"

text \<open>Without anything in between they are the operation.\<close>

lemma register_in_steps:
  "sr_register sid x r =
     (case register_check (hash_slot sid) r of
        Some e \<Rightarrow> (Err e, r)
      | None \<Rightarrow> (Ok (), register_write sid x r))"
  by (simp add: sr_register_def SR_RegisterService_def register_check_def register_write_def)

datatype reg_pc = Before | Accepted | Finished "unit result"

type_synonym request = "u64 \<times> proc_env \<times> offer"

record race =
  ra_reg :: single_registry
  ra_pcs :: "reg_pc list"

definition race_init :: "request list \<Rightarrow> single_registry \<Rightarrow> race" where
  "race_init reqs r = \<lparr> ra_reg = r, ra_pcs = replicate (length reqs) Before \<rparr>"

inductive race_step :: "request list \<Rightarrow> race \<Rightarrow> race \<Rightarrow> bool" for reqs where
  check: "i < length reqs \<Longrightarrow> ra_pcs s ! i = Before \<Longrightarrow>
    race_step reqs s (s\<lparr>ra_pcs := (ra_pcs s)[i :=
      (case register_check (hash_slot (fst (reqs ! i))) (ra_reg s) of
         Some e \<Rightarrow> Finished (Err e) | None \<Rightarrow> Accepted)]\<rparr>)"
| scope: "i < length reqs \<Longrightarrow> ra_pcs s ! i = Accepted \<Longrightarrow>
    race_step reqs s (s\<lparr> ra_reg := register_write (fst (reqs ! i)) (snd (reqs ! i)) (ra_reg s),
      ra_pcs := (ra_pcs s)[i := Finished (Ok ())] \<rparr>)"

inductive race_reach :: "request list \<Rightarrow> single_registry \<Rightarrow> race \<Rightarrow> bool" for reqs r where
  init: "race_reach reqs r (race_init reqs r)"
| step: "race_reach reqs r s \<Longrightarrow> race_step reqs s t \<Longrightarrow> race_reach reqs r t"

inductive_cases race_stepE: "race_step reqs s t"

subsection \<open>Invariant\<close>

text \<open>What is found in the slot of an identifier: one entry, of the identifier \<open>sid\<close>.\<close>

definition slot_holds :: "single_registry \<Rightarrow> u64 \<Rightarrow> proc_env \<times> offer \<Rightarrow> bool" where
  "slot_holds r sid x \<longleftrightarrow>
     (\<forall>k. same_slot sid k \<longrightarrow> sr_lookup k r = (if k = sid then Some (offer_entry sid x) else None))"

definition race_inv :: "request list \<Rightarrow> race \<Rightarrow> bool" where
  "race_inv reqs s \<longleftrightarrow>
     SR_wf (ra_reg s) \<and> length (ra_pcs s) = length reqs \<and>
     (\<forall>i<length reqs. ra_pcs s ! i = Accepted \<longrightarrow> unat (fst (reqs ! i)) mod 1024 \<noteq> 0) \<and>
     (\<forall>i<length reqs. ra_pcs s ! i = Finished (Ok ()) \<longrightarrow>
        (\<exists>j<length reqs. ra_pcs s ! j = Finished (Ok ()) \<and> same_slot (fst (reqs ! i)) (fst (reqs ! j)) \<and>
           slot_holds (ra_reg s) (fst (reqs ! j)) (snd (reqs ! j))))"

lemma same_slot_trans: "same_slot a b \<Longrightarrow> same_slot a c \<longleftrightarrow> same_slot b c"
  by (simp add: same_slot_def)

lemma register_write_wf:
  assumes "SR_wf r"
  shows "SR_wf (register_write sid x r)"
  unfolding register_write_def
  by (rule update_slot_wf [OF assms]) (simp add: write_fill_ok unat_hash_slot)

lemma register_write_lookup:
  assumes wf: "SR_wf r" and sid: "unat sid mod 1024 \<noteq> 0"
  shows "sr_lookup k (register_write sid x r) =
    (if k = sid then Some (offer_entry sid x) else if same_slot sid k then None else sr_lookup k r)"
proof (cases "same_slot sid k")
  case True
  then have k: "hash_slot k = hash_slot sid" "unat k mod 1024 \<noteq> 0"
    using sid by (simp_all add: same_slot_def hash_slot_eq_iff)
  let ?f = "write_slot (fill_slot (fst x) sid (snd x))"
  have "SR_FindService k (register_write sid x r) =
      (if k = sid then Some (?f (slot_at r (hash_slot sid))) else None)"
    using SR_Find_update_same [OF wf _ k(2), of ?f] register_write_wf [OF wf, of sid x] k(1)
    by (simp add: register_write_def)
  moreover have "slot_layout (slot_at r (hash_slot sid))"
    using slot_at_ok [OF wf, of "hash_slot sid"] by (simp add: unat_hash_slot slot_ok_def)
  ultimately show ?thesis
    using True by (simp add: sr_lookup_def fill_slot_entry)
next
  case False
  then have "hash_slot k \<noteq> hash_slot sid" "k \<noteq> sid" by (auto simp: same_slot_def)
  then show ?thesis
    using False SR_Find_update_other [OF wf, of "hash_slot sid" _ k] register_write_wf [OF wf, of sid x]
    by (simp add: sr_lookup_def register_write_def)
qed

lemma register_write_holds:
  assumes "SR_wf r" "unat sid mod 1024 \<noteq> 0"
  shows "slot_holds (register_write sid x r) sid x"
  by (simp add: slot_holds_def register_write_lookup [OF assms])

lemma register_write_other:
  assumes "SR_wf r" "unat sid mod 1024 \<noteq> 0" "\<not> same_slot sid k" "slot_holds r k y"
  shows "slot_holds (register_write sid x r) k y"
  using assms(3,4) by (auto simp: slot_holds_def register_write_lookup [OF assms(1,2)] same_slot_def)

lemma check_inv_step:
  assumes i: "i < length reqs" "ra_pcs s ! i = Before" and inv: "race_inv reqs s"
    and c: "c = (case register_check (hash_slot (fst (reqs ! i))) (ra_reg s) of
      Some e \<Rightarrow> Finished (Err e) | None \<Rightarrow> Accepted)"
  shows "race_inv reqs (s\<lparr>ra_pcs := (ra_pcs s)[i := c]\<rparr>)"
proof -
  have len: "length (ra_pcs s) = length reqs" using inv by (simp add: race_inv_def)
  have acc: "unat (fst (reqs ! i)) mod 1024 \<noteq> 0" if "c = Accepted"
    using that unfolding c by (auto simp: register_check_def hash_slot_valid split: if_splits)
  have nok: "c \<noteq> Finished (Ok ())" unfolding c by (auto split: option.split)
  have pc: "(ra_pcs s)[i := c] ! k = (if k = i then c else ra_pcs s ! k)" if "k < length reqs" for k
    using that len by simp
  have "\<exists>j<length reqs. (ra_pcs s)[i := c] ! j = Finished (Ok ()) \<and>
      same_slot (fst (reqs ! k)) (fst (reqs ! j)) \<and> slot_holds (ra_reg s) (fst (reqs ! j)) (snd (reqs ! j))"
    if k: "k < length reqs" "(ra_pcs s)[i := c] ! k = Finished (Ok ())" for k
  proof -
    have "ra_pcs s ! k = Finished (Ok ())" using k pc nok by (auto split: if_splits)
    then obtain j where j: "j < length reqs" "ra_pcs s ! j = Finished (Ok ())"
        "same_slot (fst (reqs ! k)) (fst (reqs ! j))" "slot_holds (ra_reg s) (fst (reqs ! j)) (snd (reqs ! j))"
      using inv k(1) unfolding race_inv_def by blast
    then have "(ra_pcs s)[i := c] ! j = Finished (Ok ())" using i(2) pc by auto
    with j show ?thesis by blast
  qed
  then show ?thesis
    using inv acc pc len by (auto simp: race_inv_def)
qed

lemma scope_inv_step:
  assumes i: "i < length reqs" "ra_pcs s ! i = Accepted" and inv: "race_inv reqs s"
  shows "race_inv reqs (s\<lparr> ra_reg := register_write (fst (reqs ! i)) (snd (reqs ! i)) (ra_reg s),
      ra_pcs := (ra_pcs s)[i := Finished (Ok ())] \<rparr>)"
proof -
  let ?sid = "\<lambda>k. fst (reqs ! k)" and ?pcs = "(ra_pcs s)[i := Finished (Ok ())]"
  let ?r = "register_write (?sid i) (snd (reqs ! i)) (ra_reg s)"
  have len: "length (ra_pcs s) = length reqs" and wf: "SR_wf (ra_reg s)" and id: "unat (?sid i) mod 1024 \<noteq> 0"
    using inv i by (auto simp: race_inv_def)
  have pc: "?pcs ! k = (if k = i then Finished (Ok ()) else ra_pcs s ! k)" if "k < length reqs" for k
    using that len by simp
  note here = register_write_holds [OF wf id, of "snd (reqs ! i)"]
  have "\<exists>j<length reqs. ?pcs ! j = Finished (Ok ()) \<and> same_slot (?sid k) (?sid j) \<and>
      slot_holds ?r (?sid j) (snd (reqs ! j))"
    if k: "k < length reqs" "?pcs ! k = Finished (Ok ())" for k
  proof (cases "same_slot (?sid k) (?sid i)")
    case True
    with here pc i(1) show ?thesis by (intro exI [of _ i]) simp
  next
    case False
    then have "k \<noteq> i" by (auto simp: same_slot_def)
    then have "ra_pcs s ! k = Finished (Ok ())" using k pc by simp
    then obtain j where j: "j < length reqs" "ra_pcs s ! j = Finished (Ok ())" "same_slot (?sid k) (?sid j)"
        "slot_holds (ra_reg s) (?sid j) (snd (reqs ! j))"
      using inv k(1) unfolding race_inv_def by blast
    have "\<not> same_slot (?sid i) (?sid j)" using False j(3) by (simp add: same_slot_def)
    then have "slot_holds ?r (?sid j) (snd (reqs ! j))" by (rule register_write_other [OF wf id _ j(4)])
    with j pc show ?thesis by (intro exI [of _ j]) simp
  qed
  then show ?thesis
    using inv pc len register_write_wf [OF wf] by (auto simp: race_inv_def)
qed

lemma race_step_inv:
  assumes step: "race_step reqs s t" and inv: "race_inv reqs s"
  shows "race_inv reqs t"
  using step
proof (cases rule: race_step.cases)
  case (check i)
  then show ?thesis using check_inv_step [OF check(2,3) inv refl] by simp
next
  case (scope i)
  then show ?thesis using scope_inv_step [OF scope(2,3) inv] by simp
qed

lemma race_reach_inv:
  assumes "race_reach reqs r s" "SR_wf r"
  shows "race_inv reqs s"
  using assms
proof (induction rule: race_reach.induct)
  case init
  then show ?case by (simp add: race_inv_def race_init_def)
next
  case (step s t)
  then show ?case by (blast intro: race_step_inv)
qed

subsection \<open>Properties\<close>


text \<open>Two registrations of different services in one slot can both return success; only one of them
  is in the registry.\<close>

definition race_registry :: single_registry where
  "race_registry = \<lparr> reg_type = QM, memfd = 3, slots = Some (replicate 1024 empty_slot) \<rparr>"

definition race_requests :: "request list" where
  "race_requests = [(5, demo_offer), (1029, demo_offer)]"

definition race_end :: race where
  "race_end = \<lparr> ra_reg = register_write 1029 demo_offer (register_write 5 demo_offer race_registry),
     ra_pcs = [Finished (Ok ()), Finished (Ok ())] \<rparr>"

lemma race_registry_wf: "SR_wf race_registry"
  by (rule wiped_wf) (simp add: race_registry_def)

lemma race_check: "unat sid mod 1024 \<noteq> 0 \<Longrightarrow> register_check (hash_slot sid) race_registry = None"
  using sr.reg_accepted [OF race_registry_wf, of sid demo_offer]
  by (auto simp: register_in_steps wiped_find race_registry_def split: option.splits)

lemma race_end_reachable: "race_reach race_requests race_registry race_end"
proof -
  let ?A = "Accepted" and ?r1 = "register_write 5 demo_offer race_registry"
  let ?s = "\<lambda>r pcs. \<lparr> ra_reg = r, ra_pcs = pcs \<rparr>"
  have c: "register_check (hash_slot 5) race_registry = None" "register_check (hash_slot 1029) race_registry = None"
    by (rule race_check; simp)+
  have "race_reach race_requests race_registry (?s race_registry [Before, Before])"
    using race_reach.init [of race_requests race_registry] by (simp add: race_init_def race_requests_def)
  from race_reach.step [OF this check [of 0]]
  have "race_reach race_requests race_registry (?s race_registry [?A, Before])"
    by (simp add: race_requests_def c)
  from race_reach.step [OF this check [of 1]]
  have "race_reach race_requests race_registry (?s race_registry [?A, ?A])"
    by (simp add: race_requests_def c)
  from race_reach.step [OF this scope [of 0]]
  have "race_reach race_requests race_registry (?s ?r1 [Finished (Ok ()), ?A])"
    by (simp add: race_requests_def)
  from race_reach.step [OF this scope [of 1]]
  show ?thesis by (simp add: race_requests_def race_end_def)
qed

lemma both_registrations_succeed:
  "\<exists>s. race_reach race_requests race_registry s \<and> ra_pcs s = [Finished (Ok ()), Finished (Ok ())] \<and>
     sr_lookup 5 (ra_reg s) = None \<and> sr_lookup 1029 (ra_reg s) = Some (offer_entry 1029 demo_offer)"
proof (intro exI conjI)
  show "race_reach race_requests race_registry race_end" by (rule race_end_reachable)
  have "SR_wf (register_write 5 demo_offer race_registry)" by (rule register_write_wf [OF race_registry_wf])
  from register_write_lookup [OF this, of 1029]
  show "sr_lookup 5 (ra_reg race_end) = None" "sr_lookup 1029 (ra_reg race_end) = Some (offer_entry 1029 demo_offer)"
    by (simp_all add: race_end_def same_slot_def hash_slot_eq_iff)
qed (simp add: race_end_def)


end
