(* ===== verification/ConcurrentFind.thy ===== *)
theory ConcurrentFind
  imports SharedRegistry
begin

text \<open>
  A search that overlaps registrations, withdrawals and heartbeats of its slot: the sequence lock of
  theory SeqLock on the memory cells of a slot (one per integer field and per character of the text
  fields), with the stores each writer scope of the registry makes, in the order of the code.
  Writers are serialised among themselves.  The search reads each cell once; reading a cell again
  within an accepted attempt gives the same value.
\<close>

subsection \<open>A slot as memory cells\<close>

datatype cell = W64 u64 | W32 u32 | Ch char

definition head_cells :: "u64 \<Rightarrow> u64 \<Rightarrow> u32 \<Rightarrow> u32 \<Rightarrow> string \<Rightarrow> string \<Rightarrow> u64 \<Rightarrow> u32 \<Rightarrow> cell list" where
  "head_cells sid inst major minor bt ep hb interval =
     [W64 sid, W64 inst, W32 major, W32 minor] @ map Ch bt @ map Ch ep @ [W64 hb, W32 interval]"

definition slot_cells :: "service_slot \<Rightarrow> cell list" where
  "slot_cells s =
     head_cells (service_id s) (instance_id s) (major_version s) (minor_version s) (binding_type s)
       (endpoint s) (last_heartbeat_ns s) (heartbeat_interval_ms s) @
     [W32 (status s), W32 (owner_pid s)] @ map Ch (metadata s)"

text \<open>The writer scopes of \<open>RegisterService\<close>, \<open>UnregisterService\<close> and \<open>UpdateHeartbeat\<close>.\<close>

datatype writer_body = Fill u64 "proc_env \<times> offer" | Clear | Beat u64

fun body_effect :: "writer_body \<Rightarrow> service_slot \<Rightarrow> service_slot" where
  "body_effect (Fill sid x) s = fill_slot (fst x) sid (snd x) s"
| "body_effect Clear s = reset_slot s"
| "body_effect (Beat ts) s = s\<lparr>last_heartbeat_ns := ts\<rparr>"

text \<open>Their stores: a registration writes the status last and leaves the metadata.\<close>

fun body_stores :: "writer_body \<Rightarrow> (nat \<times> cell) list" where
  "body_stores (Fill sid x) =
     zip [0..<102] (head_cells sid (of_instance (snd x)) (of_major (snd x)) (of_minor (snd x))
       (set_cbuf (zero_chars 16) (of_binding (snd x))) (set_cbuf (zero_chars 80) (of_endpoint (snd x)))
       (now_ns (fst x)) 100) @
     [(103, W32 (pid (fst x))), (102, W32 (status_code ACTIVE))]"
| "body_stores Clear = zip [0..<168] (slot_cells empty_slot)"
| "body_stores (Beat ts) = [(100, W64 ts)]"

definition apply_stores :: "(nat \<times> cell) list \<Rightarrow> cell list \<Rightarrow> cell list" where
  "apply_stores us cs = fold (\<lambda>(k, v) cs. cs[k := v]) us cs"

lemma apply_stores_simps [simp]:
  "apply_stores [] cs = cs" "apply_stores ((k, v) # us) cs = apply_stores us (cs[k := v])"
  "apply_stores (us @ vs) cs = apply_stores vs (apply_stores us cs)"
  by (simp_all add: apply_stores_def)

lemma apply_block:
  "k + length vs \<le> length cs \<Longrightarrow>
   apply_stores (zip [k..<k + length vs] vs) cs = take k cs @ vs @ drop (k + length vs) cs"
proof (induction vs arbitrary: k cs)
  case (Cons v vs)
  have "apply_stores (zip [k..<k + length (v # vs)] (v # vs)) cs =
      apply_stores (zip [Suc k..<Suc k + length vs] vs) (cs[k := v])"
    by (simp add: upt_conv_Cons del: upt_Suc)
  also have "\<dots> = take (Suc k) (cs[k := v]) @ vs @ drop (Suc k + length vs) (cs[k := v])"
    using Cons.prems by (intro Cons.IH) simp
  also have "\<dots> = take k cs @ (v # vs) @ drop (k + length (v # vs)) cs"
    using Cons.prems by (simp add: take_Suc_conv_app_nth)
  finally show ?case .
qed simp

lemma length_head_cells [simp]:
  "length (head_cells sid inst major minor bt ep hb interval) = length bt + length ep + 6"
  by (simp add: head_cells_def)

text \<open>What ends in a text buffer does not depend on what it held.\<close>

lemma set_cbuf_length:
  assumes "length dst = length dst'"
  shows "set_cbuf dst src = set_cbuf dst' src"
proof (cases "dst = []")
  case False
  let ?n = "length dst - 1"
  let ?P = "take ?n (c_str src) @ replicate (?n - length (take ?n (c_str src))) (CHR 0x00)"
  have P: "length ?P = ?n" using False by (cases dst) (simp_all add: min_def)
  have form: "set_cbuf d src = ?P @ [CHR 0x00]" if "length d = length dst" for d
  proof -
    have "length (drop ?n d) = 1" using that False by (cases dst) simp_all
    then obtain c where c: "drop ?n d = [c]" by (metis length_0_conv length_Suc_conv One_nat_def)
    have "set_cbuf d src = (?P @ [c])[?n := CHR 0x00]"
      using that c by (simp add: set_cbuf_def strncpy_def Let_def)
    also have "\<dots> = ?P @ [CHR 0x00]"
      by (metis P list_update_length)
    finally show ?thesis .
  qed
  show ?thesis using form [of dst] form [of dst'] assms by simp
qed (use assms in simp)

lemma length_slot_cells: "slot_layout s \<Longrightarrow> length (slot_cells s) = 168"
  by (simp add: slot_cells_def slot_layout_def)

lemma fill_cells:
  assumes "slot_layout s"
  shows "apply_stores (body_stores (Fill sid x)) (slot_cells s) = slot_cells (body_effect (Fill sid x) s)"
proof -
  let ?h = "head_cells sid (of_instance (snd x)) (of_major (snd x)) (of_minor (snd x))
    (set_cbuf (zero_chars 16) (of_binding (snd x))) (set_cbuf (zero_chars 80) (of_endpoint (snd x)))
    (now_ns (fst x)) 100"
  have lay: "length (binding_type s) = 16" "length (endpoint s) = 80"
    using assms by (simp_all add: slot_layout_def)
  then have buf: "set_cbuf (zero_chars 16) src = set_cbuf (binding_type s) src"
      "set_cbuf (zero_chars 80) src = set_cbuf (endpoint s) src" for src
    by (auto intro: set_cbuf_length simp: zero_chars_def)
  have h: "length ?h = 102"
    by (simp add: zero_chars_def)
  have "apply_stores (zip [0..<102] ?h) (slot_cells s) = ?h @ drop 102 (slot_cells s)"
    using apply_block [of 0 ?h "slot_cells s"] h length_slot_cells [OF assms] by simp
  also have "drop 102 (slot_cells s) = [W32 (status s), W32 (owner_pid s)] @ map Ch (metadata s)"
    using lay by (simp add: slot_cells_def)
  finally have "apply_stores (body_stores (Fill sid x)) (slot_cells s) =
      ?h @ [W32 (status_code ACTIVE), W32 (pid (fst x))] @ map Ch (metadata s)"
    using h by (simp add: list_update_append del: status_code.simps)
  also have "\<dots> = slot_cells (body_effect (Fill sid x) s)"
    by (simp add: slot_cells_def fill_slot_def buf)
  finally show ?thesis .
qed

lemma body_cells:
  assumes "slot_layout s"
  shows "apply_stores (body_stores b) (slot_cells s) = slot_cells (body_effect b s) \<and>
    slot_layout (body_effect b s)"
proof (cases b)
  case (Fill sid x)
  then show ?thesis using fill_cells [OF assms] fill_slot_layout [OF assms] by simp
next
  case Clear
  have "apply_stores (body_stores Clear) (slot_cells s) = slot_cells empty_slot"
    using apply_block [of 0 "slot_cells empty_slot" "slot_cells s"] length_slot_cells [OF assms]
      length_slot_cells [OF empty_slot_layout] by simp
  also have "\<dots> = slot_cells (reset_slot s)" by (simp add: slot_cells_def reset_slot_eq)
  finally show ?thesis using Clear reset_slot_layout by simp
next
  case (Beat ts)
  have "length (binding_type s) = 16" "length (endpoint s) = 80"
    using assms by (simp_all add: slot_layout_def)
  then have "(slot_cells s)[100 := W64 ts] = slot_cells (s\<lparr>last_heartbeat_ns := ts\<rparr>)"
    by (simp add: slot_cells_def head_cells_def list_update_append)
  then show ?thesis using Beat assms by simp
qed

subsection \<open>The slot while it is used\<close>

text \<open>The contents that scopes of the set \<open>B\<close> produce, one after the other.\<close>

inductive slot_history :: "writer_body set \<Rightarrow> service_slot \<Rightarrow> service_slot \<Rightarrow> bool" for B s0 where
  start: "slot_history B s0 s0"
| scope: "slot_history B s0 s \<Longrightarrow> b \<in> B \<Longrightarrow> slot_history B s0 (body_effect b s)"

text \<open>Every scope that opens is one of \<open>B\<close>.\<close>

definition scopes_from :: "writer_body set \<Rightarrow> cell seq_state \<Rightarrow> cell seq_state \<Rightarrow> bool" where
  "scopes_from B s t \<longleftrightarrow>
     (\<forall>i us. i < length (sl_writers s) \<and> sl_writers s ! i = WIdle \<and> sl_writers t ! i = WWriting us \<longrightarrow>
        (\<exists>b\<in>B. us = body_stores b))"

inductive use_reach :: "writer_body set \<Rightarrow> service_slot \<Rightarrow> nat \<Rightarrow> cell seq_state \<Rightarrow> bool" for B s0 w where
  use_init: "use_reach B s0 w (seq_init (slot_cells s0) w)"
| use_step: "use_reach B s0 w s \<Longrightarrow> seq_step s t \<Longrightarrow> serialised t \<Longrightarrow> scopes_from B s t \<Longrightarrow>
    use_reach B s0 w t"

lemma use_serial: "use_reach B s0 w s \<Longrightarrow> serial_reach (slot_cells s0) w s"
  by (induction rule: use_reach.induct) (auto intro: serial_reach.intros)

definition use_inv :: "writer_body set \<Rightarrow> service_slot \<Rightarrow> cell seq_state \<Rightarrow> bool" where
  "use_inv B s0 s \<longleftrightarrow>
     serialised s \<and>
     (\<forall>d\<in>set (sl_commits s). \<exists>h. slot_history B s0 h \<and> d = slot_cells h) \<and>
     (all_idle s \<longrightarrow> (\<exists>h. slot_history B s0 h \<and> sl_cells s = slot_cells h)) \<and>
     (\<forall>i us. i < length (sl_writers s) \<and> sl_writers s ! i = WWriting us \<longrightarrow>
        (\<exists>h. slot_history B s0 h \<and> apply_stores us (sl_cells s) = slot_cells h))"

lemma history_layout: "slot_history B s0 h \<Longrightarrow> slot_layout s0 \<Longrightarrow> slot_layout h"
  by (induction rule: slot_history.induct) (auto simp: body_cells)

lemma use_lock:
  assumes i: "i < length (sl_writers s)" "sl_writers s ! i = WIdle"
    and t: "t = s\<lparr> sl_seq := writer_acquire (sl_seq s),
              sl_writers := (sl_writers s)[i := WWriting us], sl_bumps := Suc (sl_bumps s) \<rparr>"
    and inv: "use_inv B s0 s" and ser: "serialised t" and opened: "scopes_from B s t" and lay: "slot_layout s0"
  shows "use_inv B s0 t"
proof -
  have ti: "sl_writers t ! i = WWriting us" "length (sl_writers t) = length (sl_writers s)" using i by (simp_all add: t)
  have others: "sl_writers s ! j = WIdle" if "j < length (sl_writers s)" for j
    using serialised_other [OF ser, of i j] ti i that by (cases "j = i") (auto simp: t)
  then have "all_idle s" by (simp add: all_idle_def)
  then obtain h where h: "slot_history B s0 h" "sl_cells s = slot_cells h"
    using inv by (auto simp: use_inv_def)
  obtain b where b: "b \<in> B" "us = body_stores b"
    using opened i ti(1) unfolding scopes_from_def by blast
  have "slot_history B s0 (body_effect b h) \<and> apply_stores us (sl_cells t) = slot_cells (body_effect b h)"
    using h b body_cells [OF history_layout [OF h(1) lay], of b] by (auto simp: t intro: slot_history.scope)
  moreover have "sl_writers t ! j = WIdle" if "j < length (sl_writers s)" "j \<noteq> i" for j
    using others [OF that(1)] that by (simp add: t)
  moreover have "\<not> all_idle t" using i ti by (auto simp: all_idle_def)
  moreover have "sl_commits t = sl_commits s" by (simp add: t)
  ultimately show ?thesis
    using inv ser ti unfolding use_inv_def by (metis writer_pc.distinct(1) writer_pc.inject)
qed

lemma use_store:
  assumes i: "i < length (sl_writers s)" "sl_writers s ! i = WWriting ((k, v) # us)"
    and t: "t = s\<lparr> sl_cells := (sl_cells s)[k := v], sl_writers := (sl_writers s)[i := WWriting us] \<rparr>"
    and inv: "use_inv B s0 s" and ser: "serialised t"
  shows "use_inv B s0 t"
proof -
  have ti: "sl_writers t ! i = WWriting us" "length (sl_writers t) = length (sl_writers s)"
    "sl_commits t = sl_commits s" using i by (simp_all add: t)
  obtain h where "slot_history B s0 h" "apply_stores ((k, v) # us) (sl_cells s) = slot_cells h"
    using inv i unfolding use_inv_def by blast
  then have h: "slot_history B s0 h" "apply_stores us (sl_cells t) = slot_cells h"
    by (simp_all add: t)
  have "sl_writers t ! j = WIdle" if "j < length (sl_writers s)" "j \<noteq> i" for j
    using serialised_other [OF ser, of i j] ti i that by simp
  moreover have "\<not> all_idle t" using i ti by (auto simp: all_idle_def)
  ultimately show ?thesis
    using inv ser ti h unfolding use_inv_def by (metis writer_pc.distinct(1) writer_pc.inject)
qed

lemma use_unlock:
  assumes i: "i < length (sl_writers s)" "sl_writers s ! i = WWriting []"
    and t: "t = s\<lparr> sl_seq := writer_release (sl_seq s), sl_writers := (sl_writers s)[i := WIdle],
              sl_commits := sl_cells s # sl_commits s, sl_bumps := Suc (sl_bumps s) \<rparr>"
    and inv: "use_inv B s0 s" and ser: "serialised t"
  shows "use_inv B s0 t"
proof -
  have ti: "length (sl_writers t) = length (sl_writers s)"
    "sl_commits t = sl_cells s # sl_commits s" "sl_cells t = sl_cells s" by (simp_all add: t)
  obtain h where "slot_history B s0 h" "apply_stores [] (sl_cells s) = slot_cells h"
    using inv i unfolding use_inv_def by blast
  then have h: "\<exists>h. slot_history B s0 h \<and> sl_cells s = slot_cells h" by auto
  have "sl_writers t ! j = WIdle" if "j < length (sl_writers s)" for j
    using serialised_other [of s i j] inv i that by (cases "j = i") (auto simp: t use_inv_def)
  then have idle: "\<forall>j us. j < length (sl_writers t) \<longrightarrow> sl_writers t ! j \<noteq> WWriting us"
    using ti by simp
  have commits: "\<forall>d\<in>set (sl_commits t). \<exists>h. slot_history B s0 h \<and> d = slot_cells h"
    using inv h ti by (auto simp: use_inv_def)
  show ?thesis
    unfolding use_inv_def using ser idle commits h ti(3) by auto
qed

lemma use_reader: "use_inv B s0 (s\<lparr>sl_reader := r\<rparr>) = use_inv B s0 s"
  by (simp add: use_inv_def serialised_def all_idle_def)

lemma use_reach_inv:
  assumes "use_reach B s0 w s" "slot_layout s0"
  shows "use_inv B s0 s"
  using assms
proof (induction rule: use_reach.induct)
  case use_init
  show ?case
    by (auto simp: use_inv_def seq_init_def serialised_def intro: slot_history.start)
next
  case (use_step s t)
  note ih = use_step.IH [OF use_step.prems]
  from use_step.hyps(2) show ?case
  proof cases
    case (w_lock i us)
    then show ?thesis using use_lock [OF w_lock(2,3,1) ih use_step.hyps(3,4) use_step.prems] by simp
  next
    case (w_store i k v us)
    then show ?thesis using use_store [OF w_store(2,3,1) ih use_step.hyps(3)] by simp
  next
    case (w_unlock i)
    then show ?thesis using use_unlock [OF w_unlock(2,3,1) ih use_step.hyps(3)] by simp
  next
    case (r_load n)
    then show ?thesis using ih by (simp only: use_reader)
  next
    case (r_copy n q acc)
    then show ?thesis using ih by (simp only: use_reader)
  next
    case (r_check n q acc)
    then show ?thesis using ih by (simp only: use_reader)
  qed
qed

subsection \<open>What a search returns\<close>

text \<open>The test of \<open>FindService\<close> on the cells read: the identifier matches and the slot is active.\<close>

definition cells_match :: "u64 \<Rightarrow> cell list \<Rightarrow> bool" where
  "cells_match sid d \<longleftrightarrow> d ! 0 = W64 sid \<and> d ! 102 = W32 (status_code ACTIVE)"

lemma cells_match_slot:
  assumes "slot_layout h"
  shows "cells_match sid (slot_cells h) \<longleftrightarrow> service_id h = sid \<and> IsActive h"
proof -
  have "length (head_cells (service_id h) (instance_id h) (major_version h) (minor_version h)
      (binding_type h) (endpoint h) (last_heartbeat_ns h) (heartbeat_interval_ms h)) = 102"
    using assms by (simp add: slot_layout_def)
  then have "slot_cells h ! 102 = W32 (status h)"
    by (simp add: slot_cells_def nth_append)
  moreover have "slot_cells h ! 0 = W64 (service_id h)"
    by (simp add: slot_cells_def head_cells_def)
  ultimately show ?thesis by (auto simp: cells_match_def IsActive_def)
qed

lemma history_entry:
  assumes "slot_history B s0 h" "slot_layout s0" "IsActive h"
  shows "IsActive s0 \<and> slot_entry h = slot_entry s0 \<or>
    (\<exists>sid x. Fill sid x \<in> B \<and> slot_entry h = offer_entry sid x)"
  using assms
proof (induction rule: slot_history.induct)
  case (scope s b)
  show ?case
  proof (cases b)
    case (Fill sid x)
    then have "slot_entry (body_effect b s) = offer_entry sid x"
      using fill_slot_entry [OF history_layout [OF scope.hyps(1) scope.prems(1)], of "fst x" sid "snd x"]
      by simp
    then show ?thesis using scope.hyps(2) Fill by blast
  next
    case Clear
    then show ?thesis using scope.prems(2) by simp
  next
    case (Beat ts)
    then show ?thesis using scope by (simp add: heartbeat_view)
  qed
qed simp

lemma entry_service: "e_service (slot_entry h) = service_id h" "e_service (offer_entry sid x) = sid"
  by (simp_all add: slot_entry_def offer_entry_def split: prod.split)

subsection \<open>Properties\<close>


lemma no_scope_opens:
  assumes "\<And>i us. i < length (sl_writers s) \<Longrightarrow> sl_writers s ! i = WIdle \<Longrightarrow> sl_writers t ! i \<noteq> WWriting us"
  shows "scopes_from B s t"
  using assms by (auto simp: scopes_from_def)

lemma use_reader_step:
  assumes "use_reach B s0 w s" "seq_step s (s\<lparr>sl_reader := r\<rparr>)"
  shows "use_reach B s0 w (s\<lparr>sl_reader := r\<rparr>)"
proof -
  have "serialised s"
    using assms(1) by (cases rule: use_reach.cases) (auto simp: seq_init_def serialised_def)
  then have "serialised (s\<lparr>sl_reader := r\<rparr>)" by (simp add: serialised_def)
  moreover have "scopes_from B s (s\<lparr>sl_reader := r\<rparr>)" by (rule no_scope_opens) simp
  ultimately show ?thesis by (rule use_reach.use_step [OF assms])
qed

lemma use_copies:
  assumes "use_reach B s0 w s" "sl_reader s = RCopy n q []" "k \<le> length (sl_cells s)"
  shows "use_reach B s0 w (s\<lparr>sl_reader := RCopy n q (take k (sl_cells s))\<rparr>)"
  using assms(3)
proof (induction k)
  case 0
  show ?case using assms(1,2) by (cases s) simp
next
  case (Suc k)
  let ?s = "s\<lparr>sl_reader := RCopy n q (take k (sl_cells s))\<rparr>"
  have ih: "use_reach B s0 w ?s" using Suc by simp
  have "seq_step ?s (?s\<lparr>sl_reader := RCopy n q (take k (sl_cells s) @ [sl_cells ?s ! length (take k (sl_cells s))])\<rparr>)"
    by (rule seq_step.r_copy) (use Suc.prems in simp_all)
  from use_reader_step [OF ih this]
  have "use_reach B s0 w (s\<lparr>sl_reader := RCopy n q (take k (sl_cells s) @ [sl_cells s ! k])\<rparr>)"
    using Suc.prems by simp
  then show ?case
    using Suc.prems by (simp add: take_Suc_conv_app_nth min_def)
qed

lemma use_stores:
  assumes "use_reach B s0 w s" "sl_writers s = [WWriting (vs @ us)]"
  shows "use_reach B s0 w (s\<lparr>sl_cells := apply_stores vs (sl_cells s), sl_writers := [WWriting us]\<rparr>)"
  using assms
proof (induction vs arbitrary: s)
  case (Cons kv vs)
  obtain k v where kv: "kv = (k, v)" by (cases kv)
  let ?s = "s\<lparr>sl_cells := (sl_cells s)[k := v], sl_writers := [WWriting (vs @ us)]\<rparr>"
  have "seq_step s (s\<lparr>sl_cells := (sl_cells s)[k := v],
      sl_writers := (sl_writers s)[0 := WWriting (vs @ us)]\<rparr>)"
    by (rule seq_step.w_store) (simp_all add: Cons.prems(2) kv)
  then have "seq_step s ?s" by (simp add: Cons.prems(2))
  moreover have "serialised ?s" by (simp add: serialised_def)
  moreover have "scopes_from B s ?s" by (rule no_scope_opens) (simp add: Cons.prems(2))
  ultimately have "use_reach B s0 w ?s" by (rule use_reach.use_step [OF Cons.prems(1)])
  from Cons.IH [OF this] show ?case by (simp add: kv)
next
  case Nil
  then show ?case by (cases s) simp
qed

definition demo_bodies :: "writer_body set" where
  "demo_bodies = {Fill 5 demo_offer}"

definition demo_used :: "cell list \<Rightarrow> cell seq_state" where
  "demo_used c =
     \<lparr> sl_seq = 2, sl_cells = c, sl_writers = [WIdle], sl_reader = RDone (Some c),
       sl_commits = [c, slot_cells empty_slot], sl_bumps = 2 \<rparr>"

lemma demo_used_reach:
  "use_reach demo_bodies empty_slot 1 (demo_used (slot_cells (body_effect (Fill 5 demo_offer) empty_slot)))"
proof -
  let ?c = "slot_cells (body_effect (Fill 5 demo_offer) empty_slot)" and ?us = "body_stores (Fill 5 demo_offer)"
  let ?s = "\<lambda>q c w r cs n. \<lparr> sl_seq = q, sl_cells = c, sl_writers = [w], sl_reader = r, sl_commits = cs,
    sl_bumps = n \<rparr> :: cell seq_state"
  let ?e = "slot_cells empty_slot" and ?R = "use_reach demo_bodies empty_slot 1"
  have ser: "serialised (?s q c w r cs n)" for q c w r cs n by (simp add: serialised_def)
  have c: "apply_stores ?us ?e = ?c" using body_cells [OF empty_slot_layout] by blast
  have s0: "?R (?s 0 ?e WIdle (RTop 0) [?e] 0)"
    using use_reach.use_init [of demo_bodies empty_slot 1] by (simp add: seq_init_def)
  have "seq_step (?s 0 ?e WIdle (RTop 0) [?e] 0) (?s 1 ?e (WWriting ?us) (RTop 0) [?e] 1)"
    using seq_step.w_lock [of 0 "?s 0 ?e WIdle (RTop 0) [?e] 0" ?us] by (simp add: writer_acquire_def)
  then have s1: "?R (?s 1 ?e (WWriting ?us) (RTop 0) [?e] 1)"
    by (rule use_reach.use_step [OF s0 _ ser]) (simp add: scopes_from_def demo_bodies_def)
  have s2: "?R (?s 1 ?c (WWriting []) (RTop 0) [?e] 1)"
    using use_stores [OF s1, of ?us "[]"] c by simp
  have "seq_step (?s 1 ?c (WWriting []) (RTop 0) [?e] 1) (?s 2 ?c WIdle (RTop 0) [?c, ?e] 2)"
    using seq_step.w_unlock [of 0 "?s 1 ?c (WWriting []) (RTop 0) [?e] 1"]
    by (simp add: writer_release_def numeral_2_eq_2)
  then have s3: "?R (?s 2 ?c WIdle (RTop 0) [?c, ?e] 2)"
    by (rule use_reach.use_step [OF s2 _ ser]) (simp add: scopes_from_def)
  have s4: "?R (?s 2 ?c WIdle (RCopy 0 2 []) [?c, ?e] 2)"
    using use_reader_step [OF s3 seq_step.r_load [of _ 0]] by (simp add: write_in_progress_def)
  have s5: "?R (?s 2 ?c WIdle (RCopy 0 2 ?c) [?c, ?e] 2)"
    using use_copies [OF s4, of 0 2 "length ?c"] by simp
  show ?thesis
    using use_reader_step [OF s5 seq_step.r_check [of _ 0 2 ?c]] by (simp add: demo_used_def)
qed


end
