(* ===== verification/Transport.thy ===== *)
theory Transport
  imports BindingManager "HOL-Library.Multiset"
begin

text \<open>
  binding/common/ITransportBinding.hpp: the operations every transport binding implements, as data,
  so that the bindings over iceoryx2 and DDS can be driven by the same sequences of calls.  A
  binding works on handles of its transport library; the calls it makes are a trace, and \<open>live\<close>
  are the handles the trace has created and not given back.  The locale \<open>binding_lifecycle\<close> is the
  contract of the interface's documentation: initialising twice is harmless and shutting down
  releases every resource.  The theory also holds what both bindings share: numbers printed by an
  ostream, \<open>std::map\<close> as a sorted list, and the running average of the latency.
\<close>

subsection \<open>The operations of the interface\<close>

datatype binding_op =
    Initialize
  | Shutdown
  | OfferService u64 u64
  | StopOfferService u64 u64
  | FindService u64
  | SendEvent u64 u64 u32 "u8 list"
  | SubscribeEvent u64 u64 u32 nat
  | UnsubscribeEvent u64 u64 u32
  | CallMethod u64 u64 u32 "u8 list"
  | RegisterMethod u64 u64 u32 nat
  | GetField u64 u64 u32
  | SetField u64 u64 u32 "u8 list"

text \<open>\<open>Result<void>\<close>, \<open>Result<std::vector<uint64_t>>\<close> and \<open>Result<ByteBuffer>\<close>.\<close>

datatype binding_reply =
    Void "unit result"
  | Instances "u64 list result"
  | Buffer "u8 list result"

text \<open>The event an \<open>EventCallback\<close> receives: service, instance, event and data.\<close>

datatype event_delivery = EventCall nat u64 u64 u32 "u8 list"

subsection \<open>Numbers as text\<close>

definition digit_char :: "nat \<Rightarrow> char" where
  "digit_char d = char_of (if d < 10 then 48 + d else 87 + d)"

fun digits_str :: "nat \<Rightarrow> nat \<Rightarrow> string" where
  "digits_str base n =
     (if base < 2 \<or> n < base then [digit_char n]
      else digits_str base (n div base) @ [digit_char (n mod base)])"

declare digits_str.simps [simp del]

text \<open>\<open>oss << std::hex << w\<close>, and with \<open>std::setw (4)\<close> and \<open>std::setfill ('0')\<close>.\<close>

definition hex_str :: "'a::len word \<Rightarrow> string" where
  "hex_str w = digits_str 16 (unat w)"

definition hex4 :: "'a::len word \<Rightarrow> string" where
  "hex4 w = replicate (4 - length (hex_str w)) CHR ''0'' @ hex_str w"

lemma digit_val_char [simp]: "d < 16 \<Longrightarrow> digit_val (digit_char d) = Some d"
  by (auto simp: digit_char_def digit_val_def Let_def)

lemma is_digit_char [simp]: "d < 16 \<Longrightarrow> is_digit 16 (digit_char d)"
  by (simp add: is_digit_def)

text \<open>The characters of a hexadecimal number are digits, so none of them is a blank, a sign, the
  \<open>x\<close> of a prefix or a separator.\<close>

lemma hex_digits: "c \<in> set (digits_str 16 n) \<Longrightarrow> is_digit 16 c"
  by (induction "16::nat" n rule: digits_str.induct)
    (subst (asm) (2) digits_str.simps, auto split: if_splits)

lemma digits_str_ne [simp]: "digits_str b n \<noteq> []"
  by (subst digits_str.simps) simp

lemma hex_str_ne [simp]: "hex_str w \<noteq> []"
  by (simp add: hex_str_def)

lemma is_digit_other [simp]:
  "\<not> is_digit 16 CHR ''_''" "\<not> is_digit 16 CHR ''-''" "\<not> is_digit 16 CHR ''+''"
  "\<not> is_digit 16 CHR ''x''" "\<not> is_digit 16 CHR ''X''" "\<not> is_digit 16 CHR ''/''"
  by (simp_all add: is_digit_def digit_val_def)

lemma is_digit_not_space: "is_digit 16 c \<Longrightarrow> \<not> is_space c"
  by (auto simp: is_digit_def is_space_def digit_val_def Let_def split: if_splits)

lemma hex_str_no_sep [simp]: "CHR ''_'' \<notin> set (hex_str w)"
  using hex_digits [of "CHR ''_''" "unat w"] by (auto simp: hex_str_def)

lemma digits_value_append:
  "\<forall>c\<in>set xs. is_digit b c \<Longrightarrow>
   digits_value b acc (xs @ ys) = digits_value b (digits_value b acc xs) ys"
  by (induction xs arbitrary: acc) (auto simp: is_digit_def split: option.splits)

lemma digits_value_hex: "digits_value 16 0 (digits_str 16 n) = n"
proof (induction "16::nat" n rule: digits_str.induct)
  case (1 n)
  show ?case
  proof (cases "n < 16")
    case True
    then show ?thesis by (simp add: digits_str.simps)
  next
    case False
    then have "digits_str 16 n = digits_str 16 (n div 16) @ [digit_char (n mod 16)]"
      by (subst digits_str.simps) simp
    then show ?thesis
      using 1 False by (simp add: digits_value_append hex_digits)
  qed
qed

text \<open>Printing in hexadecimal and parsing in base 16 is the identity.\<close>

lemma stoull_hex_str [simp]: "stoull 16 (hex_str (w :: u64)) = Some w"
proof -
  let ?s = "hex_str w"
  have dig: "is_digit 16 c" if "c \<in> set ?s" for c
    using that hex_digits by (simp add: hex_str_def)
  obtain c cs where s: "?s = c # cs" by (cases ?s) auto
  have c: "is_digit 16 c" using dig s by simp
  have "dropWhile is_space ?s = ?s"
    using is_digit_not_space [OF c] s by simp
  moreover have "take 1 ?s \<noteq> ''-''" "take 1 ?s \<noteq> ''+''"
    using c s by auto
  moreover have "\<not> has_0x ?s"
  proof (cases cs)
    case (Cons d ds)
    then have "is_digit 16 d" using dig s by simp
    then have "d \<noteq> CHR ''x''" "d \<noteq> CHR ''X''" by (metis is_digit_other)+
    then show ?thesis using s Cons by (simp add: has_0x_def)
  qed (simp add: s has_0x_def)
  moreover have "takeWhile (is_digit 16) ?s \<noteq> []"
    using c s by simp
  moreover have "digits_value 16 0 ?s = unat w"
    by (simp add: hex_str_def digits_value_hex)
  moreover have "unat w < 2 ^ 64"
    using unsigned_less [of w, where ?'a = nat] by simp
  ultimately show ?thesis
    by (simp add: stoull_def Let_def)
qed

lemma hex_str_inj [simp]: "hex_str (v :: 'a::len word) = hex_str w \<longleftrightarrow> v = w"
  by (metis hex_str_def digits_value_hex unsigned_word_eqI)

subsection \<open>std::map and the average latency\<close>

definition map_put :: "'k::linorder \<Rightarrow> 'v \<Rightarrow> ('k \<times> 'v) list \<Rightarrow> ('k \<times> 'v) list" where
  "map_put k v m = insort_key fst (k, v) (filter (\<lambda>p. fst p \<noteq> k) m)"

definition map_drop :: "'k \<Rightarrow> ('k \<times> 'v) list \<Rightarrow> ('k \<times> 'v) list" where
  "map_drop k m = filter (\<lambda>p. fst p \<noteq> k) m"

lemma map_of_filter_fst: "map_of (filter (\<lambda>p. fst p \<noteq> k) m) = (map_of m)(k := None)"
  by (induction m) (auto simp: fun_eq_iff)

lemma map_of_insort:
  "k \<notin> fst ` set m \<Longrightarrow> map_of (insort_key fst (k, v) m) = (map_of m)(k \<mapsto> v)"
  by (induction m) (auto simp: fun_eq_iff)

lemma map_of_map_put [simp]: "map_of (map_put k v m) = (map_of m)(k \<mapsto> v)"
  by (subst map_put_def, subst map_of_insort) (auto simp: map_of_filter_fst)

lemma map_of_map_drop [simp]: "map_of (map_drop k m) = (map_of m)(k := None)"
  by (simp add: map_drop_def map_of_filter_fst)

lemma set_map_put_new:
  "k \<notin> fst ` set m \<Longrightarrow> set (map_put k v m) = insert (k, v) (set m)"
  by (auto simp: map_put_def set_insort_key image_iff)

lemma distinct_insort_key_fst:
  "distinct (map fst m) \<Longrightarrow> k \<notin> fst ` set m \<Longrightarrow> distinct (map fst (insort_key fst (k, v) m))"
  by (induction m) (auto simp: set_insort_key)

lemma distinct_map_put: "distinct (map fst m) \<Longrightarrow> distinct (map fst (map_put k v m))"
  unfolding map_put_def
  by (rule distinct_insort_key_fst) (auto simp: distinct_map_filter)

text \<open>The moving average both bindings keep, in 64-bit arithmetic; \<open>n\<close> messages, this one included.\<close>

definition average_latency :: "u64 \<Rightarrow> u64 \<Rightarrow> u64 \<Rightarrow> u64" where
  "average_latency avg n lat = (if n = 1 then lat else (avg * (n - 1) + lat) div n)"

subsection \<open>Live handles of a trace\<close>

definition live :: "('c \<Rightarrow> nat set) \<Rightarrow> ('c \<Rightarrow> nat set) \<Rightarrow> 'c list \<Rightarrow> nat set" where
  "live mk rm cs = fold (\<lambda>c S. S - rm c \<union> mk c) cs {}"

lemma live_Nil [simp]: "live mk rm [] = {}"
  by (simp add: live_def)

lemma live_snoc [simp]: "live mk rm (cs @ [c]) = live mk rm cs - rm c \<union> mk c"
  by (simp add: live_def)

lemma live_Cons_append: "live mk rm (cs @ c # ds) = live mk rm ((cs @ [c]) @ ds)"
  by simp

lemma live_neutral:
  "\<forall>c\<in>set ds. mk c = {} \<and> rm c = {} \<Longrightarrow> live mk rm (cs @ ds) = live mk rm cs"
  by (induction ds rule: rev_induct) (auto simp flip: append_assoc)

lemma live_drops:
  "\<forall>c\<in>set ds. mk c = {} \<Longrightarrow> live mk rm (cs @ ds) = live mk rm cs - (\<Union>c\<in>set ds. rm c)"
  by (induction ds rule: rev_induct) (auto simp flip: append_assoc)

text \<open>
  The handles \<open>hs\<close> an object stores are exactly the live ones \<open>L\<close>, each stored once, and older than
  the next fresh handle \<open>n\<close>.
\<close>

definition tracked :: "nat set \<Rightarrow> nat list \<Rightarrow> nat \<Rightarrow> bool" where
  "tracked L hs n \<longleftrightarrow> distinct hs \<and> set hs = L \<and> (\<forall>h\<in>set hs. h < n)"

lemma tracked_perm: "tracked L hs n \<Longrightarrow> mset hs = mset hs' \<Longrightarrow> tracked L hs' n"
  unfolding tracked_def by (metis mset_eq_imp_distinct_iff mset_eq_setD)

lemma tracked_add:
  "tracked L hs n \<Longrightarrow> distinct xs \<Longrightarrow> \<forall>x\<in>set xs. n \<le> x \<and> x < n' \<Longrightarrow> n \<le> n' \<Longrightarrow>
   tracked (set xs \<union> L) (xs @ hs) n'"
  unfolding tracked_def by fastforce

lemma tracked_drop: "tracked L (xs @ hs) n \<Longrightarrow> tracked (L - set xs) hs n"
  by (auto simp: tracked_def)

lemma tracked_put:
  assumes "tracked L hs n" "distinct xs" "\<forall>x\<in>set xs. n \<le> x \<and> x < n'" "n \<le> n'"
    and "mset hs' = mset xs + mset hs" "L' = set xs \<union> L"
  shows "tracked L' hs' n'"
  using tracked_perm [OF tracked_add [OF assms(1-4)], of hs'] assms(5,6) by simp

lemma tracked_take:
  assumes "tracked L hs n" "mset hs = mset xs + mset hs'" "L' = L - set xs"
  shows "tracked L' hs' n"
  using tracked_drop [OF tracked_perm [OF assms(1)], of xs hs'] assms(2,3) by simp

lemma tracked_mono: "tracked L hs n \<Longrightarrow> n \<le> n' \<Longrightarrow> tracked L hs n'"
  unfolding tracked_def by fastforce

lemma tracked_fresh: "tracked L hs n \<Longrightarrow> n \<le> h \<Longrightarrow> h \<notin> L"
  by (auto simp: tracked_def)

lemma tracked_live: "tracked L hs n \<Longrightarrow> set hs = L"
  by (simp add: tracked_def)

lemma mset_concat_insort:
  "mset (concat (map f (insort_key g x xs))) = mset (f x) + mset (concat (map f xs))"
  by (induction xs) auto

lemma map_drop_absent: "map_of m k = None \<Longrightarrow> map_drop k m = m"
  by (induction m) (auto simp: map_drop_def split: if_splits)

lemma handles_put:
  "map_of m k = None \<Longrightarrow>
   mset (concat (map f (map_put k v m))) = mset (f (k, v)) + mset (concat (map f m))"
  by (simp add: map_put_def mset_concat_insort map_drop_absent [unfolded map_drop_def])

lemma handles_drop:
  "map_of m k = Some v \<Longrightarrow> distinct (map fst m) \<Longrightarrow>
   mset (concat (map f m)) = mset (f (k, v)) + mset (concat (map f (map_drop k m)))"
proof (induction m)
  case (Cons p m)
  show ?case
  proof (cases "fst p = k")
    case True
    then have "map_drop k m = m"
      using Cons.prems(2) by (intro map_drop_absent) (auto simp: map_of_eq_None_iff)
    then show ?thesis using True Cons.prems by (cases p) (auto simp: map_drop_def)
  next
    case False
    then show ?thesis using Cons by (cases p) (auto simp: map_drop_def)
  qed
qed simp

lemma distinct_map_drop: "distinct (map fst m) \<Longrightarrow> distinct (map fst (map_drop k m))"
  by (simp add: map_drop_def distinct_map_filter)

lemma list_all_map_put: "list_all P m \<Longrightarrow> P (k, v) \<Longrightarrow> list_all P (map_put k v m)"
  by (auto simp: map_put_def list_all_iff set_insort_key)

lemma list_all_map_drop: "list_all P m \<Longrightarrow> list_all P (map_drop k m)"
  by (auto simp: map_drop_def list_all_iff)

text \<open>\<open>std::unordered_map\<close>: the order of the entries is not specified; a new key goes last here.\<close>

definition umap_put :: "'k \<Rightarrow> 'v \<Rightarrow> ('k \<times> 'v) list \<Rightarrow> ('k \<times> 'v) list" where
  "umap_put k v m = map_drop k m @ [(k, v)]"

lemma map_of_umap_put [simp]: "map_of (umap_put k v m) = (map_of m)(k \<mapsto> v)"
  by (auto simp: umap_put_def map_add_def fun_eq_iff split: option.split)

lemma distinct_umap_put: "distinct (map fst m) \<Longrightarrow> distinct (map fst (umap_put k v m))"
  by (auto simp: umap_put_def map_drop_def distinct_map_filter)

lemma handles_umap_put:
  "map_of m k = None \<Longrightarrow>
   mset (concat (map f (umap_put k v m))) = mset (f (k, v)) + mset (concat (map f m))"
  by (simp add: umap_put_def map_drop_absent)

subsection \<open>Searching in strings\<close>

text \<open>The text before the first separator.\<close>

lemma takeWhile_sep: "c \<notin> set xs \<Longrightarrow> takeWhile (\<lambda>x. x \<noteq> c) (xs @ c # ys) = xs"
  by (induction xs) auto

lemma sep_inj:
  "c \<notin> set xs \<Longrightarrow> c \<notin> set xs' \<Longrightarrow> xs @ c # ys = xs' @ c # ys' \<longleftrightarrow> xs = xs' \<and> ys = ys'"
  by (metis append_eq_append_conv takeWhile_sep list.inject)

text \<open>\<open>s.find (c, p)\<close> (\<open>None\<close> for \<open>npos\<close>) and \<open>s.substr (p, n)\<close>.\<close>

definition find_from :: "char \<Rightarrow> nat \<Rightarrow> string \<Rightarrow> nat option" where
  "find_from c p s =
     (let k = p + length (takeWhile (\<lambda>x. x \<noteq> c) (drop p s))
      in if k < length s then Some k else None)"

definition substr :: "nat \<Rightarrow> nat \<Rightarrow> string \<Rightarrow> string" where
  "substr p n s = take n (drop p s)"

lemma find_from_sep:
  "length pre = p \<Longrightarrow> c \<notin> set xs \<Longrightarrow> find_from c p (pre @ xs @ c # ys) = Some (p + length xs)"
  by (simp add: find_from_def takeWhile_sep)

lemma find_from_none:
  "length pre = p \<Longrightarrow> c \<notin> set xs \<Longrightarrow> find_from c p (pre @ xs) = None"
  by (simp add: find_from_def takeWhile_eq_all_conv [THEN iffD2])
    (metis (mono_tags, lifting) less_irrefl takeWhile_eq_all_conv)

lemma substr_mid: "length pre = p \<Longrightarrow> substr p (length xs) (pre @ xs @ ys) = xs"
  by (simp add: substr_def)

subsection \<open>The contract of the lifecycle\<close>

text \<open>
  A sequence of calls, each in its own environment.  \<open>run e op s\<close> is the state after an operation, \<open>None\<close> if it does not return; \<open>up\<close> says that the
  binding is initialised and \<open>held\<close> are the handles it has not given back.
\<close>

fun run_all ::
  "('e \<Rightarrow> binding_op \<Rightarrow> 's \<Rightarrow> 's option) \<Rightarrow> ('e \<times> binding_op) list \<Rightarrow> 's \<Rightarrow> 's option" where
  "run_all run [] s = Some s"
| "run_all run ((e, op) # ops) s = Option.bind (run e op s) (run_all run ops)"

locale binding_lifecycle =
  fixes run :: "'e \<Rightarrow> binding_op \<Rightarrow> 's \<Rightarrow> 's option"
    and inv :: "'s \<Rightarrow> bool" and up :: "'s \<Rightarrow> bool" and held :: "'s \<Rightarrow> nat set"
  assumes run_inv: "inv s \<Longrightarrow> run e op s = Some s' \<Longrightarrow> inv s'"
    and run_init: "up s \<Longrightarrow> run e Initialize s = Some s"
    and run_shutdown: "inv s \<Longrightarrow> \<exists>s'. run e Shutdown s = Some s' \<and> \<not> up s'"
    and down_clean: "inv s \<Longrightarrow> \<not> up s \<Longrightarrow> held s = {}"
begin

lemma run_all_inv: "inv s \<Longrightarrow> run_all run ops s = Some s' \<Longrightarrow> inv s'"
proof (induction ops arbitrary: s)
  case (Cons p ops)
  then show ?case by (cases p) (auto simp: bind_eq_Some_conv intro: run_inv)
qed simp

text \<open>Whatever a client does, shutting down returns and gives every handle back.\<close>

lemma shutdown_releases:
  assumes "inv s" "run_all run ops s = Some s1"
  shows "\<exists>s2. run e Shutdown s1 = Some s2 \<and> \<not> up s2 \<and> inv s2 \<and> held s2 = {}"
proof -
  have "inv s1" using assms by (rule run_all_inv)
  then obtain s2 where "run e Shutdown s1 = Some s2" "\<not> up s2" using run_shutdown by blast
  moreover from this have "inv s2" using \<open>inv s1\<close> run_inv by blast
  ultimately show ?thesis using down_clean by blast
qed

end

end
