(* ===== verification/IceoryxBinding.thy ===== *)
theory IceoryxBinding
  imports Transport
begin

text \<open>
  binding/iceoryx2: the transport binding over shared memory.  The C interface of iceoryx2 is not
  part of the repository; what its calls return (success, the latency measured around a send) is
  the environment \<open>iox_env\<close> of an operation, and the calls the binding makes are the trace of its
  state.  Handles are numbers, never reused.  The operations hold \<open>mutex_\<close> throughout and run no
  callback, so they are functions of the state; joining a listener thread returns here, and the
  interleaving of \<open>UnsubscribeEvent\<close> with a listener is the step relation at the end.
\<close>

subsection \<open>State\<close>

record iceoryx2_config =
  max_payload_size :: nat
  subscriber_max_buffer_size :: nat
  publisher_max_slice_len :: nat
  max_publishers :: nat
  max_subscribers :: nat
  history_size :: nat
  listener_poll_interval_us :: u32

definition iceoryx2_config_new :: iceoryx2_config where
  "iceoryx2_config_new =
     \<lparr> max_payload_size = 1024, subscriber_max_buffer_size = 1024, publisher_max_slice_len = 1024,
       max_publishers = 8, max_subscribers = 8, history_size = 0, listener_poll_interval_us = 100 \<rparr>"

record publisher_wrapper =
  pw_service_id :: u64
  pw_instance_id :: u64
  pw_service_name :: string
  pw_service :: nat
  pw_publisher :: nat

record subscriber_wrapper =
  sw_service_id :: u64
  sw_instance_id :: u64
  sw_event_id :: u32
  sw_callback :: nat
  sw_service_name :: string
  sw_service :: nat
  sw_subscriber :: nat
  sw_listener_thread :: nat

text \<open>The calls of the C interface that create, use or give back a handle; a listener thread is a
  handle that joining gives back.\<close>

datatype iox_call =
    NodeCreate nat string
  | NodeDrop nat
  | ServiceNameNew nat string
  | ServiceNameDrop nat
  | ServiceOpenOrCreate nat nat nat nat nat "nat option"
  | ServiceOpen nat nat
  | ServiceDrop nat
  | PublisherCreate nat nat nat
  | PublisherDrop nat
  | SubscriberCreate nat nat nat
  | SubscriberDrop nat
  | ThreadStart nat nat
  | ThreadJoin nat
  | SampleLoan nat nat
  | SampleSend nat "u8 list"
  | SampleDrop nat

record iceoryx2_binding =
  iox_initialized :: bool
  iox_node_name :: string
  iox_node :: "nat option"
  iox_config :: iceoryx2_config
  iox_publishers :: "(u64 \<times> publisher_wrapper) list"
  iox_subscribers :: "(u64 \<times> subscriber_wrapper) list"
  iox_metrics :: transport_metrics
  iox_next :: nat
  iox_trace :: "iox_call list"

definition iceoryx2_binding_new :: iceoryx2_binding where
  "iceoryx2_binding_new =
     \<lparr> iox_initialized = False, iox_node_name = [], iox_node = None, iox_config = iceoryx2_config_new,
       iox_publishers = [], iox_subscribers = [], iox_metrics = transport_metrics_new,
       iox_next = 0, iox_trace = [] \<rparr>"

record iox_env =
  env_pid :: nat
  env_builder_ok :: bool
  env_name_ok :: bool
  env_node_ok :: bool
  env_service_ok :: bool
  env_port_ok :: bool
  env_loan_ok :: bool
  env_send_ok :: bool
  env_latency :: u64

text \<open>Making calls, and taking fresh handles.\<close>

definition iox_emit :: "iox_call list \<Rightarrow> iceoryx2_binding \<Rightarrow> iceoryx2_binding" where
  "iox_emit cs b = b\<lparr>iox_trace := iox_trace b @ cs\<rparr>"

definition iox_fresh :: "nat \<Rightarrow> iceoryx2_binding \<Rightarrow> iceoryx2_binding" where
  "iox_fresh n b = b\<lparr>iox_next := iox_next b + n\<rparr>"

subsection \<open>Keys and names\<close>

definition makeServiceName :: "u64 \<Rightarrow> u64 \<Rightarrow> string" where
  "makeServiceName service_id instance_id =
     ''lap_com_'' @ hex4 (service_id AND 0xFFFF) @ ''_'' @ hex4 (instance_id AND 0xFFFF)"

definition makeServiceKey :: "u64 \<Rightarrow> u64 \<Rightarrow> u64" where
  "makeServiceKey service_id instance_id = push_bit 32 service_id OR (instance_id AND 0xFFFFFFFF)"

subsection \<open>Lifecycle\<close>

definition iox_Initialize :: "iox_env \<Rightarrow> iceoryx2_binding \<Rightarrow> unit result \<times> iceoryx2_binding" where
  "iox_Initialize e b =
     (if iox_initialized b then (Ok (), b)
      else
        let b1 = b\<lparr>iox_node_name := ''lap_com_'' @ digits_str 10 (env_pid e)\<rparr>
        in if \<not> env_builder_ok e then (Err kNotInitialized, b1)
           else if \<not> env_name_ok e then (Err kNotInitialized, b1)
           else if \<not> env_node_ok e then (Err kNotInitialized, b1)
           else (Ok (), iox_emit [NodeCreate (iox_next b1) (iox_node_name b1)]
                   (iox_fresh 1 (b1\<lparr>iox_node := Some (iox_next b1), iox_initialized := True\<rparr>))))"

definition iox_drop_subscriber :: "u64 \<times> subscriber_wrapper \<Rightarrow> iox_call list" where
  "iox_drop_subscriber p =
     [ThreadJoin (sw_listener_thread (snd p)), SubscriberDrop (sw_subscriber (snd p)),
      ServiceDrop (sw_service (snd p))]"

definition iox_drop_publisher :: "u64 \<times> publisher_wrapper \<Rightarrow> iox_call list" where
  "iox_drop_publisher p = [PublisherDrop (pw_publisher (snd p)), ServiceDrop (pw_service (snd p))]"

definition iox_Shutdown :: "iceoryx2_binding \<Rightarrow> unit result \<times> iceoryx2_binding" where
  "iox_Shutdown b =
     (if \<not> iox_initialized b then (Ok (), b)
      else
        let b1 = (iox_emit (concat (map iox_drop_subscriber (iox_subscribers b))) b)
                   \<lparr>iox_subscribers := []\<rparr>;
            b2 = (iox_emit (concat (map iox_drop_publisher (iox_publishers b1))) b1)
                   \<lparr>iox_publishers := []\<rparr>;
            b3 = (case iox_node b2 of
                    Some n \<Rightarrow> (iox_emit [NodeDrop n] b2)\<lparr>iox_node := None\<rparr>
                  | None \<Rightarrow> b2)
        in (Ok (), b3\<lparr>iox_initialized := False\<rparr>))"

subsection \<open>Services\<close>

definition iox_open_or_create :: "iceoryx2_config \<Rightarrow> nat \<Rightarrow> nat \<Rightarrow> iox_call" where
  "iox_open_or_create c f n =
     ServiceOpenOrCreate f n (subscriber_max_buffer_size c) (max_publishers c) (max_subscribers c)
       (if history_size c > 0 then Some (history_size c) else None)"

definition iox_OfferService ::
  "iox_env \<Rightarrow> u64 \<Rightarrow> u64 \<Rightarrow> iceoryx2_binding \<Rightarrow> unit result \<times> iceoryx2_binding" where
  "iox_OfferService e service_id instance_id b =
     (if \<not> iox_initialized b then (Err kNotInitialized, b)
      else
        let key = makeServiceKey service_id instance_id;
            name = makeServiceName service_id instance_id
        in case map_of (iox_publishers b) key of
             Some _ \<Rightarrow> (Ok (), b)
           | None \<Rightarrow>
               if \<not> env_name_ok e then (Err kInvalidArgument, b)
               else
                 let n = iox_next b; f = n + 1; p = n + 2; b1 = iox_fresh 3 b; c = iox_config b
                 in if \<not> env_service_ok e
                    then (Err kServiceNotOffered, iox_emit [ServiceNameNew n name, ServiceNameDrop n] b1)
                    else if \<not> env_port_ok e
                    then (Err kServiceNotOffered,
                          iox_emit [ServiceNameNew n name, iox_open_or_create c f n, ServiceNameDrop n,
                                    ServiceDrop f] b1)
                    else
                      let w = \<lparr> pw_service_id = service_id, pw_instance_id = instance_id,
                                pw_service_name = name, pw_service = f, pw_publisher = p \<rparr>;
                          b2 = iox_emit [ServiceNameNew n name, iox_open_or_create c f n,
                                         ServiceNameDrop n,
                                         PublisherCreate p f (publisher_max_slice_len c)] b1
                      in (Ok (), b2\<lparr>iox_publishers := map_put key w (iox_publishers b2)\<rparr>))"

definition iox_StopOfferService ::
  "u64 \<Rightarrow> u64 \<Rightarrow> iceoryx2_binding \<Rightarrow> unit result \<times> iceoryx2_binding" where
  "iox_StopOfferService service_id instance_id b =
     (let key = makeServiceKey service_id instance_id
      in case map_of (iox_publishers b) key of
           None \<Rightarrow> (Ok (), b)
         | Some w \<Rightarrow>
             (Ok (), (iox_emit (iox_drop_publisher (key, w)) b)
                       \<lparr>iox_publishers := map_drop key (iox_publishers b)\<rparr>))"

definition iox_FindService :: "u64 \<Rightarrow> iceoryx2_binding \<Rightarrow> u64 list result" where
  "iox_FindService service_id b =
     Ok (map (\<lambda>(key, pub). pw_instance_id pub)
           (filter (\<lambda>(key, pub). pw_service_id pub = service_id) (iox_publishers b)))"

subsection \<open>Events\<close>

definition iox_SendEvent ::
  "iox_env \<Rightarrow> u64 \<Rightarrow> u64 \<Rightarrow> u32 \<Rightarrow> u8 list \<Rightarrow> iceoryx2_binding \<Rightarrow>
   unit result \<times> iceoryx2_binding" where
  "iox_SendEvent e service_id instance_id event_id data b =
     (if \<not> iox_initialized b then (Err kNotInitialized, b)
      else
        case map_of (iox_publishers b) (makeServiceKey service_id instance_id) of
          None \<Rightarrow> (Err kServiceNotOffered, b)
        | Some w \<Rightarrow>
            if \<not> env_loan_ok e then (Err kNetworkBindingFailure, b)
            else
              let b1 = iox_emit [SampleLoan (pw_publisher w) (length data),
                                 SampleSend (pw_publisher w) data] b
              in if \<not> env_send_ok e then (Err kNetworkBindingFailure, b1)
                 else
                   let m = iox_metrics b1; n = messages_sent m + 1; lat = env_latency e
                   in (Ok (), b1\<lparr>iox_metrics := m
                         \<lparr> messages_sent := n,
                           bytes_sent := bytes_sent m + of_nat (length data),
                           avg_latency_ns := average_latency (avg_latency_ns m) n lat,
                           max_latency_ns := max (max_latency_ns m) lat,
                           min_latency_ns := min (min_latency_ns m) lat \<rparr>\<rparr>))"

definition iox_SubscribeEvent ::
  "iox_env \<Rightarrow> u64 \<Rightarrow> u64 \<Rightarrow> u32 \<Rightarrow> nat \<Rightarrow> iceoryx2_binding \<Rightarrow>
   unit result \<times> iceoryx2_binding" where
  "iox_SubscribeEvent e service_id instance_id event_id callback b =
     (if \<not> iox_initialized b then (Err kNotInitialized, b)
      else
        let key = makeServiceKey service_id instance_id;
            name = makeServiceName service_id instance_id
        in case map_of (iox_subscribers b) key of
             Some _ \<Rightarrow> (Ok (), b)
           | None \<Rightarrow>
               if \<not> env_name_ok e then (Err kInvalidArgument, b)
               else
                 let n = iox_next b; f = n + 1; p = n + 2; t = n + 3; b1 = iox_fresh 4 b; c = iox_config b
                 in if \<not> env_service_ok e
                    then (Err kServiceNotAvailable, iox_emit [ServiceNameNew n name, ServiceNameDrop n] b1)
                    else if \<not> env_port_ok e
                    then (Err kServiceNotAvailable,
                          iox_emit [ServiceNameNew n name, ServiceOpen f n, ServiceNameDrop n,
                                    ServiceDrop f] b1)
                    else
                      let w = \<lparr> sw_service_id = service_id, sw_instance_id = instance_id,
                                sw_event_id = event_id, sw_callback = callback,
                                sw_service_name = name, sw_service = f, sw_subscriber = p,
                                sw_listener_thread = t \<rparr>;
                          b2 = iox_emit [ServiceNameNew n name, ServiceOpen f n, ServiceNameDrop n,
                                         SubscriberCreate p f (subscriber_max_buffer_size c),
                                         ThreadStart t p] b1
                      in (Ok (), b2\<lparr>iox_subscribers := map_put key w (iox_subscribers b2)\<rparr>))"

definition iox_UnsubscribeEvent ::
  "u64 \<Rightarrow> u64 \<Rightarrow> u32 \<Rightarrow> iceoryx2_binding \<Rightarrow> unit result \<times> iceoryx2_binding" where
  "iox_UnsubscribeEvent service_id instance_id event_id b =
     (let key = makeServiceKey service_id instance_id
      in case map_of (iox_subscribers b) key of
           None \<Rightarrow> (Ok (), b)
         | Some w \<Rightarrow>
             (Ok (), (iox_emit (iox_drop_subscriber (key, w)) b)
                       \<lparr>iox_subscribers := map_drop key (iox_subscribers b)\<rparr>))"

text \<open>One round of the loop of \<open>listenerThread\<close>: the sample the subscriber receives, if any, goes
  to the callback under the identifiers of the subscription.\<close>

definition iox_listener_round ::
  "subscriber_wrapper \<Rightarrow> u8 list option \<Rightarrow> iceoryx2_binding \<Rightarrow> event_delivery option \<times> iceoryx2_binding" where
  "iox_listener_round w sample b =
     (case sample of
        None \<Rightarrow> (None, b)
      | Some data \<Rightarrow>
          let m = iox_metrics b
          in (Some (EventCall (sw_callback w) (sw_service_id w) (sw_instance_id w) (sw_event_id w) data),
              iox_emit [SampleDrop (sw_subscriber w)]
                (b\<lparr>iox_metrics := m\<lparr> messages_received := messages_received m + 1,
                                     bytes_received := bytes_received m + of_nat (length data) \<rparr>\<rparr>)))"

text \<open>Methods and fields are not supported.\<close>

definition iox_CallMethod :: "u64 \<Rightarrow> u64 \<Rightarrow> u32 \<Rightarrow> u8 list \<Rightarrow> u8 list result" where
  "iox_CallMethod s i m request = Err kNetworkBindingFailure"

definition iox_RegisterMethod :: "u64 \<Rightarrow> u64 \<Rightarrow> u32 \<Rightarrow> nat \<Rightarrow> unit result" where
  "iox_RegisterMethod s i m callback = Err kNetworkBindingFailure"

definition iox_GetField :: "u64 \<Rightarrow> u64 \<Rightarrow> u32 \<Rightarrow> u8 list result" where
  "iox_GetField s i f = Err kNetworkBindingFailure"

definition iox_SetField :: "u64 \<Rightarrow> u64 \<Rightarrow> u32 \<Rightarrow> u8 list \<Rightarrow> unit result" where
  "iox_SetField s i f data = Err kNetworkBindingFailure"

definition iox_SupportsService :: "u64 \<Rightarrow> bool" where
  "iox_SupportsService service_id = True"

definition iox_GetMetrics :: "iceoryx2_binding \<Rightarrow> transport_metrics" where
  "iox_GetMetrics b = iox_metrics b"

fun iox_do :: "iox_env \<Rightarrow> binding_op \<Rightarrow> iceoryx2_binding \<Rightarrow> binding_reply \<times> iceoryx2_binding" where
  "iox_do e Initialize b = apfst Void (iox_Initialize e b)"
| "iox_do e Shutdown b = apfst Void (iox_Shutdown b)"
| "iox_do e (OfferService s i) b = apfst Void (iox_OfferService e s i b)"
| "iox_do e (StopOfferService s i) b = apfst Void (iox_StopOfferService s i b)"
| "iox_do e (FindService s) b = (Instances (iox_FindService s b), b)"
| "iox_do e (SendEvent s i v data) b = apfst Void (iox_SendEvent e s i v data b)"
| "iox_do e (SubscribeEvent s i v callback) b = apfst Void (iox_SubscribeEvent e s i v callback b)"
| "iox_do e (UnsubscribeEvent s i v) b = apfst Void (iox_UnsubscribeEvent s i v b)"
| "iox_do e (CallMethod s i m request) b = (Buffer (iox_CallMethod s i m request), b)"
| "iox_do e (RegisterMethod s i m callback) b = (Void (iox_RegisterMethod s i m callback), b)"
| "iox_do e (GetField s i f) b = (Buffer (iox_GetField s i f), b)"
| "iox_do e (SetField s i f data) b = (Void (iox_SetField s i f data), b)"

text \<open>Every operation returns.\<close>

definition iox_run :: "iox_env \<Rightarrow> binding_op \<Rightarrow> iceoryx2_binding \<Rightarrow> iceoryx2_binding option" where
  "iox_run e op b = Some (snd (iox_do e op b))"

subsection \<open>Handles are given back\<close>

fun iox_made :: "iox_call \<Rightarrow> nat set" where
  "iox_made (NodeCreate n name) = {n}"
| "iox_made (ServiceNameNew n name) = {n}"
| "iox_made (ServiceOpenOrCreate f n buf pubs subs history) = {f}"
| "iox_made (ServiceOpen f n) = {f}"
| "iox_made (PublisherCreate p f len) = {p}"
| "iox_made (SubscriberCreate p f buf) = {p}"
| "iox_made (ThreadStart t p) = {t}"
| "iox_made _ = {}"

fun iox_given_back :: "iox_call \<Rightarrow> nat set" where
  "iox_given_back (NodeDrop n) = {n}"
| "iox_given_back (ServiceNameDrop n) = {n}"
| "iox_given_back (ServiceDrop f) = {f}"
| "iox_given_back (PublisherDrop p) = {p}"
| "iox_given_back (SubscriberDrop p) = {p}"
| "iox_given_back (ThreadJoin t) = {t}"
| "iox_given_back _ = {}"

definition iox_live :: "iceoryx2_binding \<Rightarrow> nat set" where
  "iox_live b = live iox_made iox_given_back (iox_trace b)"

definition pub_handles :: "u64 \<times> publisher_wrapper \<Rightarrow> nat list" where
  "pub_handles p = [pw_publisher (snd p), pw_service (snd p)]"

definition sub_handles :: "u64 \<times> subscriber_wrapper \<Rightarrow> nat list" where
  "sub_handles p = [sw_listener_thread (snd p), sw_subscriber (snd p), sw_service (snd p)]"

definition iox_handles :: "iceoryx2_binding \<Rightarrow> nat list" where
  "iox_handles b =
     (case iox_node b of Some n \<Rightarrow> [n] | None \<Rightarrow> []) @ concat (map pub_handles (iox_publishers b)) @
     concat (map sub_handles (iox_subscribers b))"

text \<open>The invariant: the tables and the node hold exactly the live handles, nothing is held before
  initialisation, and an entry stands under the key of its identifiers.\<close>

definition pub_ok :: "u64 \<times> publisher_wrapper \<Rightarrow> bool" where
  "pub_ok p \<longleftrightarrow> fst p = makeServiceKey (pw_service_id (snd p)) (pw_instance_id (snd p)) \<and>
     pw_service_name (snd p) = makeServiceName (pw_service_id (snd p)) (pw_instance_id (snd p))"

definition sub_ok :: "u64 \<times> subscriber_wrapper \<Rightarrow> bool" where
  "sub_ok p \<longleftrightarrow> fst p = makeServiceKey (sw_service_id (snd p)) (sw_instance_id (snd p)) \<and>
     sw_service_name (snd p) = makeServiceName (sw_service_id (snd p)) (sw_instance_id (snd p))"

definition iox_inv :: "iceoryx2_binding \<Rightarrow> bool" where
  "iox_inv b \<longleftrightarrow>
     tracked (iox_live b) (iox_handles b) (iox_next b) \<and>
     (iox_initialized b \<longleftrightarrow> iox_node b \<noteq> None) \<and>
     (\<not> iox_initialized b \<longrightarrow> iox_publishers b = [] \<and> iox_subscribers b = []) \<and>
     distinct (map fst (iox_publishers b)) \<and> distinct (map fst (iox_subscribers b)) \<and>
     list_all pub_ok (iox_publishers b) \<and> list_all sub_ok (iox_subscribers b)"

lemma iox_inv_new [simp]: "iox_inv iceoryx2_binding_new"
  by (simp add: iox_inv_def iceoryx2_binding_new_def iox_live_def iox_handles_def tracked_def)

text \<open>The calls of each branch, as changes of the live handles.\<close>

lemma iox_live_emit:
  "iox_live (iox_emit cs b) = fold (\<lambda>c S. S - iox_given_back c \<union> iox_made c) cs (iox_live b)"
  by (simp add: iox_live_def iox_emit_def live_def)

lemma iox_live_cong: "iox_trace b = iox_trace b' \<Longrightarrow> iox_live b = iox_live b'"
  by (simp add: iox_live_def)

lemma iox_inv_emit_neutral:
  assumes "iox_inv b" "\<forall>c\<in>set cs. iox_made c = {} \<and> iox_given_back c = {}"
  shows "iox_inv (iox_emit cs b)"
proof -
  have "iox_live (iox_emit cs b) = iox_live b"
    using assms(2) by (simp add: iox_live_def iox_emit_def live_neutral)
  then show ?thesis using assms(1) by (simp add: iox_inv_def iox_handles_def iox_emit_def)
qed

text \<open>A failed attempt leaves no handle behind: what it creates with fresh handles it drops.\<close>

lemma iox_inv_attempt:
  assumes "iox_inv b" "iox_live (iox_emit cs b) = iox_live b"
  shows "iox_inv (iox_emit cs (iox_fresh n b))"
proof -
  have "iox_live (iox_emit cs (iox_fresh n b)) = iox_live b"
    using assms(2) by (simp add: iox_live_def iox_emit_def iox_fresh_def)
  then show ?thesis
    using assms(1) tracked_mono [of "iox_live b" "iox_handles b" "iox_next b" "iox_next b + n"]
    by (simp add: iox_inv_def iox_handles_def iox_emit_def iox_fresh_def)
qed

lemma iox_fresh_notin: "iox_inv b \<Longrightarrow> iox_next b \<le> h \<Longrightarrow> h \<notin> iox_live b"
  by (auto simp: iox_inv_def dest: tracked_fresh)

lemma iox_inv_put_pub:
  assumes inv: "iox_inv b" "iox_initialized b" and new: "map_of (iox_publishers b) key = None"
    and ok: "pub_ok (key, w)" and hs: "distinct (pub_handles (key, w))"
      "\<forall>h\<in>set (pub_handles (key, w)). iox_next b \<le> h \<and> h < iox_next b + n"
    and live: "iox_live (iox_emit cs b) = set (pub_handles (key, w)) \<union> iox_live b"
  shows "iox_inv (iox_emit cs (iox_fresh n b)\<lparr>iox_publishers := map_put key w (iox_publishers b)\<rparr>)"
    (is "iox_inv ?b")
proof -
  have "tracked (iox_live ?b) (iox_handles ?b) (iox_next b + n)"
  proof (rule tracked_put)
    show "tracked (iox_live b) (iox_handles b) (iox_next b)" using inv by (simp add: iox_inv_def)
    show "mset (iox_handles ?b) = mset (pub_handles (key, w)) + mset (iox_handles b)"
      by (simp add: iox_handles_def handles_put [OF new] iox_emit_def iox_fresh_def)
    show "iox_live ?b = set (pub_handles (key, w)) \<union> iox_live b"
      using live by (simp add: iox_live_def iox_emit_def iox_fresh_def)
  qed (use hs in simp_all)
  then show ?thesis
    using inv ok by (simp add: iox_inv_def iox_emit_def iox_fresh_def distinct_map_put list_all_map_put)
qed

lemma iox_inv_put_sub:
  assumes inv: "iox_inv b" "iox_initialized b" and new: "map_of (iox_subscribers b) key = None"
    and ok: "sub_ok (key, w)" and hs: "distinct (sub_handles (key, w))"
      "\<forall>h\<in>set (sub_handles (key, w)). iox_next b \<le> h \<and> h < iox_next b + n"
    and live: "iox_live (iox_emit cs b) = set (sub_handles (key, w)) \<union> iox_live b"
  shows "iox_inv (iox_emit cs (iox_fresh n b)\<lparr>iox_subscribers := map_put key w (iox_subscribers b)\<rparr>)"
    (is "iox_inv ?b")
proof -
  have "tracked (iox_live ?b) (iox_handles ?b) (iox_next b + n)"
  proof (rule tracked_put)
    show "tracked (iox_live b) (iox_handles b) (iox_next b)" using inv by (simp add: iox_inv_def)
    show "mset (iox_handles ?b) = mset (sub_handles (key, w)) + mset (iox_handles b)"
      by (simp add: iox_handles_def handles_put [OF new] iox_emit_def iox_fresh_def)
    show "iox_live ?b = set (sub_handles (key, w)) \<union> iox_live b"
      using live by (simp add: iox_live_def iox_emit_def iox_fresh_def)
  qed (use hs in simp_all)
  then show ?thesis
    using inv ok by (simp add: iox_inv_def iox_emit_def iox_fresh_def distinct_map_put list_all_map_put)
qed

lemma live_emit_drops:
  assumes "\<forall>c\<in>set cs. iox_made c = {}"
  shows "iox_live (iox_emit cs b) = iox_live b - (\<Union>c\<in>set cs. iox_given_back c)"
  using live_drops [OF assms] by (simp add: iox_live_def iox_emit_def)

lemma drop_publisher_calls [simp]:
  "\<forall>c\<in>set (iox_drop_publisher p). iox_made c = {}"
  "(\<Union>c\<in>set (iox_drop_publisher p). iox_given_back c) = set (pub_handles p)"
  by (auto simp: iox_drop_publisher_def pub_handles_def)

lemma drop_subscriber_calls [simp]:
  "\<forall>c\<in>set (iox_drop_subscriber p). iox_made c = {}"
  "(\<Union>c\<in>set (iox_drop_subscriber p). iox_given_back c) = set (sub_handles p)"
  by (auto simp: iox_drop_subscriber_def sub_handles_def)

lemma iox_inv_drop_pub:
  assumes inv: "iox_inv b" and w: "map_of (iox_publishers b) key = Some w"
  shows "iox_inv ((iox_emit (iox_drop_publisher (key, w)) b)
           \<lparr>iox_publishers := map_drop key (iox_publishers b)\<rparr>)" (is "iox_inv ?b")
proof -
  have "tracked (iox_live ?b) (iox_handles ?b) (iox_next b)"
  proof (rule tracked_take)
    show "tracked (iox_live b) (iox_handles b) (iox_next b)" using inv by (simp add: iox_inv_def)
    show "mset (iox_handles b) = mset (pub_handles (key, w)) + mset (iox_handles ?b)"
      using inv by (simp add: iox_handles_def handles_drop [OF w] iox_emit_def iox_inv_def)
    have "iox_live ?b = iox_live (iox_emit (iox_drop_publisher (key, w)) b)"
      by (simp add: iox_live_def)
    then show "iox_live ?b = iox_live b - set (pub_handles (key, w))"
      by (simp only: live_emit_drops [OF drop_publisher_calls(1)] drop_publisher_calls(2))
  qed
  then show ?thesis
    using inv w by (auto simp: iox_inv_def iox_emit_def distinct_map_drop list_all_map_drop)
qed

lemma iox_inv_drop_sub:
  assumes inv: "iox_inv b" and w: "map_of (iox_subscribers b) key = Some w"
  shows "iox_inv ((iox_emit (iox_drop_subscriber (key, w)) b)
           \<lparr>iox_subscribers := map_drop key (iox_subscribers b)\<rparr>)" (is "iox_inv ?b")
proof -
  have "tracked (iox_live ?b) (iox_handles ?b) (iox_next b)"
  proof (rule tracked_take)
    show "tracked (iox_live b) (iox_handles b) (iox_next b)" using inv by (simp add: iox_inv_def)
    show "mset (iox_handles b) = mset (sub_handles (key, w)) + mset (iox_handles ?b)"
      using inv by (simp add: iox_handles_def handles_drop [OF w] iox_emit_def iox_inv_def)
    have "iox_live ?b = iox_live (iox_emit (iox_drop_subscriber (key, w)) b)"
      by (simp add: iox_live_def)
    then show "iox_live ?b = iox_live b - set (sub_handles (key, w))"
      by (simp only: live_emit_drops [OF drop_subscriber_calls(1)] drop_subscriber_calls(2))
  qed
  then show ?thesis
    using inv w by (auto simp: iox_inv_def iox_emit_def distinct_map_drop list_all_map_drop)
qed

lemma iox_Initialize_inv:
  assumes "iox_inv b" shows "iox_inv (snd (iox_Initialize e b))"
proof -
  let ?nm = "''lap_com_'' @ digits_str 10 (env_pid e)"
  have named: "iox_inv (b\<lparr>iox_node_name := ?nm\<rparr>)"
    using assms by (simp add: iox_inv_def iox_live_def iox_handles_def)
  let ?b = "iox_emit [NodeCreate (iox_next b) ?nm]
      (iox_fresh 1 (b\<lparr>iox_node_name := ?nm, iox_node := Some (iox_next b), iox_initialized := True\<rparr>))"
  have "iox_inv ?b" if "\<not> iox_initialized b"
  proof -
    have none: "iox_node b = None" "iox_publishers b = []" "iox_subscribers b = []"
      using that assms by (simp_all add: iox_inv_def)
    then have "iox_live b = {}"
      using assms by (auto simp: iox_inv_def iox_handles_def dest: tracked_live)
    then have "iox_live ?b = {iox_next b}"
      by (simp add: iox_live_def iox_emit_def iox_fresh_def)
    then show ?thesis
      using assms none
      by (simp add: iox_inv_def iox_handles_def iox_emit_def iox_fresh_def tracked_def)
  qed
  then show ?thesis
    using assms named by (simp add: iox_Initialize_def Let_def)
qed

lemma iox_Shutdown_inv:
  assumes inv: "iox_inv b"
  shows "iox_inv (snd (iox_Shutdown b)) \<and> \<not> iox_initialized (snd (iox_Shutdown b))"
proof (cases "iox_initialized b")
  case False
  then show ?thesis using inv by (simp add: iox_Shutdown_def)
next
  case True
  then obtain n where n: "iox_node b = Some n" using inv by (auto simp: iox_inv_def)
  let ?cs = "concat (map iox_drop_subscriber (iox_subscribers b)) @
    concat (map iox_drop_publisher (iox_publishers b)) @ [NodeDrop n]"
  let ?b = "snd (iox_Shutdown b)"
  have "iox_live ?b = iox_live (iox_emit ?cs b)"
    using True n by (simp add: iox_Shutdown_def iox_live_def iox_emit_def Let_def)
  also have "\<dots> = iox_live b - (\<Union>c\<in>set ?cs. iox_given_back c)"
    by (rule live_emit_drops) auto
  also have "(\<Union>c\<in>set ?cs. iox_given_back c) = set (iox_handles b)"
    using n by (auto simp: iox_handles_def simp flip: drop_publisher_calls(2) drop_subscriber_calls(2))
  also have "\<dots> = iox_live b"
    by (rule tracked_live [of _ _ "iox_next b"]) (use inv in \<open>simp add: iox_inv_def\<close>)
  finally have "iox_live ?b = {}" by simp
  then show ?thesis
    using True n by (simp add: iox_inv_def tracked_def)
      (simp add: iox_Shutdown_def iox_emit_def iox_handles_def Let_def)
qed

lemma iox_OfferService_inv:
  assumes inv: "iox_inv b" shows "iox_inv (snd (iox_OfferService e s i b))"
proof -
  let ?n = "iox_next b" and ?name = "makeServiceName s i" and ?c = "iox_config b"
  let ?w = "\<lparr> pw_service_id = s, pw_instance_id = i, pw_service_name = ?name,
    pw_service = ?n + 1, pw_publisher = ?n + 2 \<rparr>"
  have fresh: "?n \<notin> iox_live b" "?n + 1 \<notin> iox_live b"
    using iox_fresh_notin [OF inv] by auto
  have "iox_inv (iox_emit [ServiceNameNew ?n ?name, ServiceNameDrop ?n] (iox_fresh 3 b))"
    using fresh by (intro iox_inv_attempt inv) (auto simp: iox_live_emit)
  moreover have "iox_inv (iox_emit [ServiceNameNew ?n ?name, iox_open_or_create ?c (?n + 1) ?n,
      ServiceNameDrop ?n, ServiceDrop (?n + 1)] (iox_fresh 3 b))"
    using fresh by (intro iox_inv_attempt inv) (auto simp: iox_live_emit iox_open_or_create_def)
  moreover have "iox_inv ((iox_emit [ServiceNameNew ?n ?name, iox_open_or_create ?c (?n + 1) ?n,
      ServiceNameDrop ?n, PublisherCreate (?n + 2) (?n + 1) (publisher_max_slice_len ?c)]
      (iox_fresh 3 b))\<lparr>iox_publishers := map_put (makeServiceKey s i) ?w (iox_publishers b)\<rparr>)"
    if "map_of (iox_publishers b) (makeServiceKey s i) = None" "iox_initialized b"
    using inv that fresh by (intro iox_inv_put_pub)
      (auto simp: pub_ok_def pub_handles_def iox_live_emit iox_open_or_create_def)
  ultimately show ?thesis
    using inv by (simp add: iox_OfferService_def Let_def split: option.split)
      (simp add: iox_emit_def iox_fresh_def)
qed

lemma iox_SubscribeEvent_inv:
  assumes inv: "iox_inv b" shows "iox_inv (snd (iox_SubscribeEvent e s i v callback b))"
proof -
  let ?n = "iox_next b" and ?name = "makeServiceName s i" and ?c = "iox_config b"
  let ?w = "\<lparr> sw_service_id = s, sw_instance_id = i, sw_event_id = v, sw_callback = callback,
    sw_service_name = ?name, sw_service = ?n + 1, sw_subscriber = ?n + 2, sw_listener_thread = ?n + 3 \<rparr>"
  have fresh: "?n \<notin> iox_live b" "?n + 1 \<notin> iox_live b"
    using iox_fresh_notin [OF inv] by auto
  have "iox_inv (iox_emit [ServiceNameNew ?n ?name, ServiceNameDrop ?n] (iox_fresh 4 b))"
    using fresh by (intro iox_inv_attempt inv) (auto simp: iox_live_emit)
  moreover have "iox_inv (iox_emit [ServiceNameNew ?n ?name, ServiceOpen (?n + 1) ?n,
      ServiceNameDrop ?n, ServiceDrop (?n + 1)] (iox_fresh 4 b))"
    using fresh by (intro iox_inv_attempt inv) (auto simp: iox_live_emit)
  moreover have "iox_inv ((iox_emit [ServiceNameNew ?n ?name, ServiceOpen (?n + 1) ?n,
      ServiceNameDrop ?n, SubscriberCreate (?n + 2) (?n + 1) (subscriber_max_buffer_size ?c),
      ThreadStart (?n + 3) (?n + 2)]
      (iox_fresh 4 b))\<lparr>iox_subscribers := map_put (makeServiceKey s i) ?w (iox_subscribers b)\<rparr>)"
    if "map_of (iox_subscribers b) (makeServiceKey s i) = None" "iox_initialized b"
    using inv that fresh by (intro iox_inv_put_sub)
      (auto simp: sub_ok_def sub_handles_def iox_live_emit)
  ultimately show ?thesis
    using inv by (simp add: iox_SubscribeEvent_def Let_def split: option.split)
      (simp add: iox_emit_def iox_fresh_def)
qed

lemma iox_inv_metrics [simp]: "iox_inv (b\<lparr>iox_metrics := m\<rparr>) = iox_inv b"
  by (simp add: iox_inv_def iox_live_def iox_handles_def)

lemma iox_SendEvent_inv: "iox_inv b \<Longrightarrow> iox_inv (snd (iox_SendEvent e s i v data b))"
  by (simp add: iox_SendEvent_def Let_def iox_inv_emit_neutral split: option.split)

lemma iox_listener_round_inv: "iox_inv b \<Longrightarrow> iox_inv (snd (iox_listener_round w sample b))"
  by (simp add: iox_listener_round_def Let_def iox_inv_emit_neutral split: option.split)

lemma iox_StopOfferService_inv: "iox_inv b \<Longrightarrow> iox_inv (snd (iox_StopOfferService s i b))"
  by (simp add: iox_StopOfferService_def Let_def iox_inv_drop_pub split: option.split)

lemma iox_UnsubscribeEvent_inv: "iox_inv b \<Longrightarrow> iox_inv (snd (iox_UnsubscribeEvent s i v b))"
  by (simp add: iox_UnsubscribeEvent_def Let_def iox_inv_drop_sub split: option.split)

lemmas iox_op_inv = iox_Initialize_inv iox_Shutdown_inv [THEN conjunct1] iox_OfferService_inv
  iox_StopOfferService_inv iox_SendEvent_inv iox_SubscribeEvent_inv iox_UnsubscribeEvent_inv

lemma iox_do_inv: "iox_inv b \<Longrightarrow> iox_inv (snd (iox_do e op b))"
  by (cases op) (simp_all add: iox_op_inv)

interpretation iox: binding_lifecycle iox_run iox_inv iox_initialized iox_live
proof unfold_locales
  show "iox_inv b'" if "iox_inv b" "iox_run e op b = Some b'" for b e op b'
    using that iox_do_inv [of b e op] by (simp add: iox_run_def)
  show "iox_run e Initialize b = Some b" if "iox_initialized b" for b e
    using that by (simp add: iox_run_def iox_Initialize_def)
  show "\<exists>b'. iox_run e Shutdown b = Some b' \<and> \<not> iox_initialized b'" if "iox_inv b" for b e
    using iox_Shutdown_inv [OF that] by (simp add: iox_run_def)
  show "iox_live b = {}" if "iox_inv b" "\<not> iox_initialized b" for b
    using that by (auto simp: iox_inv_def iox_handles_def dest!: tracked_live)
qed

lemma iox_run_all: "\<exists>b'. run_all iox_run ops b = Some b'"
  by (induction ops arbitrary: b) (auto simp: iox_run_def split_paired_all)


subsection \<open>Refinement of a map of offers\<close>

text \<open>The abstract state: whether the binding is up, and what is offered under a key.\<close>

type_synonym offer_map = "bool \<times> (u64 \<Rightarrow> (u64 \<times> u64) option)"

definition iox_abs :: "iceoryx2_binding \<Rightarrow> offer_map" where
  "iox_abs b = (iox_initialized b,
     \<lambda>k. map_option (\<lambda>w. (pw_service_id w, pw_instance_id w)) (map_of (iox_publishers b) k))"

fun offers_step :: "iox_env \<times> binding_op \<Rightarrow> offer_map \<Rightarrow> offer_map" where
  "offers_step (e, Initialize) (up, m) =
     (up \<or> env_builder_ok e \<and> env_name_ok e \<and> env_node_ok e, m)"
| "offers_step (e, Shutdown) (up, m) = (False, Map.empty)"
| "offers_step (e, OfferService s i) (up, m) =
     (up, if up \<and> m (makeServiceKey s i) = None \<and> env_name_ok e \<and> env_service_ok e \<and> env_port_ok e
          then m(makeServiceKey s i \<mapsto> (s, i)) else m)"
| "offers_step (e, StopOfferService s i) (up, m) = (up, m(makeServiceKey s i := None))"
| "offers_step (e, _) (up, m) = (up, m)"

lemma iox_abs_frame [simp]:
  "iox_abs (iox_emit cs b) = iox_abs b" "iox_abs (iox_fresh n b) = iox_abs b"
  "iox_abs (b\<lparr>iox_metrics := m\<rparr>) = iox_abs b" "iox_abs (b\<lparr>iox_subscribers := t\<rparr>) = iox_abs b"
  by (simp_all add: iox_abs_def iox_emit_def iox_fresh_def)

lemma iox_abs_do:
  assumes "iox_inv b"
  shows "iox_abs (snd (iox_do e op b)) = offers_step (e, op) (iox_abs b)"
proof (cases op)
  case Initialize
  then show ?thesis by (simp add: iox_Initialize_def iox_abs_def iox_emit_def iox_fresh_def Let_def)
next
  case Shutdown
  have down: "iox_publishers (snd (iox_Shutdown b)) = []" "\<not> iox_initialized (snd (iox_Shutdown b))"
    using iox_Shutdown_inv [OF assms] by (auto simp: iox_inv_def)
  then show ?thesis using Shutdown by (simp add: iox_abs_def)
next
  case (OfferService s i)
  then show ?thesis
    by (simp add: iox_OfferService_def Let_def split: option.split)
      (auto simp: iox_abs_def iox_emit_def iox_fresh_def fun_eq_iff)
next
  case (StopOfferService s i)
  then show ?thesis
    by (simp add: iox_StopOfferService_def Let_def split: option.split)
      (auto simp: iox_abs_def iox_emit_def fun_eq_iff)
next
  case (SendEvent s i v data)
  then show ?thesis
    by (cases "iox_abs b") (simp add: iox_SendEvent_def Let_def split: option.split)
next
  case (SubscribeEvent s i v callback)
  then show ?thesis
    by (cases "iox_abs b") (simp add: iox_SubscribeEvent_def Let_def split: option.split)
next
  case (UnsubscribeEvent s i v)
  then show ?thesis
    by (cases "iox_abs b") (simp add: iox_UnsubscribeEvent_def Let_def split: option.split)
qed (cases "iox_abs b"; simp)+

lemma iox_abs_run_all:
  "iox_inv b \<Longrightarrow> run_all iox_run ops b = Some b' \<Longrightarrow> iox_abs b' = fold offers_step ops (iox_abs b)"
proof (induction ops arbitrary: b)
  case (Cons p ops)
  obtain e op where p: "p = (e, op)" by (cases p)
  have "run_all iox_run ops (snd (iox_do e op b)) = Some b'"
    using Cons.prems(2) p by (simp add: iox_run_def [of e])
  from Cons.IH [OF iox_do_inv [OF Cons.prems(1)] this] show ?case
    using Cons.prems(1) p by (simp add: iox_abs_do)
qed simp

text \<open>What \<open>FindService\<close> lists are the offers of the map, each once.\<close>

lemma iox_find_set:
  assumes "iox_inv b" "iox_FindService s b = Ok is"
  shows "distinct is" "set is = {i. \<exists>k. snd (iox_abs b) k = Some (s, i)}"
proof -
  let ?ps = "filter (\<lambda>(key, pub). pw_service_id pub = s) (iox_publishers b)"
  have "is": "is = map (\<lambda>p. pw_instance_id (snd p)) ?ps"
    using assms(2) by (simp add: iox_FindService_def split_def)
  have key: "fst p = makeServiceKey s (pw_instance_id (snd p))" if "p \<in> set ?ps" for p
    using assms(1) that by (auto simp: iox_inv_def list_all_iff pub_ok_def)
  have dist: "distinct (map fst ?ps)" and ps: "distinct (map fst (iox_publishers b))"
    using assms(1) by (simp_all add: iox_inv_def distinct_map_filter)
  have "map fst ?ps = map (makeServiceKey s) is"
    unfolding "is" using key by (simp add: comp_def)
  with dist show "distinct is" by (metis distinct_map)
  show "set is = {i. \<exists>k. snd (iox_abs b) k = Some (s, i)}"
    unfolding "is" using ps by (force simp: iox_abs_def)
qed

text \<open>C29: The services a binding over iceoryx2 offers refine a map from keys to service and instance:
  after any sequence of calls and any answers of the library, \<open>FindService\<close> lists the instances
  that the map, updated by the successful offers (the first offer of a key wins), the withdrawals
  and the shutdowns of the sequence, holds for the service, each once.\<close>

theorem iceoryx_refines_offer_map:
  "\<exists>b is. run_all iox_run ops iceoryx2_binding_new = Some b \<and>
     iox_abs b = fold offers_step ops (False, Map.empty) \<and>
     iox_FindService s b = Ok is \<and> distinct is \<and>
     set is = {i. \<exists>k. snd (fold offers_step ops (False, Map.empty)) k = Some (s, i)}"
proof -
  obtain b where b: "run_all iox_run ops iceoryx2_binding_new = Some b"
    using iox_run_all by blast
  have inv: "iox_inv b" using iox.run_all_inv [OF iox_inv_new b] .
  obtain "is" where f: "iox_FindService s b = Ok is" by (simp add: iox_FindService_def)
  have "iox_abs b = fold offers_step ops (iox_abs iceoryx2_binding_new)"
    by (rule iox_abs_run_all [OF iox_inv_new b])
  also have "iox_abs iceoryx2_binding_new = (False, Map.empty)"
    by (simp add: iox_abs_def iceoryx2_binding_new_def)
  finally show ?thesis using b f iox_find_set [OF inv f] by auto
qed

subsection \<open>What a key and a name distinguish\<close>

lemma mask32: "(0xFFFFFFFF :: u64) = mask 32"
  by (simp add: mask_eq_exp_minus_1)

lemma makeServiceKey_eq_iff:
  "makeServiceKey s i = makeServiceKey s' i' \<longleftrightarrow>
   take_bit 32 s = take_bit 32 s' \<and> take_bit 32 i = take_bit 32 i'"
proof -
  have bits: "bit (makeServiceKey s i) n \<longleftrightarrow>
      (if n < 32 then bit i n else n < 64 \<and> bit s (n - 32))" for s i n
    by (auto simp: makeServiceKey_def mask32 bit_simps)
  show ?thesis
  proof
    assume eq: "makeServiceKey s i = makeServiceKey s' i'"
    have "bit s n = bit s' n" "bit i n = bit i' n" if "n < 32" for n
      using bits [of s i "n + 32"] bits [of s' i' "n + 32"] bits [of s i n] bits [of s' i' n] that
      unfolding eq by simp_all
    then show "take_bit 32 s = take_bit 32 s' \<and> take_bit 32 i = take_bit 32 i'"
      by (auto intro!: bit_eqI simp: bit_take_bit_iff)
  next
    assume low: "take_bit 32 s = take_bit 32 s' \<and> take_bit 32 i = take_bit 32 i'"
    have "bit s n = bit s' n" "bit i n = bit i' n" if "n < 32" for n
      using low that by (metis bit_take_bit_iff)+
    then show "makeServiceKey s i = makeServiceKey s' i'"
      by (intro bit_eqI) (auto simp: bits)
  qed
qed

lemma digits_value_hex4: "digits_value 16 0 (hex4 w) = unat w"
proof -
  have z: "digits_value 16 0 (replicate n CHR ''0'') = 0" for n
    by (induction n) (simp_all add: digit_val_def)
  show ?thesis
    unfolding hex4_def
    by (subst digits_value_append) (auto simp: is_digit_def digit_val_def z hex_str_def digits_value_hex)
qed

lemma hex4_no_sep: "CHR ''_'' \<notin> set (hex4 w)"
  by (auto simp: hex4_def)

lemma makeServiceName_eq_iff:
  "makeServiceName s i = makeServiceName s' i' \<longleftrightarrow>
   unat s mod 65536 = unat s' mod 65536 \<and> unat i mod 65536 = unat i' mod 65536"
proof -
  have hex4: "hex4 v = hex4 w \<longleftrightarrow> unat v = unat w" for v w :: u64
    by (metis digits_value_hex4 unsigned_word_eqI)
  have "makeServiceName s i = makeServiceName s' i' \<longleftrightarrow>
      hex4 (s AND 65535) @ CHR ''_'' # hex4 (i AND 65535) =
      hex4 (s' AND 65535) @ CHR ''_'' # hex4 (i' AND 65535)"
    by (simp add: makeServiceName_def)
  then show ?thesis
    by (simp add: sep_inj hex4_no_sep hex4 unat_and_65535)
qed

text \<open>The table of a binding over iceoryx2 tells services apart by the low 32 bits of their
  identifiers, the shared memory by the low 16 bits: two offers that differ only above stand under
  two keys and publish into one service of the library.\<close>

lemma iceoryx_keys_and_names_truncate:
  "(makeServiceKey s i = makeServiceKey s' i' \<longleftrightarrow>
      unat s mod 2 ^ 32 = unat s' mod 2 ^ 32 \<and> unat i mod 2 ^ 32 = unat i' mod 2 ^ 32) \<and>
   (makeServiceName s i = makeServiceName s' i' \<longleftrightarrow>
      unat s mod 2 ^ 16 = unat s' mod 2 ^ 16 \<and> unat i mod 2 ^ 16 = unat i' mod 2 ^ 16)"
proof -
  have "take_bit 32 v = take_bit 32 w \<longleftrightarrow> unat v mod 2 ^ 32 = unat w mod 2 ^ 32" for v w :: u64
    unfolding word_unat_eq_iff unsigned_take_bit_eq by (simp only: take_bit_eq_mod)
  moreover have "(65536 :: nat) = 2 ^ 16" by simp
  ultimately show ?thesis
    unfolding makeServiceKey_eq_iff makeServiceName_eq_iff by (simp only: simp_thms)
qed

text \<open>The event identifier is not transported: sending event \<open>v\<close> makes the same calls as sending
  event \<open>v'\<close>, and a subscriber's callback is told the identifier it subscribed to.\<close>

lemma iceoryx_event_id_lost:
  "iox_SendEvent e s i v data b = iox_SendEvent e s i v' data b"
  "fst (iox_listener_round w (Some data) b) =
     Some (EventCall (sw_callback w) (sw_service_id w) (sw_instance_id w) (sw_event_id w) data)"
  by (simp_all add: iox_SendEvent_def iox_listener_round_def Let_def)

subsection \<open>Unsubscribing while the listener runs\<close>

text \<open>
  \<open>UnsubscribeEvent\<close> takes \<open>mutex_\<close>, clears \<open>running\<close> and joins the listener, still holding the
  mutex; the listener takes the mutex after every callback to count the sample.  A configuration
  is the position of either thread, the owner of the mutex and the flag.
\<close>

datatype caller_pc = UStart | ULocked | UJoining | UReturned
datatype listener_pc = LTest | LReceive | LCallback | LWantLock | LCount | LDone
datatype mutex_owner = Free | Caller | Listener

datatype unsub_config = Unsub caller_pc listener_pc mutex_owner bool

fun caller_at :: "unsub_config \<Rightarrow> caller_pc" where
  "caller_at (Unsub u l o' r) = u"

fun listener_at :: "unsub_config \<Rightarrow> listener_pc" where
  "listener_at (Unsub u l o' r) = l"

inductive unsub_step :: "unsub_config \<Rightarrow> unsub_config \<Rightarrow> bool" where
  lock_caller: "unsub_step (Unsub UStart l Free r) (Unsub ULocked l Caller r)"
| stop_listener: "unsub_step (Unsub ULocked l m r) (Unsub UJoining l m False)"
| join_listener: "unsub_step (Unsub UJoining LDone m r) (Unsub UReturned LDone Free r)"
| test_running: "unsub_step (Unsub u LTest m True) (Unsub u LReceive m True)"
| test_stopped: "unsub_step (Unsub u LTest m False) (Unsub u LDone m False)"
| receive_none: "unsub_step (Unsub u LReceive m r) (Unsub u LTest m r)"
| receive_some: "unsub_step (Unsub u LReceive m r) (Unsub u LCallback m r)"
| callback_returns: "unsub_step (Unsub u LCallback m r) (Unsub u LWantLock m r)"
| lock_listener: "unsub_step (Unsub u LWantLock Free r) (Unsub u LCount Listener r)"
| count_sample: "unsub_step (Unsub u LCount m r) (Unsub u LTest Free r)"

inductive_cases unsub_stepE: "unsub_step (Unsub u l m r) c"

definition unsub_reachable :: "unsub_config \<Rightarrow> bool" where
  "unsub_reachable c \<longleftrightarrow> unsub_step\<^sup>*\<^sup>* (Unsub UStart LTest Free True) c"

fun unsub_inv :: "unsub_config \<Rightarrow> bool" where
  "unsub_inv (Unsub u l m r) \<longleftrightarrow>
     (m = Listener \<longleftrightarrow> l = LCount) \<and> (m = Caller \<longleftrightarrow> u = ULocked \<or> u = UJoining) \<and>
     (r \<longleftrightarrow> u = UStart \<or> u = ULocked) \<and> (l = LDone \<longrightarrow> \<not> r) \<and> (u = UReturned \<longrightarrow> l = LDone)"

lemma unsub_step_inv: "unsub_step c c' \<Longrightarrow> unsub_inv c \<Longrightarrow> unsub_inv c'"
  by (induction rule: unsub_step.induct) auto

lemma unsub_reachable_inv: "unsub_reachable c \<Longrightarrow> unsub_inv c"
  unfolding unsub_reachable_def by (induction rule: rtranclp_induct) (auto intro: unsub_step_inv)

text \<open>With the caller joining, a listener past its receive stays between callback and lock.\<close>

lemma joined_too_late:
  assumes "unsub_step\<^sup>*\<^sup>* c c'" "caller_at c = UJoining" "unsub_inv c"
    "listener_at c \<in> {LCallback, LWantLock}"
  shows "caller_at c' = UJoining \<and> unsub_inv c' \<and> listener_at c' \<in> {LCallback, LWantLock}"
  using assms
proof (induction rule: rtranclp_induct)
  case (step c1 c2)
  then have "caller_at c1 = UJoining" "unsub_inv c1" "listener_at c1 \<in> {LCallback, LWantLock}" by auto
  with step.hyps(2) show ?case by (cases rule: unsub_step.cases) auto
qed simp

text \<open>C30: A call of \<open>UnsubscribeEvent\<close> that waits for the listener can return exactly if the
  listener is not between receiving a sample and counting it: there the listener waits for the
  mutex that the caller keeps while it joins, and neither thread moves again.\<close>

theorem unsubscribe_returns_iff:
  assumes "unsub_reachable c" "caller_at c = UJoining"
  shows "(\<exists>c'. unsub_step\<^sup>*\<^sup>* c c' \<and> caller_at c' = UReturned) \<longleftrightarrow>
    listener_at c \<notin> {LCallback, LWantLock}"
proof -
  obtain l m r where c: "c = Unsub UJoining l m r" using assms(2) by (cases c) auto
  have inv: "unsub_inv c" by (rule unsub_reachable_inv [OF assms(1)])
  show ?thesis
  proof
    assume "\<exists>c'. unsub_step\<^sup>*\<^sup>* c c' \<and> caller_at c' = UReturned"
    then show "listener_at c \<notin> {LCallback, LWantLock}"
      using joined_too_late [OF _ assms(2) inv] by fastforce
  next
    assume l: "listener_at c \<notin> {LCallback, LWantLock}"
    have done': "unsub_step\<^sup>*\<^sup>* (Unsub UJoining LDone m False) (Unsub UReturned LDone Free False)" for m
      by (blast intro: join_listener)
    have test: "unsub_step\<^sup>*\<^sup>* (Unsub UJoining LTest m False) (Unsub UReturned LDone Free False)" for m
      by (rule converse_rtranclp_into_rtranclp [OF test_stopped done'])
    have "unsub_step\<^sup>*\<^sup>* c (Unsub UReturned LDone Free False)"
      using inv l unfolding c by (cases l)
        (auto intro: done' test converse_rtranclp_into_rtranclp [OF receive_none test])
    then show "\<exists>c'. unsub_step\<^sup>*\<^sup>* c c' \<and> caller_at c' = UReturned" by fastforce
  qed
qed

lemma unsub_demo_reachable: "unsub_reachable (Unsub UJoining LWantLock Caller False)"
proof -
  have "unsub_step\<^sup>*\<^sup>* (Unsub UStart LTest Free True) (Unsub UStart LCallback Free True)"
    by (meson converse_rtranclp_into_rtranclp receive_some rtranclp.rtrancl_refl test_running)
  also have "unsub_step\<^sup>*\<^sup>* \<dots> (Unsub UJoining LCallback Caller False)"
    by (meson converse_rtranclp_into_rtranclp lock_caller rtranclp.rtrancl_refl stop_listener)
  also have "unsub_step\<^sup>*\<^sup>* \<dots> (Unsub UJoining LWantLock Caller False)"
    by (blast intro: callback_returns)
  finally show ?thesis by (simp add: unsub_reachable_def)
qed

lemma unsubscribe_returns_iff_witness:
  "\<not> (\<exists>c'. unsub_step\<^sup>*\<^sup>* (Unsub UJoining LWantLock Caller False) c' \<and> caller_at c' = UReturned)"
  using unsubscribe_returns_iff [OF unsub_demo_reachable] by simp

end
