(* ===== verification/DdsBinding.thy ===== *)
theory DdsBinding
  imports Transport
begin

text \<open>
  binding/dds: the transport binding over Fast DDS.  The library is not part of the repository: the
  success of its calls, the clock and the latency of a write are the environment of an operation,
  and its calls are the trace of the state.  Entities are numbers, never reused.  The tables are
  unordered maps from textual keys.  A member call on a null participant, publisher or subscriber
  is undefined behaviour, the outcome \<open>None\<close>.  No callback runs under a mutex of the binding, so
  the mutexes do not appear; the quality of service of an endpoint is part of the call that makes
  it.  The first average of the latency passes through a double, exact below \<open>2 ^ 53\<close> nanoseconds.
\<close>

subsection \<open>State\<close>

record dds_config =
  domain_id :: u32
  discovery_server :: string
  use_shared_memory :: bool
  af_xdp_enabled :: bool
  af_xdp_interface :: string
  af_xdp_queues :: "u32 list"
  large_payload_threshold :: u32
  dds_max_payload_size :: u32
  reliable :: bool
  transient_local :: bool
  history_depth :: u32

definition dds_config_new :: dds_config where
  "dds_config_new =
     \<lparr> domain_id = 0, discovery_server = [], use_shared_memory = True, af_xdp_enabled = False,
       af_xdp_interface = ''eth0'', af_xdp_queues = [0, 1], large_payload_threshold = 65536,
       dds_max_payload_size = 10485760, reliable = True, transient_local = False, history_depth = 10 \<rparr>"

record lap_com_message =
  msg_service_id :: u64
  msg_instance_id :: u64
  msg_event_id :: u32
  msg_timestamp_ns :: u64
  msg_payload :: "u8 list"

record dds_qos =
  qos_reliable :: bool
  qos_transient_local :: bool
  qos_depth :: u32
  qos_max_samples :: u32
  qos_max_instances :: u32
  qos_max_samples_per_instance :: u32

datatype dds_call =
    CreateParticipant nat u32 string
  | RegisterType nat
  | DeleteParticipant nat
  | CreatePublisher nat nat
  | DeletePublisher nat
  | CreateSubscriber nat nat
  | DeleteSubscriber nat
  | NewTopic nat nat string
  | DeleteTopic nat
  | CreateDataWriter nat nat dds_qos
  | DeleteDataWriter nat
  | CreateDataReader nat nat dds_qos
  | DeleteDataReader nat
  | WriteMessage nat lap_com_message

type_synonym discovered = "(u64 \<times> u64 list) list"

record dds_binding =
  dds_conf :: dds_config
  dds_participant :: "nat option"
  dds_publisher :: "nat option"
  dds_subscriber :: "nat option"
  dds_topics :: "(string \<times> nat) list"
  dds_writers :: "(string \<times> nat) list"
  dds_readers :: "(string \<times> nat) list"
  dds_listeners :: "(string \<times> nat) list"
  dds_discovery :: "discovered option"
  dds_metrics :: transport_metrics
  dds_next :: nat
  dds_trace :: "dds_call list"

definition dds_binding_new :: dds_binding where
  "dds_binding_new =
     \<lparr> dds_conf = dds_config_new, dds_participant = None, dds_publisher = None, dds_subscriber = None,
       dds_topics = [], dds_writers = [], dds_readers = [], dds_listeners = [], dds_discovery = None,
       dds_metrics = transport_metrics_new, dds_next = 0, dds_trace = [] \<rparr>"

record dds_env =
  denv_participant_ok :: bool
  denv_publisher_ok :: bool
  denv_subscriber_ok :: bool
  denv_topic_ok :: bool
  denv_writer_ok :: bool
  denv_reader_ok :: bool
  denv_write_ok :: bool
  denv_now :: u64
  denv_latency :: u64

definition dds_emit :: "dds_call list \<Rightarrow> dds_binding \<Rightarrow> dds_binding" where
  "dds_emit cs b = b\<lparr>dds_trace := dds_trace b @ cs\<rparr>"

definition dds_fresh :: "nat \<Rightarrow> dds_binding \<Rightarrow> dds_binding" where
  "dds_fresh n b = b\<lparr>dds_next := dds_next b + n\<rparr>"

subsection \<open>Listeners\<close>

text \<open>\<open>on_data_available\<close>: the callback of the listener and the message it takes, if any, with the
  flag \<open>valid_data\<close>.\<close>

definition on_data_available ::
  "nat \<Rightarrow> (lap_com_message \<times> bool) option \<Rightarrow> transport_metrics \<Rightarrow> event_delivery option \<times> transport_metrics" where
  "on_data_available callback taken m =
     (case taken of
        Some (msg, True) \<Rightarrow>
          (Some (EventCall callback (msg_service_id msg) (msg_instance_id msg) (msg_event_id msg)
                   (msg_payload msg)),
           m\<lparr> messages_received := messages_received m + 1,
              bytes_received := bytes_received m + of_nat (length (msg_payload msg)) \<rparr>)
      | _ \<Rightarrow> (None, m))"

datatype writer_status = DiscoveredWriter | ChangedQosWriter | RemovedWriter

text \<open>The identifiers in a topic name; \<open>None\<close> if the name is not one of the services or does not
  parse (an exception that is caught).\<close>

definition parse_topic :: "string \<Rightarrow> (u64 \<times> u64) option" where
  "parse_topic topic_name =
     (if take 12 topic_name \<noteq> ''LapComTopic_'' then None
      else case find_from CHR ''_'' 0 topic_name of
        None \<Rightarrow> None
      | Some a \<Rightarrow> (case find_from CHR ''_'' (a + 1) topic_name of
          None \<Rightarrow> None
        | Some b \<Rightarrow> (case stoull 16 (substr (a + 1) (b - a - 1) topic_name) of
            None \<Rightarrow> None
          | Some service_id \<Rightarrow> (case find_from CHR ''_'' (b + 1) topic_name of
              None \<Rightarrow> None
            | Some c \<Rightarrow> (case stoull 16 (substr (b + 1) (c - b - 1) topic_name) of
                None \<Rightarrow> None
              | Some instance_id \<Rightarrow> Some (service_id, instance_id))))))"

definition on_publisher_discovery :: "writer_status \<Rightarrow> string \<Rightarrow> discovered \<Rightarrow> discovered" where
  "on_publisher_discovery st topic_name d =
     (case parse_topic topic_name of
        None \<Rightarrow> d
      | Some (s, i) \<Rightarrow>
          (case st of
             DiscoveredWriter \<Rightarrow>
               umap_put s (List.insert i (case map_of d s of Some is \<Rightarrow> is | None \<Rightarrow> [])) d
           | RemovedWriter \<Rightarrow>
               (case map_of d s of
                  None \<Rightarrow> d
                | Some is \<Rightarrow>
                    let is' = removeAll i is
                    in if is' = [] then map_drop s d else umap_put s is' d)
           | ChangedQosWriter \<Rightarrow> d))"

definition GetDiscoveredInstances :: "u64 \<Rightarrow> discovered \<Rightarrow> u64 list" where
  "GetDiscoveredInstances service_id d =
     (case map_of d service_id of Some is \<Rightarrow> (if is \<noteq> [] then is else []) | None \<Rightarrow> [])"

subsection \<open>Lifecycle\<close>

definition dds_Initialize :: "dds_env \<Rightarrow> dds_binding \<Rightarrow> unit result \<times> dds_binding" where
  "dds_Initialize e b =
     (case dds_participant b of
        Some _ \<Rightarrow> (Ok (), b)
      | None \<Rightarrow>
          let pa = dds_next b; pu = pa + 1; su = pa + 2; dom = domain_id (dds_conf b);
              name = ''LightAP_DDS_Participant''; b1 = dds_fresh 3 b
          in if \<not> denv_participant_ok e then (Err kNotInitialized, b1\<lparr>dds_discovery := None\<rparr>)
             else if \<not> denv_publisher_ok e
             then (Err kNotInitialized,
                   dds_emit [CreateParticipant pa dom name, RegisterType pa, DeleteParticipant pa]
                     (b1\<lparr>dds_participant := None, dds_publisher := None, dds_discovery := None\<rparr>))
             else if \<not> denv_subscriber_ok e
             then (Err kNotInitialized,
                   dds_emit [CreateParticipant pa dom name, RegisterType pa, CreatePublisher pu pa,
                             DeletePublisher pu, DeleteParticipant pa]
                     (b1\<lparr>dds_participant := None, dds_publisher := None, dds_subscriber := None,
                         dds_discovery := None\<rparr>))
             else (Ok (),
                   dds_emit [CreateParticipant pa dom name, RegisterType pa, CreatePublisher pu pa,
                             CreateSubscriber su pa]
                     (b1\<lparr>dds_participant := Some pa, dds_publisher := Some pu,
                         dds_subscriber := Some su, dds_discovery := Some []\<rparr>)))"

text \<open>Shutting down with readers but no subscriber, or writers but no publisher, would call a member
  of a null pointer.\<close>

definition dds_Shutdown :: "dds_binding \<Rightarrow> (unit result \<times> dds_binding) option" where
  "dds_Shutdown b =
     (case dds_participant b of
        None \<Rightarrow> Some (Ok (), b)
      | Some pa \<Rightarrow>
          if dds_readers b \<noteq> [] \<and> dds_subscriber b = None then None
          else if dds_writers b \<noteq> [] \<and> dds_publisher b = None then None
          else
            let b1 = (dds_emit (map (\<lambda>(key, reader). DeleteDataReader reader) (dds_readers b)) b)
                       \<lparr>dds_readers := [], dds_listeners := []\<rparr>;
                b2 = (dds_emit (map (\<lambda>(key, writer). DeleteDataWriter writer) (dds_writers b1)) b1)
                       \<lparr>dds_writers := []\<rparr>;
                b3 = (dds_emit (map (\<lambda>(key, topic). DeleteTopic topic) (dds_topics b2)) b2)
                       \<lparr>dds_topics := []\<rparr>;
                b4 = (case dds_subscriber b3 of
                        Some su \<Rightarrow> (dds_emit [DeleteSubscriber su] b3)\<lparr>dds_subscriber := None\<rparr>
                      | None \<Rightarrow> b3);
                b5 = (case dds_publisher b4 of
                        Some pu \<Rightarrow> (dds_emit [DeletePublisher pu] b4)\<lparr>dds_publisher := None\<rparr>
                      | None \<Rightarrow> b4);
                b6 = (dds_emit [DeleteParticipant pa] b5)\<lparr>dds_participant := None\<rparr>
            in Some (Ok (), b6\<lparr>dds_discovery := None\<rparr>))"

subsection \<open>Keys, topics and endpoints\<close>

definition MakeKey :: "u64 \<Rightarrow> u64 \<Rightarrow> u32 \<Rightarrow> string" where
  "MakeKey service_id instance_id event_id =
     hex_str service_id @ ''_'' @ hex_str instance_id @ ''_'' @ hex_str event_id"

definition topic_name :: "u64 \<Rightarrow> u64 \<Rightarrow> u32 \<Rightarrow> string" where
  "topic_name service_id instance_id event_id =
     ''lap/com/'' @ hex_str service_id @ ''/'' @ hex_str instance_id @ ''/'' @ hex_str event_id"

definition dds_CreateTopic ::
  "dds_env \<Rightarrow> u64 \<Rightarrow> u64 \<Rightarrow> u32 \<Rightarrow> dds_binding \<Rightarrow> (nat option \<times> dds_binding) option" where
  "dds_CreateTopic e s i v b =
     (case dds_participant b of
        None \<Rightarrow> None
      | Some pa \<Rightarrow>
          if \<not> denv_topic_ok e then Some (None, b)
          else let t = dds_next b
               in Some (Some t, dds_emit [NewTopic t pa (topic_name s i v)] (dds_fresh 1 b)))"

definition GetOrCreateTopic ::
  "dds_env \<Rightarrow> u64 \<Rightarrow> u64 \<Rightarrow> u32 \<Rightarrow> dds_binding \<Rightarrow> (nat option \<times> dds_binding) option" where
  "GetOrCreateTopic e s i v b =
     (case map_of (dds_topics b) (MakeKey s i v) of
        Some t \<Rightarrow> Some (Some t, b)
      | None \<Rightarrow>
          (case dds_CreateTopic e s i v b of
             None \<Rightarrow> None
           | Some (None, b1) \<Rightarrow> Some (None, b1)
           | Some (Some t, b1) \<Rightarrow>
               Some (Some t, b1\<lparr>dds_topics := umap_put (MakeKey s i v) t (dds_topics b1)\<rparr>)))"

definition writer_qos :: "dds_config \<Rightarrow> dds_qos" where
  "writer_qos c =
     \<lparr> qos_reliable = reliable c, qos_transient_local = transient_local c, qos_depth = history_depth c,
       qos_max_samples = history_depth c, qos_max_instances = 100,
       qos_max_samples_per_instance = history_depth c \<rparr>"

definition CreateWriter :: "dds_env \<Rightarrow> nat \<Rightarrow> dds_binding \<Rightarrow> (nat option \<times> dds_binding) option" where
  "CreateWriter e t b =
     (case dds_publisher b of
        None \<Rightarrow> None
      | Some pu \<Rightarrow>
          if \<not> denv_writer_ok e then Some (None, b)
          else let w = dds_next b
               in Some (Some w, dds_emit [CreateDataWriter w t (writer_qos (dds_conf b))] (dds_fresh 1 b)))"

definition reader_qos :: "dds_config \<Rightarrow> dds_qos" where
  "reader_qos c =
     \<lparr> qos_reliable = reliable c, qos_transient_local = transient_local c, qos_depth = history_depth c,
       qos_max_samples = history_depth c, qos_max_instances = 100,
       qos_max_samples_per_instance = history_depth c \<rparr>"

definition CreateReader ::
  "dds_env \<Rightarrow> nat \<Rightarrow> string \<Rightarrow> nat \<Rightarrow> dds_binding \<Rightarrow> (nat option \<times> dds_binding) option" where
  "CreateReader e t key callback b =
     (case dds_subscriber b of
        None \<Rightarrow> None
      | Some su \<Rightarrow>
          if \<not> denv_reader_ok e then Some (None, b)
          else let r = dds_next b;
                   b1 = dds_emit [CreateDataReader r t (reader_qos (dds_conf b))] (dds_fresh 1 b)
               in Some (Some r, b1\<lparr>dds_listeners := umap_put key callback (dds_listeners b1)\<rparr>))"

subsection \<open>Services\<close>

text \<open>Offering and withdrawing a service change nothing: writers are made by \<open>SendEvent\<close>.\<close>

definition dds_OfferService :: "u64 \<Rightarrow> u64 \<Rightarrow> dds_binding \<Rightarrow> unit result \<times> dds_binding" where
  "dds_OfferService service_id instance_id b = (Ok (), b)"

definition dds_StopOfferService :: "u64 \<Rightarrow> u64 \<Rightarrow> dds_binding \<Rightarrow> unit result \<times> dds_binding" where
  "dds_StopOfferService service_id instance_id b = (Ok (), b)"

text \<open>The instance a key of the writers' table contributes to \<open>FindService\<close>.\<close>

definition key_instance :: "u64 \<Rightarrow> string \<Rightarrow> u64 option" where
  "key_instance service_id key =
     (case find_from CHR ''_'' 0 key of
        None \<Rightarrow> None
      | Some a \<Rightarrow> (case stoull 16 (substr 0 a key) of
          None \<Rightarrow> None
        | Some sid \<Rightarrow>
            if sid = service_id
            then (case find_from CHR ''_'' (a + 1) key of
                    None \<Rightarrow> None
                  | Some c \<Rightarrow> stoull 16 (substr (a + 1) (c - a - 1) key))
            else None))"

definition dds_FindService :: "u64 \<Rightarrow> dds_binding \<Rightarrow> u64 list result" where
  "dds_FindService service_id b =
     (case dds_discovery b of
        None \<Rightarrow> Err kNotInitialized
      | Some d \<Rightarrow>
          Ok (fold (\<lambda>(key, writer) all. case key_instance service_id key of
                                             Some i \<Rightarrow> List.insert i all
                                           | None \<Rightarrow> all)
                (dds_writers b) (remdups (GetDiscoveredInstances service_id d))))"

subsection \<open>Events\<close>

text \<open>The part of \<open>SendEvent\<close> before the write: the writer of the key, made if missing.\<close>

definition dds_get_writer ::
  "dds_env \<Rightarrow> u64 \<Rightarrow> u64 \<Rightarrow> u32 \<Rightarrow> dds_binding \<Rightarrow> (nat option \<times> dds_binding) option" where
  "dds_get_writer e s i v b =
     (case map_of (dds_writers b) (MakeKey s i v) of
        Some w \<Rightarrow> Some (Some w, b)
      | None \<Rightarrow>
          (case GetOrCreateTopic e s i v b of
             None \<Rightarrow> None
           | Some (None, b1) \<Rightarrow> Some (None, b1)
           | Some (Some t, b1) \<Rightarrow>
               (case CreateWriter e t b1 of
                  None \<Rightarrow> None
                | Some (None, b2) \<Rightarrow> Some (None, b2)
                | Some (Some w, b2) \<Rightarrow>
                    Some (Some w, b2\<lparr>dds_writers := umap_put (MakeKey s i v) w (dds_writers b2)\<rparr>))))"

definition dds_SendEvent ::
  "dds_env \<Rightarrow> u64 \<Rightarrow> u64 \<Rightarrow> u32 \<Rightarrow> u8 list \<Rightarrow> dds_binding \<Rightarrow> (unit result \<times> dds_binding) option" where
  "dds_SendEvent e s i v data b =
     (case dds_get_writer e s i v b of
        None \<Rightarrow> None
      | Some (None, b1) \<Rightarrow> Some (Err kBindingConnectionError, b1)
      | Some (Some w, b1) \<Rightarrow>
          let msg = \<lparr> msg_service_id = s, msg_instance_id = i, msg_event_id = v,
                      msg_timestamp_ns = denv_now e, msg_payload = data \<rparr>;
              b2 = dds_emit [WriteMessage w msg] b1; m = dds_metrics b2
          in if \<not> denv_write_ok e
             then Some (Err kCommunicationLinkError,
                        b2\<lparr>dds_metrics := m\<lparr> messages_dropped := messages_dropped m + 1 \<rparr>\<rparr>)
             else
               let n = messages_sent m + 1; lat = denv_latency e
               in Some (Ok (), b2\<lparr>dds_metrics := m
                    \<lparr> messages_sent := n,
                      bytes_sent := bytes_sent m + of_nat (length data),
                      min_latency_ns := (if n = 1 then lat else min (min_latency_ns m) lat),
                      max_latency_ns := (if n = 1 then lat else max (max_latency_ns m) lat),
                      avg_latency_ns := average_latency (avg_latency_ns m) n lat \<rparr>\<rparr>))"

definition dds_SubscribeEvent ::
  "dds_env \<Rightarrow> u64 \<Rightarrow> u64 \<Rightarrow> u32 \<Rightarrow> nat \<Rightarrow> dds_binding \<Rightarrow> (unit result \<times> dds_binding) option" where
  "dds_SubscribeEvent e s i v callback b =
     (let key = MakeKey s i v in
      case map_of (dds_readers b) key of
        Some _ \<Rightarrow> Some (Ok (), b)
      | None \<Rightarrow>
          (case GetOrCreateTopic e s i v b of
             None \<Rightarrow> None
           | Some (None, b1) \<Rightarrow> Some (Err kBindingConnectionError, b1)
           | Some (Some t, b1) \<Rightarrow>
               (case CreateReader e t key callback b1 of
                  None \<Rightarrow> None
                | Some (None, b2) \<Rightarrow> Some (Err kBindingConnectionError, b2)
                | Some (Some r, b2) \<Rightarrow>
                    Some (Ok (), b2\<lparr>dds_readers := umap_put key r (dds_readers b2)\<rparr>))))"

definition dds_UnsubscribeEvent ::
  "u64 \<Rightarrow> u64 \<Rightarrow> u32 \<Rightarrow> dds_binding \<Rightarrow> (unit result \<times> dds_binding) option" where
  "dds_UnsubscribeEvent s i v b =
     (let key = MakeKey s i v in
      case map_of (dds_readers b) key of
        None \<Rightarrow> Some (Ok (), b)
      | Some r \<Rightarrow>
          (case dds_subscriber b of
             None \<Rightarrow> None
           | Some su \<Rightarrow>
               let b1 = (dds_emit [DeleteDataReader r] b)
                          \<lparr>dds_readers := map_drop key (dds_readers b),
                           dds_listeners := map_drop key (dds_listeners b)\<rparr>
               in case map_of (dds_topics b1) key of
                    None \<Rightarrow> Some (Ok (), b1)
                  | Some t \<Rightarrow>
                      if dds_participant b1 = None then None
                      else Some (Ok (), (dds_emit [DeleteTopic t] b1)
                                          \<lparr>dds_topics := map_drop key (dds_topics b1)\<rparr>)))"

text \<open>Methods, fields and AF_XDP are not implemented.\<close>

definition dds_CallMethod :: "u64 \<Rightarrow> u64 \<Rightarrow> u32 \<Rightarrow> u8 list \<Rightarrow> u8 list result" where
  "dds_CallMethod s i m request = Err kNotImplemented"

definition dds_RegisterMethod :: "u64 \<Rightarrow> u64 \<Rightarrow> u32 \<Rightarrow> nat \<Rightarrow> unit result" where
  "dds_RegisterMethod s i m callback = Err kNotImplemented"

definition dds_GetField :: "u64 \<Rightarrow> u64 \<Rightarrow> u32 \<Rightarrow> u8 list result" where
  "dds_GetField s i f = Err kNotImplemented"

definition dds_SetField :: "u64 \<Rightarrow> u64 \<Rightarrow> u32 \<Rightarrow> u8 list \<Rightarrow> unit result" where
  "dds_SetField s i f data = Err kNotImplemented"

definition dds_SupportsService :: "u64 \<Rightarrow> bool" where
  "dds_SupportsService service_id = True"

definition dds_GetMetrics :: "dds_binding \<Rightarrow> transport_metrics" where
  "dds_GetMetrics b = dds_metrics b"

definition dds_SupportsZeroCopy :: "dds_binding \<Rightarrow> bool" where
  "dds_SupportsZeroCopy b = af_xdp_enabled (dds_conf b)"

definition InitializeAfXdp :: "unit result" where
  "InitializeAfXdp = Err kInvalidState"

definition SendViaAfXdp :: "u8 list \<Rightarrow> unit result" where
  "SendViaAfXdp data = Err kNotImplemented"

fun dds_do :: "dds_env \<Rightarrow> binding_op \<Rightarrow> dds_binding \<Rightarrow> (binding_reply \<times> dds_binding) option" where
  "dds_do e Initialize b = Some (apfst Void (dds_Initialize e b))"
| "dds_do e Shutdown b = map_option (apfst Void) (dds_Shutdown b)"
| "dds_do e (OfferService s i) b = Some (apfst Void (dds_OfferService s i b))"
| "dds_do e (StopOfferService s i) b = Some (apfst Void (dds_StopOfferService s i b))"
| "dds_do e (FindService s) b = Some (Instances (dds_FindService s b), b)"
| "dds_do e (SendEvent s i v data) b = map_option (apfst Void) (dds_SendEvent e s i v data b)"
| "dds_do e (SubscribeEvent s i v callback) b =
     map_option (apfst Void) (dds_SubscribeEvent e s i v callback b)"
| "dds_do e (UnsubscribeEvent s i v) b = map_option (apfst Void) (dds_UnsubscribeEvent s i v b)"
| "dds_do e (CallMethod s i m request) b = Some (Buffer (dds_CallMethod s i m request), b)"
| "dds_do e (RegisterMethod s i m callback) b = Some (Void (dds_RegisterMethod s i m callback), b)"
| "dds_do e (GetField s i f) b = Some (Buffer (dds_GetField s i f), b)"
| "dds_do e (SetField s i f data) b = Some (Void (dds_SetField s i f data), b)"

definition dds_run :: "dds_env \<Rightarrow> binding_op \<Rightarrow> dds_binding \<Rightarrow> dds_binding option" where
  "dds_run e op b = map_option snd (dds_do e op b)"

text \<open>A discovery callback is not an operation of the interface; it changes the discovered
  instances while there is a listener.\<close>

definition dds_discover :: "writer_status \<Rightarrow> string \<Rightarrow> dds_binding \<Rightarrow> dds_binding" where
  "dds_discover st topic b =
     b\<lparr>dds_discovery := map_option (on_publisher_discovery st topic) (dds_discovery b)\<rparr>"

subsection \<open>Keys and topic names\<close>

lemma MakeKey_shape: "MakeKey s i v = hex_str s @ CHR ''_'' # (hex_str i @ CHR ''_'' # hex_str v)"
  by (simp add: MakeKey_def)

lemma MakeKey_inj [simp]: "MakeKey s i v = MakeKey s' i' v' \<longleftrightarrow> s = s' \<and> i = i' \<and> v = v'"
  by (simp add: MakeKey_shape sep_inj)

text \<open>Searching the separators of a key after any prefix.\<close>

lemma find_first_sep:
  "find_from CHR ''_'' (length pre) (pre @ MakeKey s i v) = Some (length pre + length (hex_str s))"
  unfolding MakeKey_shape by (rule find_from_sep) simp_all

lemma find_second_sep:
  "find_from CHR ''_'' (Suc (length pre + length (hex_str s))) (pre @ MakeKey s i v) =
     Some (Suc (length pre + length (hex_str s) + length (hex_str i)))"
  using find_from_sep [of "pre @ hex_str s @ ''_''" _ "CHR ''_''" "hex_str i" "hex_str v"]
  by (simp add: MakeKey_shape)

lemma substr_service: "substr (length pre) (length (hex_str s)) (pre @ MakeKey s i v) = hex_str s"
  unfolding MakeKey_shape by (rule substr_mid) simp

lemma substr_instance:
  "substr (Suc (length pre + length (hex_str s))) (length (hex_str i)) (pre @ MakeKey s i v) = hex_str i"
  using substr_mid [of "pre @ hex_str s @ ''_''" _ "hex_str i" "CHR ''_'' # hex_str v"]
  by (simp add: MakeKey_shape)

lemma key_instance_MakeKey: "key_instance s (MakeKey s' i v) = (if s' = s then Some i else None)"
  using find_first_sep [of "[]" s' i v] find_second_sep [of "[]" s' i v]
    substr_service [of "[]" s' i v] substr_instance [of "[]" s' i v]
  by (cases "s' = s") (simp_all add: key_instance_def)

lemma parse_topic_documented: "parse_topic (''LapComTopic_'' @ MakeKey s i v) = Some (s, i)"
proof -
  have first: "find_from CHR ''_'' 0 (''LapComTopic_'' @ MakeKey s i v) = Some 11"
    by (simp add: find_from_def)
  have len: "length ''LapComTopic_'' = 12" by simp
  show ?thesis
    using find_first_sep [of "''LapComTopic_''" s i v] find_second_sep [of "''LapComTopic_''" s i v]
      substr_service [of "''LapComTopic_''" s i v] substr_instance [of "''LapComTopic_''" s i v]
    unfolding len parse_topic_def first by simp
qed

text \<open>C32: The names the discovery listener parses are not the names topics are created under: a
  publisher on a topic of the documented form adds its instance, and one on a topic that
  \<open>CreateTopic\<close> of any binding makes changes nothing, so no remote instance is ever found.\<close>

theorem dds_discovery_ignores_own_topics:
  "on_publisher_discovery st (topic_name s i v) d = d \<and>
   i \<in> set (GetDiscoveredInstances s
         (on_publisher_discovery DiscoveredWriter (''LapComTopic_'' @ MakeKey s i v) d))"
proof
  have "parse_topic (topic_name s i v) = None"
    by (simp add: parse_topic_def topic_name_def)
  then show "on_publisher_discovery st (topic_name s i v) d = d"
    by (simp add: on_publisher_discovery_def)
  show "i \<in> set (GetDiscoveredInstances s
      (on_publisher_discovery DiscoveredWriter (''LapComTopic_'' @ MakeKey s i v) d))"
    unfolding on_publisher_discovery_def parse_topic_documented
    by (auto simp: GetDiscoveredInstances_def List.insert_def split: option.split)
qed

subsection \<open>Entities are deleted\<close>

fun dds_made :: "dds_call \<Rightarrow> nat set" where
  "dds_made (CreateParticipant n d name) = {n}"
| "dds_made (CreatePublisher n pa) = {n}"
| "dds_made (CreateSubscriber n pa) = {n}"
| "dds_made (NewTopic n pa name) = {n}"
| "dds_made (CreateDataWriter n t q) = {n}"
| "dds_made (CreateDataReader n t q) = {n}"
| "dds_made _ = {}"

fun dds_given_back :: "dds_call \<Rightarrow> nat set" where
  "dds_given_back (DeleteParticipant n) = {n}"
| "dds_given_back (DeletePublisher n) = {n}"
| "dds_given_back (DeleteSubscriber n) = {n}"
| "dds_given_back (DeleteTopic n) = {n}"
| "dds_given_back (DeleteDataWriter n) = {n}"
| "dds_given_back (DeleteDataReader n) = {n}"
| "dds_given_back _ = {}"

definition dds_live :: "dds_binding \<Rightarrow> nat set" where
  "dds_live b = live dds_made dds_given_back (dds_trace b)"

definition opt_handle :: "nat option \<Rightarrow> nat list" where
  "opt_handle x = (case x of Some n \<Rightarrow> [n] | None \<Rightarrow> [])"

lemma opt_handle_simps [simp]: "opt_handle None = []" "opt_handle (Some n) = [n]"
  by (simp_all add: opt_handle_def)

abbreviation entry_handles :: "(string \<times> nat) list \<Rightarrow> nat list" where
  "entry_handles m \<equiv> map snd m"

lemma entry_put:
  "map_of m k = None \<Longrightarrow> image_mset snd (mset (umap_put k v m)) = add_mset v (image_mset snd (mset m))"
  by (simp add: umap_put_def map_drop_absent)

lemma entry_drop:
  "map_of m k = Some v \<Longrightarrow> distinct (map fst m) \<Longrightarrow>
   image_mset snd (mset m) = add_mset v (image_mset snd (mset (map_drop k m)))"
  using handles_drop [of m k v "\<lambda>p. [snd p]"] by simp

definition dds_handles :: "dds_binding \<Rightarrow> nat list" where
  "dds_handles b =
     opt_handle (dds_participant b) @ opt_handle (dds_publisher b) @ opt_handle (dds_subscriber b) @
     entry_handles (dds_topics b) @ entry_handles (dds_writers b) @ entry_handles (dds_readers b)"

definition dds_up :: "dds_binding \<Rightarrow> bool" where
  "dds_up b \<longleftrightarrow> dds_participant b \<noteq> None"

definition is_key :: "string \<Rightarrow> bool" where
  "is_key k \<longleftrightarrow> (\<exists>s i v. k = MakeKey s i v)"

definition dds_inv :: "dds_binding \<Rightarrow> bool" where
  "dds_inv b \<longleftrightarrow>
     tracked (dds_live b) (dds_handles b) (dds_next b) \<and>
     (dds_up b \<longleftrightarrow> dds_publisher b \<noteq> None) \<and> (dds_up b \<longleftrightarrow> dds_subscriber b \<noteq> None) \<and>
     (dds_up b \<longleftrightarrow> dds_discovery b \<noteq> None) \<and>
     (\<not> dds_up b \<longrightarrow> dds_topics b = [] \<and> dds_writers b = [] \<and> dds_readers b = []) \<and>
     distinct (map fst (dds_topics b)) \<and> distinct (map fst (dds_writers b)) \<and>
     distinct (map fst (dds_readers b)) \<and> list_all (\<lambda>p. is_key (fst p)) (dds_writers b)"

lemma dds_inv_new [simp]: "dds_inv dds_binding_new"
  by (simp add: dds_inv_def dds_binding_new_def dds_live_def dds_handles_def tracked_def dds_up_def)

lemma dds_inv_frame [simp]:
  "dds_inv (b\<lparr>dds_metrics := m\<rparr>) = dds_inv b" "dds_inv (b\<lparr>dds_listeners := l\<rparr>) = dds_inv b"
  by (simp_all add: dds_inv_def dds_live_def dds_handles_def dds_up_def)

lemma dds_live_emit:
  "dds_live (dds_emit cs b) = fold (\<lambda>c S. S - dds_given_back c \<union> dds_made c) cs (dds_live b)"
  by (simp add: dds_live_def dds_emit_def live_def)

lemma dds_live_drops:
  assumes "\<forall>c\<in>set cs. dds_made c = {}"
  shows "dds_live (dds_emit cs b) = dds_live b - (\<Union>c\<in>set cs. dds_given_back c)"
  using live_drops [OF assms] by (simp add: dds_live_def dds_emit_def)

lemma dds_fresh_notin: "dds_inv b \<Longrightarrow> dds_next b \<le> h \<Longrightarrow> h \<notin> dds_live b"
  by (auto simp: dds_inv_def dest: tracked_fresh)

lemma dds_inv_write [simp]: "dds_inv (dds_emit [WriteMessage w msg] b) = dds_inv b"
  by (simp add: dds_inv_def dds_live_emit) (simp add: dds_emit_def dds_handles_def dds_up_def)

text \<open>Adding an entity to one of the tables, and taking one out.\<close>

lemma dds_tracked_new:
  assumes "dds_inv b" "dds_made c = {dds_next b}" "dds_given_back c = {}"
    and "mset hs = mset [dds_next b] + mset (dds_handles b)"
  shows "tracked (dds_live (dds_emit [c] b)) hs (dds_next b + 1)"
proof (rule tracked_put)
  show "tracked (dds_live b) (dds_handles b) (dds_next b)" using assms(1) by (simp add: dds_inv_def)
  show "dds_live (dds_emit [c] b) = set [dds_next b] \<union> dds_live b"
    using assms(2,3) by (simp add: dds_live_emit)
qed (use assms(4) in simp_all)

lemma dds_tracked_gone:
  assumes "dds_inv b" "dds_made c = {}" "dds_given_back c = {h}"
    and "mset (dds_handles b) = mset [h] + mset hs"
  shows "tracked (dds_live (dds_emit [c] b)) hs (dds_next b)"
proof (rule tracked_take)
  show "tracked (dds_live b) (dds_handles b) (dds_next b)" using assms(1) by (simp add: dds_inv_def)
  show "dds_live (dds_emit [c] b) = dds_live b - set [h]"
    using assms(2,3) by (simp add: dds_live_emit)
qed (use assms(4) in simp_all)

lemma GetOrCreateTopic_inv:
  assumes inv: "dds_inv b" and g: "GetOrCreateTopic e s i v b = Some (t, b1)"
  shows "dds_inv b1"
    and "dds_up b1 = dds_up b \<and> dds_writers b1 = dds_writers b \<and> dds_readers b1 = dds_readers b"
proof -
  have up: "dds_inv b1 \<and> dds_up b1 = dds_up b \<and> dds_writers b1 = dds_writers b \<and>
      dds_readers b1 = dds_readers b"
  proof (cases "map_of (dds_topics b) (MakeKey s i v)")
    case (Some t')
    then show ?thesis using g inv by (simp add: GetOrCreateTopic_def)
  next
    case new: None
    then obtain pa where pa: "dds_participant b = Some pa"
      using g by (auto simp: GetOrCreateTopic_def dds_CreateTopic_def split: option.splits)
    let ?b = "(dds_emit [NewTopic (dds_next b) pa (topic_name s i v)] (dds_fresh 1 b))
      \<lparr>dds_topics := umap_put (MakeKey s i v) (dds_next b) (dds_topics b)\<rparr>"
    have "tracked (dds_live (dds_emit [NewTopic (dds_next b) pa (topic_name s i v)] b))
        (dds_handles ?b) (dds_next b + 1)"
      by (rule dds_tracked_new [OF inv])
        (simp_all add: dds_handles_def entry_put [OF new] dds_emit_def dds_fresh_def)
    then have "tracked (dds_live ?b) (dds_handles ?b) (dds_next ?b)"
      by (simp add: dds_live_def dds_emit_def dds_fresh_def)
    then have "dds_inv ?b"
      using inv pa by (simp add: dds_inv_def dds_emit_def dds_fresh_def dds_up_def distinct_umap_put)
    moreover have "b1 = b \<or> b1 = ?b"
      using g new pa by (auto simp: GetOrCreateTopic_def dds_CreateTopic_def Let_def
          dds_emit_def dds_fresh_def split: if_splits)
    ultimately show ?thesis
      using inv by (auto simp: dds_up_def dds_emit_def dds_fresh_def)
  qed
  then show "dds_inv b1"
    "dds_up b1 = dds_up b \<and> dds_writers b1 = dds_writers b \<and> dds_readers b1 = dds_readers b"
    by simp_all
qed

lemma dds_get_writer_inv:
  assumes inv: "dds_inv b" and g: "dds_get_writer e s i v b = Some (w, b1)"
  shows "dds_inv b1"
proof (cases "map_of (dds_writers b) (MakeKey s i v)")
  case (Some w')
  then show ?thesis using g inv by (simp add: dds_get_writer_def)
next
  case new: None
  then obtain t b0 where t: "GetOrCreateTopic e s i v b = Some (t, b0)"
    using g by (auto simp: dds_get_writer_def split: option.splits)
  note inv0 = GetOrCreateTopic_inv [OF inv t]
  show ?thesis
  proof (cases t)
    case None
    then show ?thesis using g new t inv0 by (simp add: dds_get_writer_def)
  next
    case (Some tp)
    let ?c = "CreateDataWriter (dds_next b0) tp (writer_qos (dds_conf b0))"
    let ?b = "(dds_emit [?c] (dds_fresh 1 b0))
      \<lparr>dds_writers := umap_put (MakeKey s i v) (dds_next b0) (dds_writers b0)\<rparr>"
    have up: "dds_publisher b0 \<noteq> None"
      using g new t Some by (auto simp: dds_get_writer_def CreateWriter_def split: option.splits)
    have "tracked (dds_live (dds_emit [?c] b0)) (dds_handles ?b) (dds_next b0 + 1)"
      using new inv0(2) by (intro dds_tracked_new [OF inv0(1)])
        (simp_all add: dds_handles_def entry_put dds_emit_def dds_fresh_def)
    then have "tracked (dds_live ?b) (dds_handles ?b) (dds_next ?b)"
      by (simp add: dds_live_def dds_emit_def dds_fresh_def)
    then have "dds_inv ?b"
      using inv0(1) up by (auto simp: dds_inv_def dds_emit_def dds_fresh_def dds_up_def
          distinct_umap_put umap_put_def map_drop_def list_all_iff is_key_def distinct_map_filter)
    moreover have "b1 = b0 \<or> b1 = ?b"
      using g new t Some by (auto simp: dds_get_writer_def CreateWriter_def Let_def
          dds_emit_def dds_fresh_def split: if_splits option.splits)
    ultimately show ?thesis using inv0(1) by auto
  qed
qed

lemma dds_SendEvent_inv:
  assumes inv: "dds_inv b" and g: "dds_SendEvent e s i v data b = Some (r, b1)"
  shows "dds_inv b1"
proof -
  obtain w b0 where w: "dds_get_writer e s i v b = Some (w, b0)"
    using g by (auto simp: dds_SendEvent_def split: option.splits)
  have "dds_inv b0" by (rule dds_get_writer_inv [OF inv w])
  then show ?thesis
    using g w by (cases w) (auto simp: dds_SendEvent_def Let_def split: if_splits)
qed

lemma dds_SubscribeEvent_inv:
  assumes inv: "dds_inv b" and g: "dds_SubscribeEvent e s i v callback b = Some (r, b1)"
  shows "dds_inv b1"
proof (cases "map_of (dds_readers b) (MakeKey s i v)")
  case (Some w')
  then show ?thesis using g inv by (simp add: dds_SubscribeEvent_def)
next
  case new: None
  then obtain t b0 where t: "GetOrCreateTopic e s i v b = Some (t, b0)"
    using g by (auto simp: dds_SubscribeEvent_def Let_def split: option.splits)
  note inv0 = GetOrCreateTopic_inv [OF inv t]
  show ?thesis
  proof (cases t)
    case None
    then show ?thesis using g new t inv0 by (simp add: dds_SubscribeEvent_def)
  next
    case (Some tp)
    let ?c = "CreateDataReader (dds_next b0) tp (reader_qos (dds_conf b0))"
    let ?b = "(dds_emit [?c] (dds_fresh 1 b0))
      \<lparr>dds_listeners := umap_put (MakeKey s i v) callback (dds_listeners b0),
       dds_readers := umap_put (MakeKey s i v) (dds_next b0) (dds_readers b0)\<rparr>"
    have up: "dds_subscriber b0 \<noteq> None"
      using g new t Some by (auto simp: dds_SubscribeEvent_def CreateReader_def Let_def split: option.splits)
    have "tracked (dds_live (dds_emit [?c] b0)) (dds_handles ?b) (dds_next b0 + 1)"
      using new inv0(2) by (intro dds_tracked_new [OF inv0(1)])
        (simp_all add: dds_handles_def entry_put dds_emit_def dds_fresh_def)
    then have "tracked (dds_live ?b) (dds_handles ?b) (dds_next ?b)"
      by (simp add: dds_live_def dds_emit_def dds_fresh_def)
    then have "dds_inv ?b"
      using inv0(1) up by (auto simp: dds_inv_def dds_emit_def dds_fresh_def dds_up_def
          distinct_umap_put)
    moreover have "b1 = b0 \<or> b1 = ?b"
      using g new t Some by (auto simp: dds_SubscribeEvent_def CreateReader_def Let_def
          dds_emit_def dds_fresh_def split: if_splits option.splits)
    ultimately show ?thesis using inv0(1) by auto
  qed
qed

lemma dds_UnsubscribeEvent_inv:
  assumes inv: "dds_inv b" and g: "dds_UnsubscribeEvent s i v b = Some (r, b1)"
  shows "dds_inv b1"
proof (cases "map_of (dds_readers b) (MakeKey s i v)")
  case None
  then show ?thesis using g inv by (simp add: dds_UnsubscribeEvent_def)
next
  case (Some h)
  let ?key = "MakeKey s i v"
  let ?b = "(dds_emit [DeleteDataReader h] b)\<lparr>dds_readers := map_drop ?key (dds_readers b),
    dds_listeners := map_drop ?key (dds_listeners b)\<rparr>"
  have "tracked (dds_live (dds_emit [DeleteDataReader h] b)) (dds_handles ?b) (dds_next b)"
    using inv by (intro dds_tracked_gone [OF inv])
      (simp_all add: dds_handles_def entry_drop [OF Some] dds_emit_def dds_inv_def)
  then have b: "dds_inv ?b"
    using inv Some by (auto simp: dds_inv_def dds_emit_def dds_live_def dds_up_def distinct_map_drop)
  show ?thesis
  proof (cases "map_of (dds_topics b) ?key")
    case None
    then show ?thesis
      using g Some b by (auto simp: dds_UnsubscribeEvent_def Let_def dds_emit_def split: option.splits)
  next
    case (Some t)
    let ?b2 = "(dds_emit [DeleteTopic t] ?b)\<lparr>dds_topics := map_drop ?key (dds_topics ?b)\<rparr>"
    have topics: "dds_topics ?b = dds_topics b" by (simp add: dds_emit_def)
    have "distinct (map fst (dds_topics b))" using inv by (simp add: dds_inv_def)
    from entry_drop [OF Some this]
    have "tracked (dds_live (dds_emit [DeleteTopic t] ?b)) (dds_handles ?b2) (dds_next ?b)"
      by (intro dds_tracked_gone [OF b]) (simp_all add: dds_handles_def dds_emit_def)
    then have "dds_inv ?b2"
      using b Some by (auto simp: dds_inv_def dds_emit_def dds_live_def dds_up_def distinct_map_drop)
    moreover have "b1 = ?b2"
      using g Some \<open>map_of (dds_readers b) ?key = Some h\<close>
      by (auto simp: dds_UnsubscribeEvent_def Let_def dds_emit_def split: option.splits if_splits)
    ultimately show ?thesis by simp
  qed
qed

lemma dds_Initialize_inv:
  assumes inv: "dds_inv b" shows "dds_inv (snd (dds_Initialize e b))"
proof (cases "dds_participant b")
  case (Some pa)
  then show ?thesis using inv by (simp add: dds_Initialize_def)
next
  case None
  then have empty: "dds_publisher b = None" "dds_subscriber b = None" "dds_topics b = []"
      "dds_writers b = []" "dds_readers b = []" "dds_discovery b = None"
    using inv by (simp_all add: dds_inv_def dds_up_def)
  with None have none: "dds_live b = {}"
    using inv tracked_live [of "dds_live b" "dds_handles b" "dds_next b"]
    by (simp add: dds_inv_def dds_handles_def)
  let ?b = "snd (dds_Initialize e b)"
  have "tracked (dds_live ?b) (dds_handles ?b) (dds_next ?b)"
    using none None empty
    by (simp add: dds_Initialize_def Let_def dds_live_emit)
      (auto simp: dds_live_def dds_handles_def dds_emit_def dds_fresh_def tracked_def)
  then show ?thesis
    using None empty unfolding dds_inv_def
    by (simp add: dds_Initialize_def dds_up_def dds_emit_def dds_fresh_def Let_def)
qed

lemma delete_calls:
  "(\<Union>c\<in>set (map (\<lambda>(k, h). DeleteDataReader h) m). dds_given_back c) = snd ` set m"
  "(\<Union>c\<in>set (map (\<lambda>(k, h). DeleteDataWriter h) m). dds_given_back c) = snd ` set m"
  "(\<Union>c\<in>set (map (\<lambda>(k, h). DeleteTopic h) m). dds_given_back c) = snd ` set m"
  by (induction m) auto

lemma dds_Shutdown_clean:
  assumes inv: "dds_inv b"
  shows "\<exists>b1. dds_Shutdown b = Some (Ok (), b1) \<and> dds_inv b1 \<and> \<not> dds_up b1"
proof (cases "dds_participant b")
  case None
  then show ?thesis using inv by (simp add: dds_Shutdown_def dds_up_def)
next
  case (Some pa)
  then obtain pu su where ps: "dds_publisher b = Some pu" "dds_subscriber b = Some su"
    using inv by (auto simp: dds_inv_def dds_up_def)
  let ?cs = "map (\<lambda>(k, r). DeleteDataReader r) (dds_readers b) @
    map (\<lambda>(k, w). DeleteDataWriter w) (dds_writers b) @ map (\<lambda>(k, t). DeleteTopic t) (dds_topics b) @
    [DeleteSubscriber su, DeletePublisher pu, DeleteParticipant pa]"
  let ?b = "b\<lparr>dds_trace := dds_trace b @ ?cs, dds_readers := [], dds_listeners := [],
    dds_writers := [], dds_topics := [], dds_subscriber := None, dds_publisher := None,
    dds_participant := None, dds_discovery := None\<rparr>"
  have sd: "dds_Shutdown b = Some (Ok (), ?b)"
    using Some ps by (simp add: dds_Shutdown_def dds_emit_def Let_def)
  have "dds_live ?b = dds_live (dds_emit ?cs b)"
    by (simp add: dds_live_def dds_emit_def)
  also have "\<dots> = dds_live b - (\<Union>c\<in>set ?cs. dds_given_back c)"
    by (rule dds_live_drops) auto
  also have "(\<Union>c\<in>set ?cs. dds_given_back c) = set (dds_handles b)"
    using Some ps by (simp only: set_append UN_Un delete_calls) (auto simp: dds_handles_def)
  also have "set (dds_handles b) = dds_live b"
    by (rule tracked_live [of _ _ "dds_next b"]) (use inv in \<open>simp add: dds_inv_def\<close>)
  finally have "dds_live ?b = {}" by simp
  then have "dds_inv ?b \<and> \<not> dds_up ?b"
    by (simp add: dds_inv_def dds_up_def tracked_def dds_handles_def)
  with sd show ?thesis by blast
qed

lemma dds_run_inv:
  assumes inv: "dds_inv b" and run: "dds_run e op b = Some b1"
  shows "dds_inv b1"
proof -
  obtain r where r: "dds_do e op b = Some (r, b1)"
    using run by (auto simp: dds_run_def)
  show ?thesis
  proof (cases op)
    case Initialize
    then show ?thesis using r dds_Initialize_inv [OF inv] by (auto simp: apfst_def map_prod_def split_def)
  next
    case Shutdown
    then show ?thesis using r dds_Shutdown_clean [OF inv] by auto
  next
    case (SendEvent s i v data)
    then show ?thesis using r by (auto intro: dds_SendEvent_inv [OF inv])
  next
    case (SubscribeEvent s i v callback)
    then show ?thesis using r by (auto intro: dds_SubscribeEvent_inv [OF inv])
  next
    case (UnsubscribeEvent s i v)
    then show ?thesis using r by (auto intro: dds_UnsubscribeEvent_inv [OF inv])
  qed (use r inv in \<open>simp_all add: dds_OfferService_def dds_StopOfferService_def\<close>)
qed

lemma dds_discover_inv: "dds_inv b \<Longrightarrow> dds_inv (dds_discover st topic b)"
  by (auto simp: dds_inv_def dds_discover_def dds_live_def dds_handles_def dds_up_def)

interpretation dds: binding_lifecycle dds_run dds_inv dds_up dds_live
proof unfold_locales
  show "dds_inv b1" if "dds_inv b" "dds_run e op b = Some b1" for b e op b1
    using that by (rule dds_run_inv)
  show "dds_run e Initialize b = Some b" if "dds_up b" for b e
    using that by (auto simp: dds_up_def dds_run_def dds_Initialize_def)
  show "\<exists>b1. dds_run e Shutdown b = Some b1 \<and> \<not> dds_up b1" if "dds_inv b" for b e
    using dds_Shutdown_clean [OF that] by (auto simp: dds_run_def)
  show "dds_live b = {}" if "dds_inv b" "\<not> dds_up b" for b
    using that by (auto simp: dds_inv_def dds_handles_def dds_up_def dest!: tracked_live)
qed

text \<open>A first use of a topic calls a member of the null participant before initialisation; nothing
  else does.\<close>

lemma dds_run_None:
  assumes "dds_inv b"
  shows "dds_run e op b = None \<longleftrightarrow>
    \<not> dds_up b \<and> (\<exists>s i v. (\<exists>data. op = SendEvent s i v data) \<or> (\<exists>callback. op = SubscribeEvent s i v callback))"
proof (cases "dds_participant b")
  case None
  then have "dds_topics b = []" "dds_writers b = []" "dds_readers b = []"
    using assms by (simp_all add: dds_inv_def dds_up_def)
  with None show ?thesis
    by (cases op) (simp_all add: dds_run_def dds_up_def dds_SendEvent_def dds_get_writer_def
        GetOrCreateTopic_def dds_CreateTopic_def dds_SubscribeEvent_def dds_UnsubscribeEvent_def
        dds_Shutdown_def)
next
  case (Some pa)
  then have up: "dds_publisher b \<noteq> None" "dds_subscriber b \<noteq> None"
    using assms by (auto simp: dds_inv_def dds_up_def)
  have topic: "\<exists>t b1. GetOrCreateTopic e s i v b = Some (t, b1) \<and> dds_publisher b1 = dds_publisher b \<and>
      dds_subscriber b1 = dds_subscriber b" for s i v
    using Some by (auto simp: GetOrCreateTopic_def dds_CreateTopic_def Let_def dds_emit_def
        dds_fresh_def split: option.split)
  have "dds_run e op b \<noteq> None"
  proof (cases op)
    case (SendEvent s i v data)
    show ?thesis
      using topic [of s i v] up unfolding SendEvent
      by (auto simp: dds_run_def dds_SendEvent_def dds_get_writer_def CreateWriter_def Let_def
          split: option.split)
  next
    case (SubscribeEvent s i v callback)
    show ?thesis
      using topic [of s i v] up unfolding SubscribeEvent
      by (auto simp: dds_run_def dds_SubscribeEvent_def CreateReader_def Let_def split: option.split)
  next
    case (UnsubscribeEvent s i v)
    show ?thesis
      using Some up unfolding UnsubscribeEvent
      by (auto simp: dds_run_def dds_UnsubscribeEvent_def dds_emit_def Let_def split: option.split)
  next
    case Shutdown
    then show ?thesis using dds_Shutdown_clean [OF assms] by (auto simp: dds_run_def)
  qed (simp_all add: dds_run_def)
  then show ?thesis using Some by (simp add: dds_up_def)
qed

subsection \<open>Properties\<close>

text \<open>Whether the binding is up before each operation, from the answers of the library; and that
  every event is sent or subscribed while it is up.\<close>

fun up_after :: "dds_env \<Rightarrow> binding_op \<Rightarrow> bool \<Rightarrow> bool" where
  "up_after e Initialize up =
     (up \<or> denv_participant_ok e \<and> denv_publisher_ok e \<and> denv_subscriber_ok e)"
| "up_after e Shutdown up = False"
| "up_after e _ up = up"

fun uses_topic :: "binding_op \<Rightarrow> bool" where
  "uses_topic (SendEvent s i v data) = True"
| "uses_topic (SubscribeEvent s i v callback) = True"
| "uses_topic _ = False"

fun dds_guarded :: "bool \<Rightarrow> (dds_env \<times> binding_op) list \<Rightarrow> bool" where
  "dds_guarded up [] = True"
| "dds_guarded up ((e, op) # ops) = ((uses_topic op \<longrightarrow> up) \<and> dds_guarded (up_after e op up) ops)"

lemma uses_topic_iff:
  "uses_topic op \<longleftrightarrow>
     (\<exists>s i v. (\<exists>data. op = SendEvent s i v data) \<or> (\<exists>callback. op = SubscribeEvent s i v callback))"
  by (cases op) auto

lemma dds_run_up:
  assumes inv: "dds_inv b" and run: "dds_run e op b = Some b1"
  shows "dds_up b1 = up_after e op (dds_up b)"
proof (cases op)
  case Initialize
  then show ?thesis
    using run by (auto simp: dds_run_def dds_Initialize_def dds_up_def dds_emit_def dds_fresh_def Let_def
        split: option.splits if_splits)
next
  case Shutdown
  then show ?thesis
    using run dds_Shutdown_clean [OF inv] by (auto simp: dds_run_def)
next
  case (SendEvent s i v data)
  show ?thesis
  proof (cases "map_of (dds_writers b) (MakeKey s i v)")
    case None
    then show ?thesis
      using run unfolding SendEvent
      by (auto simp: dds_run_def dds_SendEvent_def dds_get_writer_def GetOrCreateTopic_def
          dds_CreateTopic_def CreateWriter_def dds_up_def dds_emit_def dds_fresh_def Let_def
          split: option.splits if_splits)
  next
    case (Some w)
    then show ?thesis
      using run unfolding SendEvent
      by (auto simp: dds_run_def dds_SendEvent_def dds_get_writer_def dds_up_def dds_emit_def Let_def
          split: if_splits)
  qed
next
  case (SubscribeEvent s i v callback)
  then show ?thesis
    using run by (auto simp: dds_run_def dds_SubscribeEvent_def GetOrCreateTopic_def
        dds_CreateTopic_def CreateReader_def dds_up_def dds_emit_def dds_fresh_def Let_def
        split: option.splits if_splits)
next
  case (UnsubscribeEvent s i v)
  then show ?thesis
    using run by (auto simp: dds_run_def dds_UnsubscribeEvent_def dds_up_def dds_emit_def Let_def
        split: option.splits if_splits)
qed (use run in \<open>simp_all add: dds_run_def dds_OfferService_def dds_StopOfferService_def\<close>)

lemma dds_run_all_None:
  "dds_inv b \<Longrightarrow> run_all dds_run ops b = None \<longleftrightarrow> \<not> dds_guarded (dds_up b) ops"
proof (induction ops arbitrary: b)
  case (Cons p ops)
  obtain e op where p: "p = (e, op)" by (cases p)
  show ?case
  proof (cases "dds_run e op b")
    case None
    then show ?thesis
      using dds_run_None [OF Cons.prems, of e op] p by (auto simp: uses_topic_iff)
  next
    case (Some b1)
    have "dds_inv b1" by (rule dds_run_inv [OF Cons.prems Some])
    moreover have "uses_topic op \<longrightarrow> dds_up b"
      using dds_run_None [OF Cons.prems, of e op] Some by (auto simp: uses_topic_iff)
    ultimately show ?thesis
      using Cons.IH [of b1] Some p dds_run_up [OF Cons.prems Some] by simp
  qed
qed simp

text \<open>C31: A sequence of calls on a new DDS binding calls a member of a null pointer exactly if it
  sends or subscribes an event while the binding is not initialised; otherwise shutting down after
  it returns Ok and leaves a delete call for every participant, publisher, subscriber, topic,
  writer and reader that was created, whatever the library answers.\<close>

theorem dds_lifecycle:
  "case run_all dds_run ops dds_binding_new of
     None \<Rightarrow> \<not> dds_guarded False ops
   | Some b1 \<Rightarrow> dds_guarded False ops \<and>
       (\<exists>b2. dds_run e Shutdown b1 = Some b2 \<and> dds_live b2 = {} \<and> \<not> dds_up b2)"
proof -
  have "\<not> dds_up dds_binding_new" by (simp add: dds_up_def dds_binding_new_def)
  then have "run_all dds_run ops dds_binding_new = None \<longleftrightarrow> \<not> dds_guarded False ops"
    using dds_run_all_None [OF dds_inv_new, of ops] by simp
  then show ?thesis
    using dds.shutdown_releases [OF dds_inv_new, of ops _ e] by (auto split: option.split)
qed

lemma fold_key_instance:
  assumes "\<forall>p\<in>set ws. is_key (fst p)"
  shows "set (fold (\<lambda>(key, w) all. case key_instance s key of Some i \<Rightarrow> List.insert i all | None \<Rightarrow> all)
      ws xs) = set xs \<union> {i. \<exists>v. MakeKey s i v \<in> fst ` set ws}"
  using assms
proof (induction ws arbitrary: xs)
  case (Cons p ws)
  then obtain s' i' v' where p: "fst p = MakeKey s' i' v'" by (auto simp: is_key_def)
  let ?xs = "if s' = s then List.insert i' xs else xs"
  have "fold (\<lambda>(key, w) all. case key_instance s key of Some i \<Rightarrow> List.insert i all | None \<Rightarrow> all)
      (p # ws) xs =
    fold (\<lambda>(key, w) all. case key_instance s key of Some i \<Rightarrow> List.insert i all | None \<Rightarrow> all) ws ?xs"
    using p by (cases p) (simp add: key_instance_MakeKey)
  then show ?case
    using Cons p by auto
qed simp

lemma fold_key_instance_distinct:
  "distinct xs \<Longrightarrow> distinct (fold (\<lambda>(key, w) all. case key_instance s key of
     Some i \<Rightarrow> List.insert i all | None \<Rightarrow> all) ws xs)"
  by (induction ws arbitrary: xs) (auto split: option.split)

text \<open>After any sequence of calls that leaves the binding initialised, \<open>FindService\<close> lists, each
  once, the discovered instances and the instances for which some event of the service has a
  writer here; an offered service that has not sent an event is not among them.\<close>

lemma dds_find_lists_writers:
  assumes "run_all dds_run ops dds_binding_new = Some b" "dds_discovery b = Some d"
  shows "\<exists>is. dds_FindService s b = Ok is \<and> distinct is \<and>
    set is = set (GetDiscoveredInstances s d) \<union> {i. \<exists>v w. map_of (dds_writers b) (MakeKey s i v) = Some w}"
proof -
  have inv: "dds_inv b" by (rule dds.run_all_inv [OF dds_inv_new assms(1)])
  then have "\<forall>p\<in>set (dds_writers b). is_key (fst p)" by (simp add: dds_inv_def list_all_iff)
  note set = fold_key_instance [OF this, of s "remdups (GetDiscoveredInstances s d)"]
  have "MakeKey s i v \<in> fst ` set (dds_writers b) \<longleftrightarrow>
      (\<exists>w. map_of (dds_writers b) (MakeKey s i v) = Some w)" for i v
    by (metis domD domI dom_map_of_conv_image_fst)
  then show ?thesis
    using set assms(2) by (simp add: dds_FindService_def fold_key_instance_distinct)
qed

definition demo_dds_env :: dds_env where
  "demo_dds_env =
     \<lparr> denv_participant_ok = True, denv_publisher_ok = True, denv_subscriber_ok = True,
       denv_topic_ok = True, denv_writer_ok = True, denv_reader_ok = True, denv_write_ok = True,
       denv_now = 0, denv_latency = 7 \<rparr>"

lemmas dds_eval = dds_run_def dds_Initialize_def dds_SendEvent_def dds_get_writer_def
  GetOrCreateTopic_def dds_CreateTopic_def CreateWriter_def dds_SubscribeEvent_def CreateReader_def
  dds_UnsubscribeEvent_def dds_OfferService_def dds_emit_def dds_fresh_def dds_binding_new_def
  demo_dds_env_def umap_put_def map_drop_def Let_def

lemma dds_find_lists_writers_witness:
  "\<exists>b is. run_all dds_run [(demo_dds_env, Initialize), (demo_dds_env, OfferService 5 6),
       (demo_dds_env, SendEvent 5 7 8 [9])] dds_binding_new = Some b \<and>
     dds_FindService 5 b = Ok is \<and> set is = {7}"
proof -
  obtain b where b: "run_all dds_run [(demo_dds_env, Initialize), (demo_dds_env, OfferService 5 6),
      (demo_dds_env, SendEvent 5 7 8 [9])] dds_binding_new = Some b"
      "dds_discovery b = Some []" "map fst (dds_writers b) = [MakeKey 5 7 8]"
    by (simp add: dds_eval)
  have "map_of (dds_writers b) k = Some w \<Longrightarrow> k = MakeKey 5 7 8" for k w
    using b(3) by (auto dest!: map_of_SomeD simp: map_eq_Cons_conv)
  moreover have "\<exists>w. map_of (dds_writers b) (MakeKey 5 7 8) = Some w"
    using b(3) by (auto simp: map_eq_Cons_conv)
  ultimately show ?thesis
    using dds_find_lists_writers [OF b(1,2), of 5] b(1) by (force simp: GetDiscoveredInstances_def)
qed

text \<open>Unsubscribing deletes the topic of the key even when a writer of the same key is on it.\<close>

lemma dds_unsubscribe_deletes_topic_in_use:
  "\<exists>b t w q. run_all dds_run [(demo_dds_env, Initialize), (demo_dds_env, SendEvent 5 7 8 [9]),
       (demo_dds_env, SubscribeEvent 5 7 8 4), (demo_dds_env, UnsubscribeEvent 5 7 8)] dds_binding_new
       = Some b \<and>
     CreateDataWriter w t q \<in> set (dds_trace b) \<and> map_of (dds_writers b) (MakeKey 5 7 8) = Some w \<and>
     last (dds_trace b) = DeleteTopic t"
  by (simp add: dds_eval)

end
