(* ===== verification/Transports.thy ===== *)
theory Transports
  imports IceoryxBinding DdsBinding
begin

text \<open>
  The binding manager over the two transports of the repository that implement
  \<open>ITransportBinding\<close>: the plugin interface the manager takes as a parameter, on the answers the
  iceoryx2 and the DDS binding give.  An object of the manager is looked up in a store of binding
  objects.
\<close>

datatype transport = Iceoryx2 iceoryx2_binding | Dds dds_binding

datatype binding_priority = ICEORYX2 | DDS | SOMEIP | SOCKET | DBUS | CUSTOM

fun priority_code :: "binding_priority \<Rightarrow> u32" where
  "priority_code ICEORYX2 = 100"
| "priority_code DDS = 80"
| "priority_code SOMEIP = 60"
| "priority_code SOCKET = 40"
| "priority_code DBUS = 20"
| "priority_code CUSTOM = 10"

definition iox_GetName :: string where
  "iox_GetName = ''iceoryx2''"

definition iox_GetPriority :: u32 where
  "iox_GetPriority = 100"

definition iox_SupportsZeroCopy :: bool where
  "iox_SupportsZeroCopy = True"

definition dds_GetName :: string where
  "dds_GetName = ''DDS''"

definition dds_GetPriority :: u32 where
  "dds_GetPriority = 80"

fun transport_supports :: "u64 \<Rightarrow> transport \<Rightarrow> bool" where
  "transport_supports sid (Iceoryx2 b) = iox_SupportsService sid"
| "transport_supports sid (Dds b) = dds_SupportsService sid"

fun transport_GetMetrics :: "transport \<Rightarrow> transport_metrics" where
  "transport_GetMetrics (Iceoryx2 b) = iox_GetMetrics b"
| "transport_GetMetrics (Dds b) = dds_GetMetrics b"

fun transport_zero_copy :: "transport \<Rightarrow> bool" where
  "transport_zero_copy (Iceoryx2 b) = iox_SupportsZeroCopy"
| "transport_zero_copy (Dds b) = dds_SupportsZeroCopy b"

fun transport_priority :: "transport \<Rightarrow> u32" where
  "transport_priority (Iceoryx2 b) = iox_GetPriority"
| "transport_priority (Dds b) = dds_GetPriority"

definition api_of :: "(nat \<Rightarrow> transport) \<Rightarrow> plugin_api" where
  "api_of store =
     \<lparr> api_supports = (\<lambda>b sid. transport_supports sid (store (bid b))),
       api_metrics = (\<lambda>b. transport_GetMetrics (store (bid b))),
       api_zero_copy = (\<lambda>b. transport_zero_copy (store (bid b))),
       api_priority = (\<lambda>b. transport_priority (store (bid b))) \<rparr>"

text \<open>The priorities the bindings announce are those of the enumeration.\<close>

lemma announced_priorities:
  "iox_GetPriority = priority_code ICEORYX2" "dds_GetPriority = priority_code DDS"
  by (simp_all add: iox_GetPriority_def dds_GetPriority_def)

lemma transport_supports_all [simp]: "transport_supports sid t"
  by (cases t) (simp_all add: iox_SupportsService_def dds_SupportsService_def)

text \<open>So a binding is selected by priority alone: without a static mapping every service gets the
  first binding of the manager, whatever its state, and a binding of lower priority none.\<close>

lemma selected_by_priority_alone:
  assumes run: "bm_run xs bm_new = Done m" and free: "forced_binding sid iid m = None"
    and first: "bm_bindings m = (p, b) # rest"
  shows "SelectBinding (api_of store) sid iid m = Done (Some b, m) \<and> (\<forall>(q, c)\<in>set rest. q \<le> p)"
proof -
  have inv: "bm_inv m" by (rule bm_run_inv [OF run bm_inv_new])
  have "first_supporting (api_of store) sid (bm_bindings m) = Some b"
    by (simp add: first api_of_def)
  then have "SelectBinding (api_of store) sid iid m = Done (Some b, m)"
    using inv free by (simp add: bm_inv_def SelectBinding_free select_unlocked_forced)
  moreover have "\<forall>(q, c)\<in>set rest. q \<le> p"
    using inv first by (auto simp: bm_inv_def bm_ranked_def)
  ultimately show ?thesis ..
qed

text \<open>With both bindings registered under their own priorities the DDS binding is never selected.\<close>

definition both_transports :: "bm_op list" where
  "both_transports =
     [OpRegister (demo_cfg dds_GetName dds_GetPriority) (Some (Binding 2 None)),
      OpRegister (demo_cfg iox_GetName iox_GetPriority) (Some (Binding 1 None))]"

lemma dds_never_selected:
  "\<exists>m. bm_run both_transports bm_new = Done m \<and>
     (\<forall>sid iid store. SelectBinding (api_of store) sid iid m = Done (Some (Binding 1 None), m))"
proof -
  let ?m = "bm_new\<lparr>bm_bindings := [(100, Binding 1 None), (80, Binding 2 None)],
     bm_by_name := [(''DDS'', Binding 2 None), (''iceoryx2'', Binding 1 None)]\<rparr>"
  have run: "bm_run both_transports bm_new = Done ?m"
    by (simp add: both_transports_def bm_op_defs bm_new_def demo_cfg_def dds_GetName_def
        iox_GetName_def dds_GetPriority_def iox_GetPriority_def)
  have "SelectBinding (api_of store) sid iid ?m = Done (Some (Binding 1 None), ?m)" for sid iid store
    using selected_by_priority_alone [OF run, of sid iid 100 "Binding 1 None" "[(80, Binding 2 None)]" store]
    by (simp add: forced_binding_def bm_new_def)
  with run show ?thesis by blast
qed

end
