(* ===== verification/ServiceDiscovery.thy ===== *)
theory ServiceDiscovery
  imports Transport
begin

text \<open>
  runtime/inc/ServiceDiscovery.hpp: the data of the planned discovery service.  The classes of the
  header (the loader, the manager, the client of the discovery server) are declared without any
  implementation and are not modelled.  The type of instance identifiers the header names does not
  exist in the repository: it is a type variable.  Times are numbers of the unit of the field.
\<close>

record 'id service_instance_info =
  si_interface_name :: string
  si_instance_id :: 'id
  si_major_version :: u32
  si_minor_version :: u32
  si_binding_type :: string
  si_network_endpoint :: string
  si_timestamp_ms :: u64
  si_ttl_seconds :: u32
  si_metadata :: "string \<rightharpoonup> string"

definition info_IsValid :: "'id service_instance_info \<Rightarrow> bool" where
  "info_IsValid s \<longleftrightarrow> si_interface_name s \<noteq> [] \<and> si_binding_type s \<noteq> [] \<and> 0 < si_ttl_seconds s"

record discovery_endpoint =
  ep_address :: string
  ep_port :: u16
  ep_transport :: string
  ep_guid_prefix :: string

definition dec_str :: "'a::len word \<Rightarrow> string" where
  "dec_str w = digits_str 10 (unat w)"

definition endpoint_ToString :: "discovery_endpoint \<Rightarrow> string" where
  "endpoint_ToString e = ep_transport e @ ''://'' @ ep_address e @ '':'' @ dec_str (ep_port e)"

record discovery_server_config =
  ds_servers :: "discovery_endpoint list"
  ds_connect_timeout :: int
  ds_query_timeout :: int
  ds_max_retry_count :: u32
  ds_enable_fallback :: bool

definition discovery_server_config_new :: discovery_server_config where
  "discovery_server_config_new =
     \<lparr> ds_servers = [], ds_connect_timeout = 1000, ds_query_timeout = 10, ds_max_retry_count = 3,
       ds_enable_fallback = True \<rparr>"

record 'id static_endpoint =
  se_interface_name :: string
  se_instance_id :: 'id
  se_binding_type :: string
  se_endpoint :: string
  se_transport_config :: "string \<rightharpoonup> string"

record discovery_config =
  dcf_static_config_path :: string
  dcf_server_config :: "discovery_server_config option"
  dcf_static :: bool
  dcf_central :: bool
  dcf_dynamic :: bool

definition discovery_config_new :: discovery_config where
  "discovery_config_new =
     \<lparr> dcf_static_config_path = ''/etc/lap/com/static_endpoints.yaml'', dcf_server_config = None,
       dcf_static = True, dcf_central = True, dcf_dynamic = True \<rparr>"

record discovery_statistics =
  st_static_config_hits :: u64
  st_discovery_server_hits :: u64
  st_dynamic_discovery_hits :: u64
  st_total_queries :: u64
  st_failed_queries :: u64
  st_avg_latency :: int
  st_server_available :: bool
  st_server_failures :: u64

definition discovery_statistics_new :: discovery_statistics where
  "discovery_statistics_new =
     \<lparr> st_static_config_hits = 0, st_discovery_server_hits = 0, st_dynamic_discovery_hits = 0,
       st_total_queries = 0, st_failed_queries = 0, st_avg_latency = 0, st_server_available = False,
       st_server_failures = 0 \<rparr>"

subsection \<open>The text of an endpoint\<close>

lemma dec_digits: "c \<in> set (digits_str 10 n) \<Longrightarrow> is_digit 10 c"
proof (induction "10::nat" n rule: digits_str.induct)
  case (1 n)
  have d: "is_digit 10 (digit_char d)" if "d < 10" for d
    using that by (simp add: is_digit_def digit_char_def digit_val_def Let_def)
  show ?case
    using 1 d by (subst (asm) (2) digits_str.simps) (auto split: if_splits)
qed

lemma digits_value_dec: "digits_value 10 0 (digits_str 10 n) = n"
proof (induction "10::nat" n rule: digits_str.induct)
  case (1 n)
  have d: "digits_value 10 a [digit_char d] = a * 10 + d" if "d < 10" for a d
    using that by (simp add: digit_char_def digit_val_def Let_def)
  show ?case
  proof (cases "n < 10")
    case True
    then show ?thesis using d [of n 0] by (subst digits_str.simps) simp
  next
    case False
    then have "digits_str 10 n = digits_str 10 (n div 10) @ [digit_char (n mod 10)]"
      by (subst digits_str.simps) simp
    then show ?thesis
      using 1 False d [of "n mod 10" "n div 10"] by (simp add: digits_value_append dec_digits)
  qed
qed

lemma dec_str_inj: "dec_str v = dec_str w \<longleftrightarrow> v = w"
  unfolding dec_str_def by (metis digits_value_dec word_unat_eq_iff)

lemma dec_str_no_colon: "CHR '':'' \<notin> set (dec_str w)"
  using dec_digits [of "CHR '':''" "unat w"] by (auto simp: dec_str_def is_digit_def digit_val_def)

text \<open>The text of an endpoint determines it (the identifier of the server is not part of it), unless
  the transport contains a colon; the address may contain colons.\<close>

lemma endpoint_text_unique:
  assumes "endpoint_ToString a = endpoint_ToString b"
    "CHR '':'' \<notin> set (ep_transport a)" "CHR '':'' \<notin> set (ep_transport b)"
  shows "ep_transport a = ep_transport b \<and> ep_address a = ep_address b \<and> ep_port a = ep_port b"
proof -
  have eq: "ep_transport a @ CHR '':'' # (''//'' @ ep_address a @ '':'' @ dec_str (ep_port a)) =
      ep_transport b @ CHR '':'' # (''//'' @ ep_address b @ '':'' @ dec_str (ep_port b))"
    using assms(1) by (simp add: endpoint_ToString_def)
  then have t: "ep_transport a = ep_transport b"
    and r: "ep_address a @ CHR '':'' # dec_str (ep_port a) = ep_address b @ CHR '':'' # dec_str (ep_port b)"
    using sep_inj [OF assms(2,3)] by auto
  have "rev (dec_str (ep_port a)) @ CHR '':'' # rev (ep_address a) =
      rev (dec_str (ep_port b)) @ CHR '':'' # rev (ep_address b)"
    using arg_cong [OF r, of rev] by simp
  then have "rev (dec_str (ep_port a)) = rev (dec_str (ep_port b)) \<and> rev (ep_address a) = rev (ep_address b)"
    using sep_inj [of "CHR '':''" "rev (dec_str (ep_port a))" "rev (dec_str (ep_port b))"]
    by (simp add: dec_str_no_colon)
  then show ?thesis
    using t by (simp add: dec_str_inj)
qed

lemma endpoint_text_unique_witness:
  "endpoint_ToString \<lparr> ep_address = ''::1'', ep_port = 11811, ep_transport = ''udp'', ep_guid_prefix = [] \<rparr> \<noteq>
   endpoint_ToString \<lparr> ep_address = ''::1'', ep_port = 11812, ep_transport = ''udp'', ep_guid_prefix = [] \<rparr>"
proof
  assume "endpoint_ToString \<lparr> ep_address = ''::1'', ep_port = 11811, ep_transport = ''udp'', ep_guid_prefix = [] \<rparr> =
    endpoint_ToString \<lparr> ep_address = ''::1'', ep_port = 11812, ep_transport = ''udp'', ep_guid_prefix = [] \<rparr>"
  from endpoint_text_unique [OF this] show False by simp
qed

end
