(* ===== verification/Frames.thy ===== *)
theory Frames
  imports Serialization
begin

text \<open>
  binding/socket/inc/ProtobufSerializer.hpp: length-delimited frames around Protobuf messages.
  The message class is a parameter, given by the three calls the code makes: the size of the
  encoding, writing it into an array and parsing an array.  Reading through a pointer with a
  length beyond the buffer is the outcome \<open>OutOfBounds\<close>.
\<close>

record 'm protobuf =
  pb_byte_size :: "'m \<Rightarrow> nat"
  pb_to_array :: "'m \<Rightarrow> u8 list option"
  pb_from_array :: "u8 list \<Rightarrow> 'm option"

datatype 'a memory = InBounds 'a | OutOfBounds

subsection \<open>Serializer\<close>

text \<open>The state of the serializer is its buffer.  When the message cannot be written the buffer
  keeps the prefix and the zeros of \<open>resize\<close>.\<close>

definition net32 :: "u32 \<Rightarrow> u8 list" where
  "net32 v = int_bytes kBigEndian 4 v"

definition host32 :: "u8 list \<Rightarrow> u32" where
  "host32 bs = bytes_int kBigEndian 4 bs"

definition SerializeMessage :: "'m protobuf \<Rightarrow> 'm \<Rightarrow> u8 list \<Rightarrow> unit result \<times> u8 list" where
  "SerializeMessage pb m buf =
     (let messageSize = pb_byte_size pb m in
      if 2 ^ 32 - 1 < messageSize then (Err kMessageTooLarge, buf)
      else
        (let networkSize = net32 (of_nat messageSize) in
         case pb_to_array pb m of
           None \<Rightarrow> (Err kSerializationError, networkSize @ replicate messageSize 0)
         | Some bs \<Rightarrow> (Ok (), networkSize @ bs)))"

definition pb_GetData :: "u8 list \<Rightarrow> u8 list" where
  "pb_GetData buf = buf"

definition pb_serializer_reset :: "u8 list \<Rightarrow> u8 list" where
  "pb_serializer_reset buf = []"

text \<open>The overloads for basic types are not supported by this format.\<close>

definition pb_Serialize :: "ser_value \<Rightarrow> u8 list \<Rightarrow> unit result \<times> u8 list" where
  "pb_Serialize v buf = (Err kNotSupported, buf)"

subsection \<open>Deserializer\<close>

record pb_deserializer =
  pd_data :: "u8 list"
  pd_pos :: nat

definition pb_deserializer_new :: "u8 list \<Rightarrow> pb_deserializer" where
  "pb_deserializer_new bs = \<lparr> pd_data = bs, pd_pos = 0 \<rparr>"

text \<open>The sum \<open>4 + messageSize\<close> is computed in 32 bits, as in the code.\<close>

definition DeserializeMessage ::
  "'m protobuf \<Rightarrow> pb_deserializer \<Rightarrow> ('m result \<times> pb_deserializer) memory" where
  "DeserializeMessage pb d =
     (let avail = length (pd_data d) - pd_pos d in
      if avail < 4 then InBounds (Err kInvalidArgument, d)
      else
        (let messageSize = host32 (drop (pd_pos d) (pd_data d)) in
         if avail < unat (4 + messageSize) then InBounds (Err kInvalidArgument, d)
         else if avail - 4 < unat messageSize then OutOfBounds
         else
           (case pb_from_array pb (take (unat messageSize) (drop (pd_pos d + 4) (pd_data d))) of
              None \<Rightarrow> InBounds (Err kDeserializationError, d)
            | Some m \<Rightarrow> InBounds (Ok m, d\<lparr>pd_pos := pd_pos d + unat (4 + messageSize)\<rparr>))))"

definition pb_HasMoreData :: "pb_deserializer \<Rightarrow> bool" where
  "pb_HasMoreData d \<longleftrightarrow> pd_pos d < length (pd_data d)"

definition pb_deserializer_reset :: "pb_deserializer \<Rightarrow> pb_deserializer" where
  "pb_deserializer_reset d = d\<lparr>pd_pos := 0\<rparr>"

definition pb_Deserialize :: "ser_type \<Rightarrow> pb_deserializer \<Rightarrow> ser_value result \<times> pb_deserializer" where
  "pb_Deserialize t d = (Err kNotSupported, d)"

subsection \<open>Frames\<close>

text \<open>
  A message is well behaved when the parser inverts the writer on it, the announced size is the
  written one and the frame is shorter than \<open>2 ^ 32\<close> bytes.
\<close>

definition pb_message_ok :: "'m protobuf \<Rightarrow> 'm \<Rightarrow> bool" where
  "pb_message_ok pb m \<longleftrightarrow>
     (case pb_to_array pb m of
        None \<Rightarrow> False
      | Some bs \<Rightarrow> pb_byte_size pb m = length bs \<and> pb_from_array pb bs = Some m \<and> length bs < 2 ^ 32 - 4)"

definition frame :: "'m protobuf \<Rightarrow> 'm \<Rightarrow> u8 list" where
  "frame pb m = snd (SerializeMessage pb m [])"

lemma length_net32 [simp]: "length (net32 v) = 4"
  by (simp add: net32_def)

lemma host32_net32 [simp]: "host32 (net32 v @ bs) = v"
  unfolding host32_def net32_def by (rule bytes_int_bytes) simp_all

lemma host32_net32_only [simp]: "host32 (net32 v) = v"
  using host32_net32 [of v "[]"] by simp

lemma unat_of_nat32: "n < 2 ^ 32 \<Longrightarrow> unat (of_nat n :: u32) = n"
  by (simp add: unat_of_nat)

lemma unat_4_plus:
  fixes v :: u32
  shows "unat v < 2 ^ 32 - 4 \<Longrightarrow> unat (4 + v) = 4 + unat v"
  by (subst unat_word_ariths) simp

lemma frame_ok:
  assumes "pb_message_ok pb m"
  shows "\<exists>bs. pb_to_array pb m = Some bs \<and> pb_byte_size pb m = length bs \<and>
              pb_from_array pb bs = Some m \<and> length bs < 2 ^ 32 - 4 \<and>
              frame pb m = net32 (of_nat (length bs)) @ bs \<and>
              SerializeMessage pb m buf = (Ok (), frame pb m)"
  using assms
  by (auto simp: pb_message_ok_def frame_def SerializeMessage_def Let_def split: option.splits)

lemma DeserializeMessage_frame:
  assumes "pb_message_ok pb m" "pd_pos d \<le> length (pd_data d)"
    and "drop (pd_pos d) (pd_data d) = frame pb m @ rest"
  shows "DeserializeMessage pb d = InBounds (Ok m, d\<lparr>pd_pos := pd_pos d + length (frame pb m)\<rparr>)"
proof -
  obtain bs where bs: "pb_from_array pb bs = Some m" "length bs < 2 ^ 32 - 4"
      "frame pb m = net32 (of_nat (length bs)) @ bs"
    using frame_ok [OF assms(1)] by blast
  have len: "unat (of_nat (length bs) :: u32) = length bs"
    using bs(2) by (intro unat_of_nat32) simp
  have h: "host32 (drop (pd_pos d) (pd_data d)) = of_nat (length bs)"
    by (simp add: assms(3) bs(3))
  have sum: "unat (4 + of_nat (length bs) :: u32) = 4 + length bs"
    using unat_4_plus [of "of_nat (length bs)"] bs(2) by (simp add: len)
  have "length (drop (pd_pos d) (pd_data d)) = 4 + length bs + length rest"
    by (simp add: assms(3) bs(3))
  then have avail: "length (pd_data d) - pd_pos d = 4 + length bs + length rest"
    by simp
  have "drop (pd_pos d + 4) (pd_data d) = drop 4 (drop (pd_pos d) (pd_data d))"
    by (simp add: add.commute)
  then have payload: "take (length bs) (drop (pd_pos d + 4) (pd_data d)) = bs"
    by (simp add: assms(3) bs(3))
  show ?thesis
    by (simp add: DeserializeMessage_def Let_def avail h sum len payload bs add.assoc)
qed

text \<open>As a stream codec: an access outside the buffer would be an error of the codec.\<close>

definition read_frame :: "'m protobuf \<Rightarrow> unit \<Rightarrow> pb_deserializer \<Rightarrow> 'm result \<times> pb_deserializer" where
  "read_frame pb u d =
     (case DeserializeMessage pb d of InBounds p \<Rightarrow> p | OutOfBounds \<Rightarrow> (Err kInternal, d))"

interpretation pbc: stream_codec "frame pb" "\<lambda>_. ()" "pb_message_ok pb" "read_frame pb"
  "\<lambda>d. pd_pos d \<le> length (pd_data d)" "\<lambda>d. drop (pd_pos d) (pd_data d)" for pb
proof (unfold_locales, goal_cases)
  case (1 s v rest)
  have "length (drop (pd_pos s) (pd_data s)) = length (frame pb v) + length rest"
    by (simp add: 1(3))
  then have "pd_pos s + length (frame pb v) \<le> length (pd_data s)"
    using 1(1) by simp
  moreover have "drop (pd_pos s + length (frame pb v)) (pd_data s) = rest"
    using 1(3) by (metis append_eq_conv_conj drop_drop add.commute)
  ultimately show ?case
    using DeserializeMessage_frame [OF 1(2,1,3)] by (simp add: read_frame_def)
next
  case (2 bs)
  show ?case
    by (rule exI [of _ "pb_deserializer_new bs"]) (simp add: pb_deserializer_new_def)
qed

text \<open>C23: frames round-trip: any sequence of well-behaved messages, serialized one after the
  other into one buffer, is read back message by message, exactly and completely.\<close>

theorem frames_roundtrip:
  assumes "list_all (pb_message_ok pb) ms"
  shows "list_all (\<lambda>m. fst (SerializeMessage pb m []) = Ok ()) ms \<and>
         fst (dec_list (read_frame pb) (map (\<lambda>_. ()) ms)
                (pb_deserializer_new (concat (map (\<lambda>m. snd (SerializeMessage pb m [])) ms)))) = Ok ms \<and>
         \<not> pb_HasMoreData (snd (dec_list (read_frame pb) (map (\<lambda>_. ()) ms)
                (pb_deserializer_new (concat (map (\<lambda>m. snd (SerializeMessage pb m [])) ms)))))"
proof -
  have ok: "\<forall>m\<in>set ms. pb_message_ok pb m"
    using assms by (simp add: list_all_iff)
  have "fst (SerializeMessage pb m []) = Ok ()" if "pb_message_ok pb m" for m
    using frame_ok [OF that, of "[]"] by auto
  moreover obtain s where "dec_list (read_frame pb) (map (\<lambda>_. ()) ms)
      (pb_deserializer_new (concat (map (frame pb) ms))) = (Ok ms, s)" "drop (pd_pos s) (pd_data s) = []"
    using pbc.dec_list_enc [of "pb_deserializer_new (concat (map (frame pb) ms))" ms pb "[]"] ok
    by (auto simp: pb_deserializer_new_def)
  ultimately show ?thesis
    using ok by (auto simp: list_all_iff frame_def [symmetric] pb_HasMoreData_def)
qed

text \<open>the bounds check of DeserializeMessage is computed in 32 bits: the parser is run on
  memory beyond the buffer exactly for the length prefixes 0xFFFFFFFC to 0xFFFFFFFF, for which
  the sum wraps to at most three; for every smaller prefix all accesses are in bounds.\<close>

lemma length_prefix_wraps:
  assumes "pd_pos d \<le> length (pd_data d)" "length (pd_data d) < 2 ^ 32"
  shows "DeserializeMessage pb d = OutOfBounds \<longleftrightarrow>
           4 \<le> length (pd_data d) - pd_pos d \<and>
           2 ^ 32 - 4 \<le> unat (host32 (drop (pd_pos d) (pd_data d)))"
proof -
  let ?n = "host32 (drop (pd_pos d) (pd_data d))"
  let ?avail = "length (pd_data d) - pd_pos d"
  have small: "unat (4 + ?n) = 4 + unat ?n" if "unat ?n < 2 ^ 32 - 4"
    using unat_4_plus [OF that] .
  have big: "unat (4 + ?n) \<le> 3 \<and> ?avail - 4 < unat ?n" if "2 ^ 32 - 4 \<le> unat ?n"
  proof -
    have "unat ?n < 2 ^ 32"
      using unsigned_less [of ?n, where ?'a = nat] by simp
    moreover have "unat (4 + ?n) = (4 + unat ?n) mod 2 ^ 32"
      by (subst unat_word_ariths) simp
    ultimately have "unat (4 + ?n) = 4 + unat ?n - 2 ^ 32"
      using that by (simp add: mod_if)
    then have "unat (4 + ?n) \<le> 3"
      using \<open>unat ?n < 2 ^ 32\<close> by simp
    moreover have "?avail - 4 < 2 ^ 32 - 4"
      using assms(2) by (simp add: less_diff_conv2 le_less_trans)
    ultimately show ?thesis
      using that by (meson order_less_le_trans)
  qed
  show ?thesis
  proof (cases "unat ?n < 2 ^ 32 - 4")
    case True
    then show ?thesis
      using small by (auto simp: DeserializeMessage_def Let_def split: option.splits)
  next
    case False
    then show ?thesis
      using big by (auto simp: DeserializeMessage_def Let_def)
  qed
qed

text \<open>A codec for a concrete message class: one number, written as one byte per unit.\<close>

definition demo_pb :: "nat protobuf" where
  "demo_pb = \<lparr> pb_byte_size = (\<lambda>n. n), pb_to_array = (\<lambda>n. Some (replicate n 1)),
               pb_from_array = (\<lambda>bs. Some (length bs)) \<rparr>"

lemma demo_pb_ok: "n < 2 ^ 32 - 4 \<Longrightarrow> pb_message_ok demo_pb n"
  by (simp add: pb_message_ok_def demo_pb_def)

lemma frames_roundtrip_witness:
  "fst (dec_list (read_frame demo_pb) [(), ()]
      (pb_deserializer_new (concat (map (\<lambda>m. snd (SerializeMessage demo_pb m [])) [2, 3])))) = Ok [2, 3]"
  using frames_roundtrip [of demo_pb "[2, 3]"] by (simp add: demo_pb_ok)

lemma length_prefix_wraps_witness:
  "DeserializeMessage demo_pb (pb_deserializer_new [0xFF, 0xFF, 0xFF, 0xFD, 7]) = OutOfBounds"
proof -
  have "host32 [0xFF, 0xFF, 0xFF, 0xFD, 7] = 0xFFFFFFFD"
    by (simp add: host32_def bytes_int_def upt_rec)
  then show ?thesis
    using length_prefix_wraps [of "pb_deserializer_new [0xFF, 0xFF, 0xFF, 0xFD, 7]" demo_pb]
    by (simp add: pb_deserializer_new_def)
qed

end
