(* ===== verification/SocketManager.thy ===== *)
theory SocketManager
  imports Frames "HOL-Library.AList"
begin

text \<open>
  binding/socket/inc/SocketConnectionManager.hpp: the registry of Unix domain sockets of a
  process.  The answers of the system calls are a parameter; their effects on the descriptors of
  the process, the non-blocking flags and the socket files are the state \<open>socket_os\<close>.  No
  operation calls another one while it holds the mutex, so the mutex is not part of the state.
\<close>

datatype transport_mode = kStream | kDatagram | kSeqPacket

record socket_endpoint =
  ep_path :: string
  ep_mode :: transport_mode
  ep_max :: u32
  ep_sndbuf :: u32
  ep_rcvbuf :: u32
  ep_reuse :: bool
  ep_backlog :: u32

record socket_os =
  so_open :: "int set"
  so_bound :: "string set"
  so_nonblock :: "int set"

text \<open>What the kernel answers during one operation.\<close>

record sock_env =
  se_socket :: int
  se_sndbuf :: int
  se_rcvbuf :: int
  se_reuse :: int
  se_reuse_errno :: int
  se_bind :: int
  se_listen :: int
  se_getfl :: int
  se_connect :: int
  se_accept :: int
  se_errno :: int

record sock_manager =
  sm_initialized :: bool
  sm_sockets :: "(int \<times> socket_endpoint) list"

definition sock_manager_new :: sock_manager where
  "sock_manager_new = \<lparr> sm_initialized = False, sm_sockets = [] \<rparr>"

definition so_add :: "int \<Rightarrow> socket_os \<Rightarrow> socket_os" where
  "so_add fd os = os\<lparr>so_open := insert fd (so_open os)\<rparr>"

definition so_close :: "int \<Rightarrow> socket_os \<Rightarrow> socket_os" where
  "so_close fd os = os\<lparr>so_open := so_open os - {fd}, so_nonblock := so_nonblock os - {fd}\<rparr>"

definition so_unlink :: "string \<Rightarrow> socket_os \<Rightarrow> socket_os" where
  "so_unlink path os = os\<lparr>so_bound := so_bound os - {c_str path}\<rparr>"

text \<open>The address: at most 107 characters of the path in a zeroed array of 108.\<close>

definition sun_path :: "string \<Rightarrow> string" where
  "sun_path path = c_str (strncpy (replicate 108 (CHR 0x00)) path (108 - 1))"

definition so_bind :: "string \<Rightarrow> socket_os \<Rightarrow> socket_os" where
  "so_bind path os = os\<lparr>so_bound := insert (sun_path path) (so_bound os)\<rparr>"

abbreviation net_failure :: "sock_env \<Rightarrow> error_code" where
  "net_failure env \<equiv> make_error_code kNetworkBindingFailure (se_errno env)"

definition sm_initialize :: "sock_manager \<Rightarrow> unit result \<times> sock_manager" where
  "sm_initialize m =
     (if sm_initialized m then (Ok (), m) else (Ok (), m\<lparr>sm_initialized := True\<rparr>))"

fun close_all :: "(int \<times> socket_endpoint) list \<Rightarrow> socket_os \<Rightarrow> socket_os" where
  "close_all [] os = os"
| "close_all ((fd, ep) # xs) os =
     (let os1 = so_close fd os
      in close_all xs (if ep_path ep \<noteq> [] then so_unlink (ep_path ep) os1 else os1))"

definition sm_deinitialize :: "sock_manager \<Rightarrow> socket_os \<Rightarrow> sock_manager \<times> socket_os" where
  "sm_deinitialize m os =
     (if \<not> sm_initialized m then (m, os)
      else (m\<lparr>sm_sockets := [], sm_initialized := False\<rparr>, close_all (sm_sockets m) os))"

definition ENOPROTOOPT :: int where "ENOPROTOOPT = 92"
definition EINVAL :: int where "EINVAL = 22"
definition EAGAIN :: int where "EAGAIN = 11"
definition EWOULDBLOCK :: int where "EWOULDBLOCK = 11"

definition configureSocket :: "sock_env \<Rightarrow> socket_endpoint \<Rightarrow> unit result" where
  "configureSocket env ep =
     (if 0 < ep_sndbuf ep \<and> se_sndbuf env < 0 then Inl (net_failure env)
      else if 0 < ep_rcvbuf ep \<and> se_rcvbuf env < 0 then Inl (net_failure env)
      else if ep_reuse ep \<and> se_reuse env < 0 \<and>
              se_reuse_errno env \<noteq> ENOPROTOOPT \<and> se_reuse_errno env \<noteq> EINVAL
           then Inl (make_error_code kNetworkBindingFailure (se_reuse_errno env))
      else Ok ())"

definition register_socket :: "int \<Rightarrow> socket_endpoint \<Rightarrow> sock_manager \<Rightarrow> sock_manager" where
  "register_socket fd ep m = m\<lparr>sm_sockets := AList.update fd ep (sm_sockets m)\<rparr>"

definition createServerSocket ::
  "sock_env \<Rightarrow> socket_endpoint \<Rightarrow> sock_manager \<Rightarrow> socket_os \<Rightarrow> int result \<times> sock_manager \<times> socket_os" where
  "createServerSocket env ep m os =
     (if \<not> sm_initialized m then (Err kNotInitialized, m, os)
      else if se_socket env < 0 then (Inl (net_failure env), m, os)
      else
        (let sockfd = se_socket env;
             os1 = so_add sockfd os
         in case configureSocket env ep of
              Inl e \<Rightarrow> (Inl e, m, so_close sockfd os1)
            | Inr _ \<Rightarrow>
                (let os2 = so_unlink (ep_path ep) os1
                 in if se_bind env < 0 then (Inl (net_failure env), m, so_close sockfd os2)
                    else
                      (let os3 = so_bind (ep_path ep) os2
                       in if ep_mode ep = kStream \<or> ep_mode ep = kSeqPacket then
                            (if se_listen env < 0
                             then (Inl (net_failure env), m, so_unlink (ep_path ep) (so_close sockfd os3))
                             else
                               (let os4 = (if 0 \<le> se_getfl env
                                           then os3\<lparr>so_nonblock := insert sockfd (so_nonblock os3)\<rparr>
                                           else os3)
                                in (Ok sockfd, register_socket sockfd ep m, os4)))
                          else (Ok sockfd, register_socket sockfd ep m, os3)))))"

definition createClientSocket ::
  "sock_env \<Rightarrow> socket_endpoint \<Rightarrow> sock_manager \<Rightarrow> socket_os \<Rightarrow> int result \<times> sock_manager \<times> socket_os" where
  "createClientSocket env ep m os =
     (if \<not> sm_initialized m then (Err kNotInitialized, m, os)
      else if se_socket env < 0 then (Inl (net_failure env), m, os)
      else
        (let sockfd = se_socket env;
             os1 = so_add sockfd os
         in case configureSocket env ep of
              Inl e \<Rightarrow> (Inl e, m, so_close sockfd os1)
            | Inr _ \<Rightarrow>
                (if se_connect env < 0 then (Inl (net_failure env), m, so_close sockfd os1)
                 else (Ok sockfd, register_socket sockfd (ep\<lparr>ep_path := []\<rparr>) m, os1))))"

text \<open>An accepted socket inherits the configuration of a registered server socket.\<close>

definition acceptConnection ::
  "sock_env \<Rightarrow> int \<Rightarrow> sock_manager \<Rightarrow> socket_os \<Rightarrow> int result \<times> sock_manager \<times> socket_os" where
  "acceptConnection env serverFd m os =
     (let clientFd = se_accept env in
      if clientFd < 0 then
        (if se_errno env = EAGAIN \<or> se_errno env = EWOULDBLOCK
         then (Inl (make_error_code kTimeout (se_errno env)), m, os)
         else (Inl (net_failure env), m, os))
      else
        (case map_of (sm_sockets m) serverFd of
           None \<Rightarrow> (Ok clientFd, m, so_add clientFd os)
         | Some ep \<Rightarrow> (Ok clientFd, register_socket clientFd (ep\<lparr>ep_path := []\<rparr>) m, so_add clientFd os)))"

definition closeSocket :: "int \<Rightarrow> sock_manager \<Rightarrow> socket_os \<Rightarrow> sock_manager \<times> socket_os" where
  "closeSocket fd m os =
     (case map_of (sm_sockets m) fd of
        None \<Rightarrow> (m, so_close fd os)
      | Some ep \<Rightarrow>
          (m\<lparr>sm_sockets := AList.delete fd (sm_sockets m)\<rparr>,
           so_close fd (if ep_path ep \<noteq> [] then so_unlink (ep_path ep) os else os)))"

definition isSocketValid :: "int \<Rightarrow> sock_manager \<Rightarrow> bool" where
  "isSocketValid fd m \<longleftrightarrow> map_of (sm_sockets m) fd \<noteq> None"

subsection \<open>Sequences of operations\<close>

datatype sock_op =
    SoInitialize
  | SoDeinitialize
  | SoServer sock_env socket_endpoint
  | SoClient sock_env socket_endpoint
  | SoAccept sock_env int
  | SoClose int

fun sock_exec :: "sock_op \<Rightarrow> sock_manager \<times> socket_os \<Rightarrow> sock_manager \<times> socket_os" where
  "sock_exec SoInitialize (m, os) = (snd (sm_initialize m), os)"
| "sock_exec SoDeinitialize (m, os) = sm_deinitialize m os"
| "sock_exec (SoServer env ep) (m, os) = snd (createServerSocket env ep m os)"
| "sock_exec (SoClient env ep) (m, os) = snd (createClientSocket env ep m os)"
| "sock_exec (SoAccept env fd) (m, os) = snd (acceptConnection env fd m os)"
| "sock_exec (SoClose fd) (m, os) = closeSocket fd m os"

text \<open>
  What the kernel and the callers guarantee: a new descriptor is not open already, connections
  are accepted on a registered socket, and only registered sockets are closed.
\<close>

fun sock_op_ok :: "sock_op \<Rightarrow> sock_manager \<times> socket_os \<Rightarrow> bool" where
  "sock_op_ok (SoServer env ep) (m, os) \<longleftrightarrow> se_socket env \<notin> so_open os"
| "sock_op_ok (SoClient env ep) (m, os) \<longleftrightarrow> se_socket env \<notin> so_open os"
| "sock_op_ok (SoAccept env fd) (m, os) \<longleftrightarrow> se_accept env \<notin> so_open os \<and> isSocketValid fd m"
| "sock_op_ok (SoClose fd) (m, os) \<longleftrightarrow> isSocketValid fd m"
| "sock_op_ok op s \<longleftrightarrow> True"

fun sock_run :: "sock_op list \<Rightarrow> sock_manager \<times> socket_os \<Rightarrow> (sock_manager \<times> socket_os) option" where
  "sock_run [] s = Some s"
| "sock_run (x # xs) s = (if sock_op_ok x s then sock_run xs (sock_exec x s) else None)"

text \<open>The open descriptors are those of the rest of the process and the registered ones.\<close>

definition sock_inv :: "int set \<Rightarrow> sock_manager \<times> socket_os \<Rightarrow> bool" where
  "sock_inv base s \<longleftrightarrow>
     (case s of (m, os) \<Rightarrow>
        so_open os = base \<union> fst ` set (sm_sockets m) \<and>
        base \<inter> fst ` set (sm_sockets m) = {} \<and>
        distinct (map fst (sm_sockets m)) \<and>
        (\<not> sm_initialized m \<longrightarrow> sm_sockets m = []))"

lemma so_simps [simp]:
  "so_open (so_add fd os) = insert fd (so_open os)"
  "so_open (so_close fd os) = so_open os - {fd}"
  "so_open (so_unlink p os) = so_open os" "so_open (so_bind p os) = so_open os"
  "so_bound (so_add fd os) = so_bound os" "so_bound (so_close fd os) = so_bound os"
  "so_bound (so_unlink p os) = so_bound os - {c_str p}"
  "so_bound (so_bind p os) = insert (sun_path p) (so_bound os)"
  by (simp_all add: so_add_def so_close_def so_unlink_def so_bind_def)

lemma keys_update: "fst ` set (AList.update k v xs) = insert k (fst ` set xs)"
  by (simp add: dom_map_of_conv_image_fst [symmetric] update_conv')

lemma keys_delete: "fst ` set (AList.delete k xs) = fst ` set xs - {k}"
  by (simp add: dom_map_of_conv_image_fst [symmetric] delete_conv')

lemma keys_map_of: "map_of xs k = Some v \<Longrightarrow> k \<in> fst ` set xs"
  by (auto simp: dom_map_of_conv_image_fst [symmetric])

lemma register_socket_simps [simp]:
  "sm_initialized (register_socket fd ep m) = sm_initialized m"
  "sm_sockets (register_socket fd ep m) = AList.update fd ep (sm_sockets m)"
  by (simp_all add: register_socket_def)

text \<open>Every outcome of creating a socket either registers the new descriptor or closes it.\<close>

lemma created_socket:
  assumes "createServerSocket env ep m os = (r, m1, os1) \<or> createClientSocket env ep m os = (r, m1, os1)"
    and "se_socket env \<notin> so_open os"
  shows "(m1 = m \<and> so_open os1 = so_open os) \<or>
         (sm_initialized m \<and> (\<exists>ep'. m1 = register_socket (se_socket env) ep' m) \<and>
          so_open os1 = insert (se_socket env) (so_open os))"
  using assms
  by (auto simp: createServerSocket_def createClientSocket_def Let_def split: if_splits sum.splits)

lemma close_all_open: "so_open (close_all xs os) = so_open os - fst ` set xs"
proof (induction xs arbitrary: os)
  case (Cons x xs)
  obtain fd ep where x: "x = (fd, ep)"
    by (cases x)
  define os1 where "os1 = (if ep_path ep \<noteq> [] then so_unlink (ep_path ep) (so_close fd os) else so_close fd os)"
  have "so_open os1 = so_open os - {fd}"
    by (simp add: os1_def)
  moreover have "close_all (x # xs) os = close_all xs os1"
    by (simp add: x os1_def Let_def)
  ultimately show ?case
    using Cons.IH [of os1] by (auto simp: x)
qed simp

lemma inv_register:
  assumes "sock_inv base (m, os)" "fd \<notin> so_open os" "sm_initialized m"
    and "so_open os1 = insert fd (so_open os)"
  shows "sock_inv base (register_socket fd ep m, os1)"
  using assms by (auto simp: sock_inv_def keys_update distinct_update)

lemma inv_same: "sock_inv base (m, os) \<Longrightarrow> so_open os1 = so_open os \<Longrightarrow> sock_inv base (m, os1)"
  by (simp add: sock_inv_def)

lemma sock_exec_inv:
  assumes "sock_inv base (m, os)" "sock_op_ok x (m, os)"
  shows "sock_inv base (sock_exec x (m, os))"
proof (cases x)
  case SoInitialize
  then show ?thesis
    using assms(1) by (auto simp: sock_inv_def sm_initialize_def)
next
  case SoDeinitialize
  then show ?thesis
    using assms(1) by (auto simp: sock_inv_def sm_deinitialize_def close_all_open)
next
  case (SoServer env ep)
  obtain r m1 os1 where c: "createServerSocket env ep m os = (r, m1, os1)"
    by (cases "createServerSocket env ep m os")
  show ?thesis
    using created_socket [OF disjI1 [OF c]] SoServer assms c
    by (auto intro: inv_register inv_same)
next
  case (SoClient env ep)
  obtain r m1 os1 where c: "createClientSocket env ep m os = (r, m1, os1)"
    by (cases "createClientSocket env ep m os")
  show ?thesis
    using created_socket [OF disjI2 [OF c]] SoClient assms c
    by (auto intro: inv_register inv_same)
next
  case (SoAccept env fd)
  then obtain ep where ep: "map_of (sm_sockets m) fd = Some ep" and new: "se_accept env \<notin> so_open os"
    using assms(2) by (auto simp: isSocketValid_def)
  then have "sm_initialized m"
    using assms(1) by (auto simp: sock_inv_def)
  then have "sock_inv base (register_socket (se_accept env) (ep\<lparr>ep_path := []\<rparr>) m, so_add (se_accept env) os)"
    using inv_register [OF assms(1) new] by simp
  then show ?thesis
    using SoAccept assms(1) by (simp add: acceptConnection_def Let_def ep)
next
  case (SoClose fd)
  then obtain ep where ep: "map_of (sm_sockets m) fd = Some ep"
    using assms(2) by (auto simp: isSocketValid_def)
  have "sock_inv base (m\<lparr>sm_sockets := AList.delete fd (sm_sockets m)\<rparr>, so_close fd os')"
    if "so_open os' = so_open os" for os'
    using assms(1) keys_map_of [OF ep] that
    by (auto simp: sock_inv_def keys_delete distinct_delete)
  then show ?thesis
    by (simp add: SoClose closeSocket_def ep)
qed

lemma sock_run_inv: "sock_run xs s = Some s1 \<Longrightarrow> sock_inv base s \<Longrightarrow> sock_inv base s1"
proof (induction xs arbitrary: s)
  case (Cons x xs)
  then show ?case
    using sock_exec_inv [of base "fst s" "snd s" x] by (auto split: if_splits)
qed simp

definition demo_endpoint :: "string \<Rightarrow> socket_endpoint" where
  "demo_endpoint path = \<lparr> ep_path = path, ep_mode = kStream, ep_max = 65536, ep_sndbuf = 0,
     ep_rcvbuf = 0, ep_reuse = True, ep_backlog = 16 \<rparr>"

definition demo_sock_env :: "int \<Rightarrow> sock_env" where
  "demo_sock_env fd = \<lparr> se_socket = fd, se_sndbuf = 0, se_rcvbuf = 0, se_reuse = -1,
     se_reuse_errno = 22, se_bind = 0, se_listen = 0, se_getfl = 2, se_connect = 0,
     se_accept = fd, se_errno = 0 \<rparr>"

definition demo_os :: socket_os where
  "demo_os = \<lparr> so_open = {0, 1, 2}, so_bound = {}, so_nonblock = {} \<rparr>"

lemmas sock_op_defs = sm_initialize_def createServerSocket_def createClientSocket_def
  acceptConnection_def closeSocket_def configureSocket_def register_socket_def isSocketValid_def
  so_add_def so_close_def so_unlink_def so_bind_def Let_def

lemma demo_sock_run:
  "\<exists>m os. sock_run [SoInitialize, SoServer (demo_sock_env 3) (demo_endpoint ''/s''),
      SoAccept (demo_sock_env 4) 3, SoClose 3] (sock_manager_new, demo_os) = Some (m, os) \<and>
      fst ` set (sm_sockets m) = {4}"
  by (simp add: sock_op_defs demo_sock_env_def demo_endpoint_def demo_os_def sock_manager_new_def
      EINVAL_def ENOPROTOOPT_def)


text \<open>The socket file: bind creates it under at most 107 characters of the path, closing removes
  the file with the full path.  A longer path leaves the truncated file behind.\<close>

lemma sun_path_eq: "sun_path path = take 107 (c_str path)"
proof -
  have "strncpy (replicate 108 (CHR 0x00)) path 107 =
      take 107 (c_str path) @ replicate (Suc (107 - length (take 107 (c_str path)))) (CHR 0x00)"
    by (simp add: strncpy_def Let_def replicate_append_same)
  then have "sun_path path = c_str (take 107 (c_str path) @
      replicate (Suc (107 - length (take 107 (c_str path)))) (CHR 0x00))"
    by (simp add: sun_path_def)
  also have "\<dots> = c_str (take 107 (c_str path))"
    unfolding c_str_def by (rule takeWhile_append_replicate_stop) simp
  finally show ?thesis
    by (simp add: c_str_take)
qed

lemma server_file_removed_iff:
  assumes "createServerSocket env ep m os = (Ok fd, m1, os1)" "so_bound os = {}" "ep_path ep \<noteq> []"
  shows "so_bound (snd (closeSocket fd m1 os1)) = {} \<longleftrightarrow> length (c_str (ep_path ep)) \<le> 107"
proof -
  have c: "m1 = register_socket fd ep m \<and> so_bound os1 = {take 107 (c_str (ep_path ep))}"
    using assms(1,2)
    by (auto simp: createServerSocket_def Let_def sun_path_eq split: if_splits sum.splits)
  then have "so_bound (snd (closeSocket fd m1 os1)) =
      {take 107 (c_str (ep_path ep))} - {c_str (ep_path ep)}"
    using assms(3) by (simp add: closeSocket_def update_conv')
  then show ?thesis
    by (auto dest: arg_cong [of _ _ length])
qed

end
