(* ===== verification/SocketIO.thy ===== *)
theory SocketIO
  imports SocketManager
begin

text \<open>
  binding/socket/inc/SocketConnectionManager.hpp, the transfer operations on a stream socket, and
  the loops around them that the method, event and field bindings share.  A peer is a list of
  what the kernel answers to the following calls; a \<open>recv\<close> takes what fits and leaves the rest
  for the next call, and after the last entry the peer has closed the connection.
\<close>

definition POLLIN :: u16 where "POLLIN = 1"
definition POLLOUT :: u16 where "POLLOUT = 4"
definition POLLERR :: u16 where "POLLERR = 8"
definition POLLHUP :: u16 where "POLLHUP = 16"
definition POLLNVAL :: u16 where "POLLNVAL = 32"

lemmas poll_flags = POLLIN_def POLLOUT_def POLLERR_def POLLHUP_def POLLNVAL_def

text \<open>The result of \<open>poll\<close>: its return value, the events and the error number.\<close>

record poll_answer =
  po_ret :: int
  po_revents :: u16
  po_errno :: int

definition waitForSocket :: "bool \<Rightarrow> poll_answer \<Rightarrow> unit result" where
  "waitForSocket waitWrite a =
     (if po_ret a < 0 then Inl (make_error_code kNetworkBindingFailure (po_errno a))
      else if po_ret a = 0 then Err kTimeout
      else if waitWrite then
        (if po_revents a AND (POLLERR OR POLLHUP OR POLLNVAL) \<noteq> 0 then Err kNetworkBindingFailure
         else if po_revents a AND POLLOUT = 0 then Err kNetworkBindingFailure
         else Ok ())
      else
        (if po_revents a AND (POLLERR OR POLLNVAL) \<noteq> 0 then Err kNetworkBindingFailure
         else if po_revents a AND (POLLIN OR POLLHUP) = 0 then Err kNetworkBindingFailure
         else Ok ()))"

text \<open>A call of \<open>recv\<close>: the answer of \<open>poll\<close> before it, its error number and the bytes that have
  arrived (\<open>None\<close> for an error).  A call of \<open>send\<close>: how many bytes the kernel takes.\<close>

record in_call = poll_answer +
  in_errno :: int
  in_data :: "u8 list option"

record out_call = poll_answer +
  out_errno :: int
  out_count :: "nat option"

definition sm_receive :: "u32 \<Rightarrow> nat \<Rightarrow> in_call list \<Rightarrow> u8 list result \<times> in_call list" where
  "sm_receive timeoutMs maxLength cs =
     (case cs of
        [] \<Rightarrow> (Ok [], [])
      | c # cs' \<Rightarrow>
          (case (if 0 < timeoutMs then waitForSocket False (poll_answer.truncate c) else Ok ()) of
             Inl e \<Rightarrow> (Inl e, cs')
           | Inr _ \<Rightarrow>
               (case in_data c of
                  None \<Rightarrow> (Inl (make_error_code kNetworkBindingFailure (in_errno c)), cs')
                | Some bs \<Rightarrow>
                    if length bs \<le> maxLength then (Ok bs, cs')
                    else (Ok (take maxLength bs), c\<lparr>in_data := Some (drop maxLength bs)\<rparr> # cs'))))"

text \<open>The number of bytes taken; the caller's data up to it are on the wire.\<close>

definition sm_send :: "u32 \<Rightarrow> u8 list \<Rightarrow> out_call list \<Rightarrow> nat result \<times> out_call list" where
  "sm_send timeoutMs data cs =
     (case cs of
        [] \<Rightarrow> (Ok (length data), [])
      | c # cs' \<Rightarrow>
          (case (if 0 < timeoutMs then waitForSocket True (poll_answer.truncate c) else Ok ()) of
             Inl e \<Rightarrow> (Inl e, cs')
           | Inr _ \<Rightarrow>
               (case out_count c of
                  None \<Rightarrow> (Inl (make_error_code kNetworkBindingFailure (out_errno c)), cs')
                | Some k \<Rightarrow> (Ok (min k (length data)), cs'))))"

subsection \<open>The loops\<close>

text \<open>Read exactly \<open>n\<close> bytes; zero bytes mean that the peer has closed.\<close>

function recv_exact :: "u32 \<Rightarrow> nat \<Rightarrow> in_call list \<Rightarrow> u8 list result \<times> in_call list" where
  "recv_exact t n cs =
     (if n = 0 then (Ok [], cs)
      else
        (case sm_receive t n cs of
           (Inl e, cs1) \<Rightarrow> (Inl e, cs1)
         | (Inr bs, cs1) \<Rightarrow>
             if bs = [] then (Err kNetworkBindingFailure, cs1)
             else
               (case recv_exact t (n - length bs) cs1 of
                  (Inl e, cs2) \<Rightarrow> (Inl e, cs2)
                | (Inr rest, cs2) \<Rightarrow> (Ok (bs @ rest), cs2))))"
  by pat_completeness auto
termination
  by (relation "measure (\<lambda>(t, n, cs). n)") auto

declare recv_exact.simps [simp del]

text \<open>Send all bytes, and what has gone out on the wire.\<close>

function send_all :: "u32 \<Rightarrow> u8 list \<Rightarrow> out_call list \<Rightarrow> unit result \<times> u8 list \<times> out_call list" where
  "send_all t data cs =
     (if data = [] then (Ok (), [], cs)
      else
        (case sm_send t data cs of
           (Inl e, cs1) \<Rightarrow> (Inl e, [], cs1)
         | (Inr k, cs1) \<Rightarrow>
             if k = 0 then (Err kNetworkBindingFailure, [], cs1)
             else
               (let (r, w, cs2) = send_all t (drop k data) cs1
                in (r, take k data @ w, cs2))))"
  by pat_completeness auto
termination
  by (relation "measure (\<lambda>(t, data, cs). length data)") auto

declare send_all.simps [simp del]

subsection \<open>Peers that behave\<close>

text \<open>
  The calls deliver the bytes, in chunks of any positive size and with no error in between;
  respectively accept at least one byte each.
\<close>

definition in_good :: "in_call \<Rightarrow> bool" where
  "in_good c \<longleftrightarrow> waitForSocket False (poll_answer.truncate c) = Ok () \<and>
     (case in_data c of None \<Rightarrow> False | Some bs \<Rightarrow> bs \<noteq> [])"

definition in_bytes :: "in_call \<Rightarrow> u8 list" where
  "in_bytes c = (case in_data c of None \<Rightarrow> [] | Some bs \<Rightarrow> bs)"

definition feeds :: "in_call list \<Rightarrow> u8 list \<Rightarrow> bool" where
  "feeds cs bs \<longleftrightarrow> list_all in_good cs \<and> concat (map in_bytes cs) = bs"

definition out_good :: "out_call \<Rightarrow> bool" where
  "out_good c \<longleftrightarrow> waitForSocket True (poll_answer.truncate c) = Ok () \<and>
     (case out_count c of None \<Rightarrow> False | Some k \<Rightarrow> 0 < k)"

definition sends :: "out_call list \<Rightarrow> bool" where
  "sends cs \<longleftrightarrow> list_all out_good cs"

lemma feeds_Nil [simp]: "feeds [] bs \<longleftrightarrow> bs = []"
  by (auto simp: feeds_def)

lemma truncate_in_data [simp]:
  "poll_answer.truncate (c\<lparr>in_data := x\<rparr>) = poll_answer.truncate c"
  by (simp add: poll_answer.truncate_def)

lemma receive_feeds:
  assumes "feeds cs bs" "bs \<noteq> []" "0 < n"
  shows "\<exists>k cs'. 0 < k \<and> k \<le> n \<and> k \<le> length bs \<and> sm_receive t n cs = (Ok (take k bs), cs') \<and>
           feeds cs' (drop k bs)"
proof (cases cs)
  case Nil
  then show ?thesis
    using assms by simp
next
  case (Cons c cs1)
  obtain d where d: "in_data c = Some d" "d \<noteq> []" "waitForSocket False (poll_answer.truncate c) = Ok ()"
    using assms(1) Cons by (auto simp: feeds_def in_good_def split: option.splits)
  have rest: "feeds cs1 (concat (map in_bytes cs1))" "bs = d @ concat (map in_bytes cs1)"
    using assms(1) Cons d by (auto simp: feeds_def in_bytes_def)
  show ?thesis
  proof (cases "length d \<le> n")
    case True
    then show ?thesis
      using d rest Cons by (intro exI [of _ "length d"]) (auto simp: sm_receive_def)
  next
    case False
    have "feeds (c\<lparr>in_data := Some (drop n d)\<rparr> # cs1) (drop n bs)"
      using False d rest by (auto simp: feeds_def in_good_def in_bytes_def)
    then show ?thesis
      using False assms(3) d rest Cons by (intro exI [of _ n]) (auto simp: sm_receive_def)
  qed
qed

lemma recv_exact_feeds:
  assumes "feeds cs bs" "n \<le> length bs"
  shows "\<exists>cs'. recv_exact t n cs = (Ok (take n bs), cs') \<and> feeds cs' (drop n bs)"
  using assms
proof (induction n arbitrary: cs bs rule: less_induct)
  case (less n)
  show ?case
  proof (cases "n = 0")
    case True
    then show ?thesis
      using less.prems by (simp add: recv_exact.simps [of t 0])
  next
    case False
    then have "bs \<noteq> []" "0 < n"
      using less.prems(2) by auto
    then obtain k cs1 where k: "0 < k" "k \<le> n" "sm_receive t n cs = (Ok (take k bs), cs1)"
        "feeds cs1 (drop k bs)"
      using receive_feeds [OF less.prems(1), of n t] by blast
    have ne: "take k bs \<noteq> []" "length (take k bs) = k"
      using k False less.prems(2) by auto
    have "n - k < n" "n - k \<le> length (drop k bs)"
      using k(1) False less.prems(2) by auto
    then obtain cs2 where cs2: "recv_exact t (n - k) cs1 = (Ok (take (n - k) (drop k bs)), cs2)"
        "feeds cs2 (drop (n - k) (drop k bs))"
      using less.IH [of "n - k" cs1 "drop k bs"] k(4) by blast
    have "take k bs @ take (n - k) (drop k bs) = take n bs" "drop (n - k) (drop k bs) = drop n bs"
      using k(2) by (simp_all add: take_add [symmetric])
    then show ?thesis
      using False k(3) ne cs2 by (subst recv_exact.simps) simp
  qed
qed

text \<open>When the peer closes early the read fails, for a stream of any chunks.\<close>

lemma recv_exact_short:
  assumes "feeds cs bs" "length bs < n"
  shows "recv_exact t n cs = (Err kNetworkBindingFailure, [])"
  using assms
proof (induction n arbitrary: cs bs rule: less_induct)
  case (less n)
  show ?case
  proof (cases "bs = []")
    case True
    then have "cs = []"
      using less.prems(1) by (cases cs) (auto simp: feeds_def in_good_def in_bytes_def split: option.splits)
    then show ?thesis
      using less.prems by (subst recv_exact.simps) (simp add: sm_receive_def)
  next
    case False
    then obtain k cs1 where k: "0 < k" "k \<le> length bs" "sm_receive t n cs = (Ok (take k bs), cs1)"
        "feeds cs1 (drop k bs)"
      using receive_feeds [OF less.prems(1), of n t] less.prems(2) by auto
    have "recv_exact t (n - k) cs1 = (Err kNetworkBindingFailure, [])"
      using less.IH [of "n - k" cs1 "drop k bs"] k less.prems(2) by auto
    then show ?thesis
      using False k less.prems(2) by (subst recv_exact.simps) (simp add: min_absorb2)
  qed
qed

lemma send_sends:
  assumes "sends cs" "data \<noteq> []"
  shows "\<exists>k cs'. sm_send t data cs = (Ok k, cs') \<and> 0 < k \<and> sends cs'"
proof (cases cs)
  case Nil
  then show ?thesis
    using assms by (simp add: sm_send_def)
next
  case (Cons c cs1)
  then obtain k where "out_count c = Some k" "0 < k" "waitForSocket True (poll_answer.truncate c) = Ok ()"
    "sends cs1"
    using assms(1) by (auto simp: sends_def out_good_def split: option.splits)
  then show ?thesis
    using Cons assms(2) by (simp add: sm_send_def)
qed

lemma send_all_sends:
  "sends cs \<Longrightarrow> \<exists>cs'. send_all t data cs = (Ok (), data, cs') \<and> sends cs'"
proof (induction "length data" arbitrary: data cs rule: less_induct)
  case less
  show ?case
  proof (cases "data = []")
    case True
    then show ?thesis
      using less.prems by (subst send_all.simps) simp
  next
    case False
    obtain k cs1 where k: "0 < k" "sm_send t data cs = (Ok k, cs1)" "sends cs1"
      using send_sends [OF less.prems False] by blast
    obtain cs2 where "send_all t (drop k data) cs1 = (Ok (), drop k data, cs2)" "sends cs2"
      using less.hyps [of "drop k data" cs1] k False by auto
    then show ?thesis
      using False k by (subst send_all.simps) simp
  qed
qed

subsection \<open>Reading one frame of a stream\<close>

text \<open>
  The event subscriber, the field server and the field client read a frame with the same
  statements: one \<open>recv\<close> of the length, a check of it and a loop for the rest.  They differ in
  what they do with each outcome.
\<close>

datatype frame_read =
    RecvError error_code
  | Closed
  | ShortPrefix
  | BadLength
  | Incomplete
  | FrameRead "u8 list"

definition MAX_FRAME :: u32 where
  "MAX_FRAME = push_bit 20 10"

definition recv_frame :: "u32 \<Rightarrow> in_call list \<Rightarrow> frame_read \<times> in_call list" where
  "recv_frame t ins =
     (case sm_receive t 4 ins of
        (Inl e, ins1) \<Rightarrow> (RecvError e, ins1)
      | (Inr netlen, ins1) \<Rightarrow>
          if netlen = [] then (Closed, ins1)
          else if length netlen \<noteq> 4 then (ShortPrefix, ins1)
          else
            (let len = host32 netlen in
             if len = 0 \<or> MAX_FRAME < len then (BadLength, ins1)
             else
               (case recv_exact t (unat len) ins1 of
                  (Inl e, ins2) \<Rightarrow> (Incomplete, ins2)
                | (Inr body, ins2) \<Rightarrow> (FrameRead (netlen @ body), ins2))))"

text \<open>What is left to arrive; every attempt to read a frame makes it smaller.\<close>

definition script_size :: "in_call list \<Rightarrow> nat" where
  "script_size cs = sum_list (map (\<lambda>c. Suc (length (in_bytes c))) cs)"

lemma receive_size:
  assumes "sm_receive t n cs = (r, cs1)"
  shows "script_size cs1 \<le> script_size cs"
    and "cs \<noteq> [] \<Longrightarrow> 0 < n \<Longrightarrow> script_size cs1 < script_size cs"
  using assms by (auto simp: sm_receive_def script_size_def in_bytes_def split: list.splits sum.splits
      option.splits if_splits)

lemma recv_exact_size: "script_size (snd (recv_exact t n cs)) \<le> script_size cs"
proof (induction n arbitrary: cs rule: less_induct)
  case (less n)
  show ?case
  proof (cases "sm_receive t n cs")
    case (Pair r cs1)
    show ?thesis
    proof (cases r)
      case (Inl e)
      then show ?thesis
        using Pair receive_size(1) [OF Pair] by (subst recv_exact.simps) simp
    next
      case (Inr bs)
      have "script_size (snd (recv_exact t (n - length bs) cs1)) \<le> script_size cs1" if "bs \<noteq> []" "n \<noteq> 0"
        using less.IH [of "n - length bs" cs1] that by simp
      then show ?thesis
        using Inr Pair receive_size(1) [OF Pair]
        by (subst recv_exact.simps) (force split: prod.splits sum.splits)
    qed
  qed
qed

lemma recv_frame_size:
  assumes "recv_frame t cs = (r, cs1)" "cs \<noteq> []"
  shows "script_size cs1 < script_size cs"
proof (cases "sm_receive t 4 cs")
  case (Pair q cs2)
  have "script_size cs2 < script_size cs"
    using receive_size(2) [OF Pair assms(2)] by simp
  moreover have "script_size cs1 \<le> script_size cs2"
    using assms(1) Pair recv_exact_size [of t _ cs2]
    by (auto simp: recv_frame_def Let_def split: sum.splits if_splits prod.splits)
      (metis snd_conv)+
  ultimately show ?thesis
    by simp
qed

text \<open>The calls that are left after \<open>n\<close> bytes have been read.\<close>

fun drop_bytes :: "nat \<Rightarrow> in_call list \<Rightarrow> in_call list" where
  "drop_bytes n [] = []"
| "drop_bytes n (c # cs) =
     (if n = 0 then c # cs
      else if length (in_bytes c) \<le> n then drop_bytes (n - length (in_bytes c)) cs
      else c\<lparr>in_data := Some (drop n (in_bytes c))\<rparr> # cs)"

lemma drop_bytes_0 [simp]: "drop_bytes 0 cs = cs"
  by (cases cs) simp_all

lemma in_bytes_update [simp]: "in_bytes (c\<lparr>in_data := Some b\<rparr>) = b"
  by (simp add: in_bytes_def)

lemma drop_bytes_add: "drop_bytes m (drop_bytes n cs) = drop_bytes (n + m) cs"
  by (induction n cs rule: drop_bytes.induct) (auto simp: add.commute)

lemma recv_exact_drop:
  assumes "feeds cs bs" "n \<le> length bs"
  shows "recv_exact t n cs = (Ok (take n bs), drop_bytes n cs)"
  using assms
proof (induction cs arbitrary: n bs)
  case Nil
  then show ?case
    by (simp add: recv_exact.simps [of t 0])
next
  case (Cons c cs)
  obtain d where d: "in_data c = Some d" "d \<noteq> []" "waitForSocket False (poll_answer.truncate c) = Ok ()"
    using Cons.prems(1) by (auto simp: feeds_def in_good_def split: option.splits)
  have rest: "feeds cs (concat (map in_bytes cs))" "bs = d @ concat (map in_bytes cs)" "in_bytes c = d"
    using Cons.prems(1) d by (auto simp: feeds_def in_bytes_def)
  show ?case
  proof (cases "n = 0 \<or> n < length d")
    case True
    then show ?thesis
      using d rest by (subst recv_exact.simps) (auto simp: sm_receive_def recv_exact.simps [of t 0])
  next
    case False
    then have "recv_exact t (n - length d) cs =
        (Ok (take (n - length d) (concat (map in_bytes cs))), drop_bytes (n - length d) cs)"
      using Cons.IH [OF rest(1), of "n - length d"] Cons.prems(2) rest(2) by simp
    then show ?thesis
      using False d rest by (subst recv_exact.simps) (auto simp: sm_receive_def)
  qed
qed

lemma feeds_drop:
  assumes "feeds cs bs" "n \<le> length bs"
  shows "feeds (drop_bytes n cs) (drop n bs)"
  using recv_exact_feeds [OF assms, of 0] recv_exact_drop [OF assms, of 0] by auto

text \<open>
  The frames arrive with no length prefix cut in two: whenever a frame is due, the bytes of the
  next call include its four bytes of length.  Otherwise the chunks are arbitrary, and may also
  join frames.
\<close>

fun aligned :: "u8 list list \<Rightarrow> in_call list \<Rightarrow> bool" where
  "aligned [] cs \<longleftrightarrow> cs = []"
| "aligned (f # fs) cs \<longleftrightarrow>
     cs \<noteq> [] \<and> 4 \<le> length (in_bytes (hd cs)) \<and> aligned fs (drop_bytes (length f) cs)"

lemma receive_prefix:
  assumes "feeds cs (net32 v @ bs)" "cs \<noteq> []" "4 \<le> length (in_bytes (hd cs))"
  shows "sm_receive t 4 cs = (Ok (net32 v), drop_bytes 4 cs)" "feeds (drop_bytes 4 cs) bs"
proof -
  obtain c cs1 where c: "cs = c # cs1"
    using assms(2) by (cases cs) auto
  obtain d where d: "in_data c = Some d" "waitForSocket False (poll_answer.truncate c) = Ok ()" "in_bytes c = d"
    using assms(1) c by (auto simp: feeds_def in_good_def in_bytes_def split: option.splits)
  have all: "net32 v @ bs = d @ concat (map in_bytes cs1)"
    using assms(1) c d by (simp add: feeds_def)
  have "take 4 (net32 v @ bs) = take 4 (d @ concat (map in_bytes cs1))"
    by (simp only: all)
  then have "take 4 d = net32 v"
    using assms(3) c d(3) by simp
  then show "sm_receive t 4 cs = (Ok (net32 v), drop_bytes 4 cs)"
    using assms(3) c d by (auto simp: sm_receive_def)
  show "feeds (drop_bytes 4 cs) bs"
    using feeds_drop [OF assms(1), of 4] by simp
qed

lemma unat_MAX_FRAME: "unat MAX_FRAME = 10485760"
  by (simp add: MAX_FRAME_def push_bit_eq_mult)

lemma recv_frame_aligned:
  assumes "feeds cs (net32 (of_nat (length body)) @ body @ bs)" "cs \<noteq> []" "4 \<le> length (in_bytes (hd cs))"
    and "length body \<le> 10485760"
  shows "recv_frame t cs =
     (if body = [] then (BadLength, drop_bytes 4 cs)
      else (FrameRead (net32 (of_nat (length body)) @ body), drop_bytes (4 + length body) cs))"
    and "feeds (drop_bytes (4 + length body) cs) bs"
proof -
  note p = receive_prefix [OF assms(1-3)]
  have n: "unat (of_nat (length body) :: u32) = length body"
    using assms(4) by (intro unat_of_nat32) simp
  have z: "(of_nat (length body) :: u32) = 0 \<longleftrightarrow> body = []"
    by (metis n length_0_conv unat_0 unat_eq_zero)
  have m: "\<not> MAX_FRAME < of_nat (length body)"
    using assms(4) by (simp add: word_less_nat_alt n unat_MAX_FRAME)
  have "recv_exact t (length body) (drop_bytes 4 cs) = (Ok body, drop_bytes (4 + length body) cs)"
    using recv_exact_drop [OF p(2), of "length body" t] by (simp add: drop_bytes_add)
  moreover have "net32 v \<noteq> []" for v
    using length_net32 [of v] by (metis list.size(3) zero_neq_numeral)
  ultimately show "recv_frame t cs =
     (if body = [] then (BadLength, drop_bytes 4 cs)
      else (FrameRead (net32 (of_nat (length body)) @ body), drop_bytes (4 + length body) cs))"
    using p(1) [of t] m by (simp add: recv_frame_def n z Let_def)
  show "feeds (drop_bytes (4 + length body) cs) bs"
    using feeds_drop [OF assms(1), of "4 + length body"] by simp
qed

text \<open>Concrete chunks and frames.\<close>

definition demo_chunk :: "u8 list \<Rightarrow> in_call" where
  "demo_chunk bs = \<lparr> po_ret = 1, po_revents = 1, po_errno = 0, in_errno = 0, in_data = Some bs \<rparr>"

lemma demo_chunk_simps [simp]:
  "in_bytes (demo_chunk bs) = bs" "in_good (demo_chunk bs) \<longleftrightarrow> bs \<noteq> []"
  by (auto simp: in_bytes_def in_good_def demo_chunk_def waitForSocket_def poll_answer.truncate_def poll_flags)

lemma demo_frames:
  "frame demo_pb 2 = [0, 0, 0, 2, 1, 1]" "frame demo_pb 0 = [0, 0, 0, 0]"
proof -
  have "replicate 2 (1 :: u8) = [1, 1]"
    by (simp add: numeral_2_eq_2)
  then show "frame demo_pb 2 = [0, 0, 0, 2, 1, 1]"
    by (simp add: frame_def SerializeMessage_def demo_pb_def net32_def int_bytes_def upt_rec Let_def)
  show "frame demo_pb 0 = [0, 0, 0, 0]"
    by (simp add: frame_def SerializeMessage_def demo_pb_def net32_def int_bytes_def upt_rec Let_def)
qed

end
