(* ===== verification/SocketMethod.thy ===== *)
theory SocketMethod
  imports SocketIO
begin

text \<open>
  binding/socket/inc/SocketMethodBinding.hpp: a method call over a stream socket.  The request is
  one length-delimited frame; the reply is an envelope of a length, a status and the payload.  The
  caller and the client handler of the responder are functions of what the kernel delivers to
  them and return the bytes they put on the wire.
\<close>

text \<open>An error of the caller; a status of the server that is no enumerator is kept as it is.\<close>

datatype call_error = Known error_code | Raw int

type_synonym 'r call_result = "call_error + 'r"

subsection \<open>The caller\<close>

definition default_caller_endpoint :: "string \<Rightarrow> socket_endpoint" where
  "default_caller_endpoint path = \<lparr> ep_path = path, ep_mode = kStream, ep_max = 1048576,
     ep_sndbuf = 0, ep_rcvbuf = 0, ep_reuse = False, ep_backlog = 0 \<rparr>"

definition call_send ::
  "'q protobuf \<Rightarrow> u32 \<Rightarrow> 'q \<Rightarrow> out_call list \<Rightarrow> unit result \<times> u8 list" where
  "call_send pb t request outs =
     (case SerializeMessage pb request [] of
        (Inl e, _) \<Rightarrow> (Inl e, [])
      | (Inr _, sendData) \<Rightarrow> (let (r, wire, _) = send_all t sendData outs in (r, wire)))"

text \<open>\<open>static_cast<ComErrc>(status)\<close> of a signed 32-bit status.\<close>

definition status_error :: "u32 \<Rightarrow> call_error" where
  "status_error status =
     (case errc_of_code (sint status) of
        Some c \<Rightarrow> Known (make_error_code c 0)
      | None \<Rightarrow> Raw (sint status))"

definition call_receive ::
  "'r protobuf \<Rightarrow> u32 \<Rightarrow> u32 \<Rightarrow> in_call list \<Rightarrow> 'r call_result memory" where
  "call_receive pb maxMessageSize t ins =
     (case recv_exact t 4 ins of
        (Inl e, _) \<Rightarrow> InBounds (Inl (Known e))
      | (Inr lenBytes, ins1) \<Rightarrow>
          (let envelopeLen = host32 lenBytes in
           if envelopeLen < 4 \<or> maxMessageSize + 4 < envelopeLen
           then InBounds (Inl (Known (make_error_code kMessageTooLarge 0)))
           else
             (case recv_exact t (unat envelopeLen) ins1 of
                (Inl e, _) \<Rightarrow> InBounds (Inl (Known e))
              | (Inr envelope, _) \<Rightarrow>
                  (let status = host32 (take 4 envelope) in
                   if status \<noteq> 0 then InBounds (Inl (status_error status))
                   else
                     (let payload = drop 4 envelope;
                          frameBuf = net32 (envelopeLen - 4) @ payload
                      in case DeserializeMessage pb (pb_deserializer_new frameBuf) of
                           OutOfBounds \<Rightarrow> OutOfBounds
                         | InBounds (Inl e, _) \<Rightarrow> InBounds (Inl (Known e))
                         | InBounds (Inr r, _) \<Rightarrow> InBounds (Inr r))))))"

text \<open>The whole call; the socket is closed on every path after it was created.\<close>

definition rpc_call ::
  "'q protobuf \<Rightarrow> 'r protobuf \<Rightarrow> socket_endpoint \<Rightarrow> sock_env \<Rightarrow> u32 \<Rightarrow> 'q \<Rightarrow>
   out_call list \<Rightarrow> in_call list \<Rightarrow> sock_manager \<Rightarrow> socket_os \<Rightarrow>
   'r call_result memory \<times> u8 list \<times> sock_manager \<times> socket_os" where
  "rpc_call pbq pbr ep env t request outs ins m os =
     (case sm_initialize m of
        (Inl e, m1) \<Rightarrow> (InBounds (Inl (Known e)), [], m1, os)
      | (Inr _, m1) \<Rightarrow>
          (case createClientSocket env ep m1 os of
             (Inl e, m2, os2) \<Rightarrow> (InBounds (Inl (Known e)), [], m2, os2)
           | (Inr clientFd, m2, os2) \<Rightarrow>
               (let (m3, os3) = closeSocket clientFd m2 os2
                in case call_send pbq t request outs of
                     (Inl e, wire) \<Rightarrow> (InBounds (Inl (Known e)), wire, m3, os3)
                   | (Inr _, wire) \<Rightarrow> (call_receive pbr (ep_max ep) t ins, wire, m3, os3))))"

text \<open>The asynchronous forms run the call on another thread, which works on the caller through
  \<open>this\<close>: \<open>alive\<close> says whether the caller still exists then.  \<open>callAsync\<close> passes the result to the
  callback, \<open>callAsyncFuture\<close> to the future.\<close>

definition rpc_callAsync ::
  "bool \<Rightarrow> 'q protobuf \<Rightarrow> 'r protobuf \<Rightarrow> socket_endpoint \<Rightarrow> sock_env \<Rightarrow> u32 \<Rightarrow> 'q \<Rightarrow> ('r call_result \<Rightarrow> 's \<Rightarrow> 's) \<Rightarrow>
   out_call list \<Rightarrow> in_call list \<Rightarrow> sock_manager \<Rightarrow> socket_os \<Rightarrow> 's \<Rightarrow>
   's memory \<times> u8 list \<times> sock_manager \<times> socket_os" where
  "rpc_callAsync alive pbq pbr ep env t request callback outs ins m os s =
     (if \<not> alive then (OutOfBounds, [], m, os)
      else case rpc_call pbq pbr ep env t request outs ins m os of
        (OutOfBounds, rest) \<Rightarrow> (OutOfBounds, rest)
      | (InBounds result, rest) \<Rightarrow> (InBounds (callback result s), rest))"

definition rpc_callAsyncFuture ::
  "bool \<Rightarrow> 'q protobuf \<Rightarrow> 'r protobuf \<Rightarrow> socket_endpoint \<Rightarrow> sock_env \<Rightarrow> u32 \<Rightarrow> 'q \<Rightarrow>
   out_call list \<Rightarrow> in_call list \<Rightarrow> sock_manager \<Rightarrow> socket_os \<Rightarrow>
   'r call_result memory \<times> u8 list \<times> sock_manager \<times> socket_os" where
  "rpc_callAsyncFuture alive pbq pbr ep env t request outs ins m os =
     (if \<not> alive then (OutOfBounds, [], m, os) else rpc_call pbq pbr ep env t request outs ins m os)"

text \<open>Both give the result of the synchronous call if the caller lives that long, and read freed
  memory if it does not.\<close>

lemma rpc_async_agrees:
  "rpc_callAsync alive pbq pbr ep env t request (\<lambda>r _. Some r) outs ins m os None =
     (let (r, rest) = rpc_callAsyncFuture alive pbq pbr ep env t request outs ins m os
      in (case r of OutOfBounds \<Rightarrow> OutOfBounds | InBounds x \<Rightarrow> InBounds (Some x), rest))"
  by (simp add: rpc_callAsync_def rpc_callAsyncFuture_def split: prod.split memory.split)

lemma rpc_async_needs_caller:
  "fst (rpc_callAsyncFuture False pbq pbr ep env t request outs ins m os) = OutOfBounds"
  by (simp add: rpc_callAsyncFuture_def)

subsection \<open>The responder\<close>

record method_responder =
  mr_endpoint :: socket_endpoint
  mr_running :: bool
  mr_serverFd :: int

definition method_responder_new :: "socket_endpoint \<Rightarrow> method_responder" where
  "method_responder_new ep = \<lparr> mr_endpoint = ep, mr_running = False, mr_serverFd = -1 \<rparr>"

definition default_responder_endpoint :: "string \<Rightarrow> socket_endpoint" where
  "default_responder_endpoint path = \<lparr> ep_path = path, ep_mode = kStream, ep_max = 1048576,
     ep_sndbuf = 0, ep_rcvbuf = 0, ep_reuse = True, ep_backlog = 128 \<rparr>"

definition MR_start ::
  "sock_env \<Rightarrow> method_responder \<Rightarrow> sock_manager \<Rightarrow> socket_os \<Rightarrow>
   unit result \<times> method_responder \<times> sock_manager \<times> socket_os" where
  "MR_start env mr m os =
     (if mr_running mr then (Err kInvalidState, mr, m, os)
      else
        (case sm_initialize m of
           (Inl e, m1) \<Rightarrow> (Inl e, mr, m1, os)
         | (Inr _, m1) \<Rightarrow>
             (case createServerSocket env (mr_endpoint mr) m1 os of
                (Inl e, m2, os2) \<Rightarrow> (Inl e, mr, m2, os2)
              | (Inr fd, m2, os2) \<Rightarrow>
                  (Ok (), mr\<lparr>mr_serverFd := fd, mr_running := True\<rparr>, m2, os2))))"

definition MR_stop ::
  "method_responder \<Rightarrow> sock_manager \<Rightarrow> socket_os \<Rightarrow> method_responder \<times> sock_manager \<times> socket_os" where
  "MR_stop mr m os =
     (if \<not> mr_running mr then (mr, m, os)
      else
        (let mr1 = mr\<lparr>mr_running := False\<rparr>
         in if 0 \<le> mr_serverFd mr then
              (let (m1, os1) = closeSocket (mr_serverFd mr) m os
               in (mr1\<lparr>mr_serverFd := -1\<rparr>, m1, os1))
            else (mr1, m, os)))"

definition MR_destroy ::
  "method_responder \<Rightarrow> sock_manager \<Rightarrow> socket_os \<Rightarrow> method_responder \<times> sock_manager \<times> socket_os" where
  "MR_destroy = MR_stop"

definition MR_isRunning :: "method_responder \<Rightarrow> bool" where
  "MR_isRunning mr \<longleftrightarrow> mr_running mr"

text \<open>Consecutive \<open>sendExact\<close> calls whose results are ignored: what goes out on the wire.\<close>

fun send_parts :: "u32 \<Rightarrow> u8 list list \<Rightarrow> out_call list \<Rightarrow> u8 list" where
  "send_parts t [] outs = []"
| "send_parts t (p # ps) outs =
     (let (r, wire, outs1) = send_all t p outs in wire @ send_parts t ps outs1)"

definition error_envelope :: "com_errc \<Rightarrow> u8 list list" where
  "error_envelope c = [net32 4, net32 (word_of_int (errc_code c))]"

definition reply_parts :: "'r protobuf \<Rightarrow> 'r result \<Rightarrow> u8 list list" where
  "reply_parts pb res =
     (case res of
        Inl e \<Rightarrow> error_envelope (errc e)
      | Inr r \<Rightarrow>
          (case SerializeMessage pb r [] of
             (Inl _, _) \<Rightarrow> error_envelope kSerializationError
           | (Inr _, reply) \<Rightarrow>
               (let payloadLen = of_nat (length reply - 4) :: u32
                in [net32 (4 + payloadLen), net32 0, take (unat payloadLen) (drop 4 reply)])))"

text \<open>
  The client handler: \<open>None\<close> when it closes the connection without a reply.  The request buffer
  has \<open>4 + requestSize\<close> bytes, computed in 32 bits.
\<close>

definition handle_client ::
  "'q protobuf \<Rightarrow> 'r protobuf \<Rightarrow> u32 \<Rightarrow> ('q \<Rightarrow> 's \<Rightarrow> 'r result \<times> 's) \<Rightarrow>
   in_call list \<Rightarrow> out_call list \<Rightarrow> 's \<Rightarrow> (u8 list \<times> 's) memory" where
  "handle_client pbq pbr maxMessageSize handler ins outs s =
     (case recv_exact 5000 4 ins of
        (Inl _, _) \<Rightarrow> InBounds ([], s)
      | (Inr networkSize, ins1) \<Rightarrow>
          (let requestSize = host32 networkSize in
           if maxMessageSize < requestSize then InBounds ([], s)
           else if unat (4 + requestSize) < 4 then OutOfBounds
           else
             (case recv_exact 5000 (unat requestSize) ins1 of
                (Inl _, _) \<Rightarrow> InBounds ([], s)
              | (Inr payload, _) \<Rightarrow>
                  (case DeserializeMessage pbq (pb_deserializer_new (networkSize @ payload)) of
                     OutOfBounds \<Rightarrow> OutOfBounds
                   | InBounds (Inl _, _) \<Rightarrow> InBounds ([], s)
                   | InBounds (Inr request, _) \<Rightarrow>
                       (let (res, s1) = handler request s
                        in InBounds (send_parts 5000 (reply_parts pbr res) outs, s1))))))"

text \<open>A handler that returns a plain value; \<open>None\<close> is an exception.\<close>

definition value_handler :: "('q \<Rightarrow> 's \<Rightarrow> 'r option \<times> 's) \<Rightarrow> 'q \<Rightarrow> 's \<Rightarrow> 'r result \<times> 's" where
  "value_handler f request s =
     (case f request s of
        (None, s1) \<Rightarrow> (Err kInternal, s1)
      | (Some r, s1) \<Rightarrow> (Ok r, s1))"

text \<open>One round of the accept loop; the handler closes the socket of the client.\<close>

definition MR_serve ::
  "'q protobuf \<Rightarrow> 'r protobuf \<Rightarrow> ('q \<Rightarrow> 's \<Rightarrow> 'r result \<times> 's) \<Rightarrow> sock_env \<Rightarrow>
   in_call list \<Rightarrow> out_call list \<Rightarrow> method_responder \<Rightarrow> 's \<Rightarrow> sock_manager \<Rightarrow> socket_os \<Rightarrow>
   (u8 list \<times> 's) memory \<times> sock_manager \<times> socket_os" where
  "MR_serve pbq pbr handler env ins outs mr s m os =
     (case acceptConnection env (mr_serverFd mr) m os of
        (Inl _, m1, os1) \<Rightarrow> (InBounds ([], s), m1, os1)
      | (Inr clientFd, m1, os1) \<Rightarrow>
          (let (m2, os2) = closeSocket clientFd m1 os1
           in (handle_client pbq pbr (ep_max (mr_endpoint mr)) handler ins outs s, m2, os2)))"

subsection \<open>A call over the wire\<close>

lemma errc_code_range: "0 < errc_code c \<and> errc_code c < 2 ^ 31"
  by (cases c) simp_all

lemma status_of_code:
  "(word_of_int (errc_code c) :: u32) \<noteq> 0"
  "status_error (word_of_int (errc_code c)) = Known (make_error_code c 0)"
proof -
  have "sint (word_of_int (errc_code c) :: u32) = errc_code c"
    using errc_code_range [of c] by (simp add: sint_word_ariths signed_of_int signed_take_bit_int_eq_self)
  then show "status_error (word_of_int (errc_code c)) = Known (make_error_code c 0)"
    and "(word_of_int (errc_code c) :: u32) \<noteq> 0"
    using errc_code_range [of c] by (auto simp: status_error_def errc_of_code_code)
qed

lemma send_parts_sends: "sends outs \<Longrightarrow> send_parts t ps outs = concat ps"
proof (induction ps arbitrary: outs)
  case (Cons p ps)
  then obtain outs1 where "send_all t p outs = (Ok (), p, outs1)" "sends outs1"
    using send_all_sends by blast
  then show ?case
    using Cons.IH by simp
qed simp

lemma call_receive_envelope:
  assumes "feeds ins (net32 (of_nat n) @ body)" "length body = n" "4 \<le> n" "n < 2 ^ 32"
    and "n \<le> unat maxM + 4" "unat maxM < 2 ^ 32 - 4"
  shows "call_receive pb maxM t ins =
     (let status = host32 (take 4 body) in
      if status \<noteq> 0 then InBounds (Inl (status_error status))
      else (case DeserializeMessage pb (pb_deserializer_new (net32 (of_nat (n - 4)) @ drop 4 body)) of
              OutOfBounds \<Rightarrow> OutOfBounds
            | InBounds (Inl e, _) \<Rightarrow> InBounds (Inl (Known e))
            | InBounds (Inr r, _) \<Rightarrow> InBounds (Inr r)))"
proof -
  obtain ins1 where h: "recv_exact t 4 ins = (Ok (net32 (of_nat n)), ins1)" "feeds ins1 body"
    using recv_exact_feeds [OF assms(1), of 4 t] by auto
  have n: "unat (of_nat n :: u32) = n"
    using unat_of_nat32 assms(4) by simp
  have m: "unat (maxM + 4) = unat maxM + 4"
    using unat_4_plus [of maxM] assms(6) by (simp add: add.commute)
  have ok: "\<not> (of_nat n < (4 :: u32) \<or> maxM + 4 < of_nat n)"
    using assms(3,5) by (simp add: word_less_nat_alt n m)
  obtain ins2 where b: "recv_exact t n ins1 = (Ok body, ins2)"
    using recv_exact_feeds [OF h(2), of n t] assms(2) by auto
  have sub: "(of_nat n :: u32) - 4 = of_nat (n - 4)"
    using assms(3) by (simp add: of_nat_diff)
  show ?thesis
    using ok by (simp add: call_receive_def h(1) b n sub Let_def)
qed

lemma host32_take4 [simp]: "host32 (take 4 (net32 v @ bs)) = v"
  by simp

text \<open>What the caller is told of the outcome of the handler.\<close>

definition reply_of :: "'r protobuf \<Rightarrow> u32 \<Rightarrow> 'r result \<Rightarrow> 'r call_result" where
  "reply_of pb maxM res =
     (case res of
        Inl e \<Rightarrow> Inl (Known (make_error_code (errc e) 0))
      | Inr r \<Rightarrow>
          if length (frame pb r) \<le> unat maxM + 4 then Inr r
          else Inl (Known (make_error_code kMessageTooLarge 0)))"

lemma handle_client_request:
  assumes "pb_message_ok pbq req" "length (frame pbq req) \<le> unat maxS + 4"
    and "feeds ins (frame pbq req)"
  shows "handle_client pbq pbr maxS handler ins outs s =
     (let (res, s1) = handler req s in InBounds (send_parts 5000 (reply_parts pbr res) outs, s1))"
proof -
  obtain bs where bs: "length bs < 2 ^ 32 - 4" "frame pbq req = net32 (of_nat (length bs)) @ bs"
    using frame_ok [OF assms(1)] by blast
  have n: "unat (of_nat (length bs) :: u32) = length bs"
    using bs(1) by (intro unat_of_nat32) simp
  obtain ins1 where h: "recv_exact 5000 4 ins = (Ok (net32 (of_nat (length bs))), ins1)" "feeds ins1 bs"
    using recv_exact_feeds [OF assms(3), of 4 5000] bs(2) by auto
  obtain ins2 where b: "recv_exact 5000 (length bs) ins1 = (Ok bs, ins2)"
    using recv_exact_feeds [OF h(2), of "length bs" 5000] by auto
  have ok: "\<not> maxS < of_nat (length bs)"
    using assms(2) by (simp add: word_less_nat_alt n bs(2))
  have sum: "\<not> unat (4 + of_nat (length bs) :: u32) < 4"
    using unat_4_plus [of "of_nat (length bs)"] bs(1) by (simp add: n)
  have d: "DeserializeMessage pbq (pb_deserializer_new (net32 (of_nat (length bs)) @ bs)) =
      InBounds (Ok req, (pb_deserializer_new (net32 (of_nat (length bs)) @ bs))\<lparr>pd_pos := length (frame pbq req)\<rparr>)"
    using DeserializeMessage_frame [OF assms(1), of "pb_deserializer_new (frame pbq req)" "[]"]
    by (simp add: pb_deserializer_new_def bs(2) [symmetric])
  show ?thesis
    using ok sum by (simp add: handle_client_def h(1) b n d Let_def)
qed

lemma reply_error_wire: "concat (reply_parts pb (Inl e)) = net32 4 @ net32 (word_of_int (errc_code (errc e)))"
  by (simp add: reply_parts_def error_envelope_def)

lemma reply_value_wire:
  assumes "pb_message_ok pb r" "frame pb r = net32 (of_nat (length bs)) @ bs" "length bs < 2 ^ 32 - 4"
  shows "concat (reply_parts pb (Inr r)) = net32 (of_nat (4 + length bs)) @ net32 0 @ bs"
proof -
  have "SerializeMessage pb r [] = (Ok (), frame pb r)"
    using frame_ok [OF assms(1), of "[]"] by auto
  moreover have "unat (of_nat (length bs) :: u32) = length bs"
    using assms(3) by (intro unat_of_nat32) simp
  ultimately show ?thesis
    by (simp add: reply_parts_def assms(2) Let_def)
qed

text \<open>C25: a remote call does what the handler does: for every way the two streams are cut into
  chunks, the caller's request reaches the handler, whose state changes as by a local call, and
  the caller gets the value the handler returned, or the code of its error, or kMessageTooLarge
  when the value exceeds the caller's limit.\<close>

theorem remote_call_refines_handler:
  assumes "pb_message_ok pbq req" "length (frame pbq req) \<le> unat maxS + 4"
    and "\<And>r. fst (handler req s) = Inr r \<Longrightarrow> pb_message_ok pbr r"
    and "unat maxC < 2 ^ 32 - 4"
    and "sends outs_c" "feeds ins_s (frame pbq req)" "sends outs_s"
  shows "call_send pbq t req outs_c = (Ok (), frame pbq req) \<and>
    (\<exists>wire. handle_client pbq pbr maxS handler ins_s outs_s s = InBounds (wire, snd (handler req s)) \<and>
       (\<forall>ins_c. feeds ins_c wire \<longrightarrow>
          call_receive pbr maxC t ins_c = InBounds (reply_of pbr maxC (fst (handler req s)))))"
proof -
  let ?res = "fst (handler req s)"
  have "SerializeMessage pbq req [] = (Ok (), frame pbq req)"
    using frame_ok [OF assms(1), of "[]"] by auto
  then have send: "call_send pbq t req outs_c = (Ok (), frame pbq req)"
    using send_all_sends [OF assms(5), of t "frame pbq req"] by (auto simp: call_send_def)
  have served: "handle_client pbq pbr maxS handler ins_s outs_s s =
      InBounds (concat (reply_parts pbr ?res), snd (handler req s))"
    using handle_client_request [OF assms(1,2,6), of pbr handler outs_s s]
    by (simp add: send_parts_sends [OF assms(7)] case_prod_beta)
  have "call_receive pbr maxC t ins = InBounds (reply_of pbr maxC ?res)"
    if "feeds ins (concat (reply_parts pbr ?res))" for ins
  proof (cases ?res)
    case (Inl e)
    then show ?thesis
      using that call_receive_envelope [of ins 4 "net32 (word_of_int (errc_code (errc e)))" maxC pbr t] assms(4)
      by (simp add: reply_error_wire status_of_code reply_of_def Let_def)
  next
    case (Inr r)
    have ok: "pb_message_ok pbr r"
      using assms(3) Inr by simp
    obtain bs where bs: "length bs < 2 ^ 32 - 4" "frame pbr r = net32 (of_nat (length bs)) @ bs"
      using frame_ok [OF ok] by blast
    have f: "feeds ins (net32 (of_nat (4 + length bs)) @ net32 0 @ bs)"
      using that reply_value_wire [OF ok bs(2,1)] by (simp add: Inr)
    show ?thesis
    proof (cases "length bs \<le> unat maxC")
      case True
      have "DeserializeMessage pbr (pb_deserializer_new (net32 (of_nat (length bs)) @ bs)) =
          InBounds (Ok r, (pb_deserializer_new (net32 (of_nat (length bs)) @ bs))\<lparr>pd_pos := length (frame pbr r)\<rparr>)"
        using DeserializeMessage_frame [OF ok, of "pb_deserializer_new (frame pbr r)" "[]"]
        by (simp add: pb_deserializer_new_def bs(2) [symmetric])
      then show ?thesis
        using call_receive_envelope [OF f, of maxC pbr t] bs True assms(4)
        by (simp add: Inr reply_of_def Let_def)
    next
      case False
      obtain ins1 where h: "recv_exact t 4 ins = (Ok (net32 (of_nat (4 + length bs))), ins1)"
        using recv_exact_feeds [OF f, of 4 t] by auto
      have "unat (of_nat (4 + length bs) :: u32) = 4 + length bs"
        using bs(1) unat_of_nat32 [of "4 + length bs"] by simp
      moreover have "unat (maxC + 4) = unat maxC + 4"
        using unat_4_plus [of maxC] assms(4) by (simp add: add.commute)
      ultimately have "maxC + 4 < (of_nat (4 + length bs) :: u32)"
        using False by (simp add: word_less_nat_alt)
      then show ?thesis
        using False by (simp add: call_receive_def h Inr reply_of_def bs(2) Let_def)
    qed
  qed
  then show ?thesis
    using send served by auto
qed

definition demo_handler :: "nat \<Rightarrow> nat \<Rightarrow> nat result \<times> nat" where
  "demo_handler q s = (if q = 0 then Err kInvalidArgument else Ok (q + s), s + 1)"

lemma remote_call_refines_handler_witness:
  "call_send demo_pb 5000 2 [] = (Ok (), [0, 0, 0, 2, 1, 1]) \<and>
   (\<exists>wire. handle_client demo_pb demo_pb 100 demo_handler [demo_chunk [0], demo_chunk [0, 0, 2, 1], demo_chunk [1]] [] 3 =
       InBounds (wire, 4))"
proof -
  have f: "feeds [demo_chunk [0], demo_chunk [0, 0, 2, 1], demo_chunk [1]] (frame demo_pb 2)"
    by (simp add: feeds_def demo_frames)
  have h: "demo_handler 2 3 = (Ok 5, 4)"
    by (simp add: demo_handler_def)
  have "call_send demo_pb 5000 2 [] = (Ok (), frame demo_pb 2) \<and>
    (\<exists>wire. handle_client demo_pb demo_pb 100 demo_handler [demo_chunk [0], demo_chunk [0, 0, 2, 1], demo_chunk [1]] [] 3 =
        InBounds (wire, snd (demo_handler 2 3)) \<and>
       (\<forall>ins_c. feeds ins_c wire \<longrightarrow>
          call_receive demo_pb 100 5000 ins_c = InBounds (reply_of demo_pb 100 (fst (demo_handler 2 3)))))"
    by (rule remote_call_refines_handler) (simp_all add: demo_pb_ok demo_frames h f sends_def f [unfolded demo_frames])
  then show ?thesis
    by (auto simp: demo_frames h)
qed

end
