(* ===== verification/SocketEvent.thy ===== *)
theory SocketEvent
  imports SocketIO
begin

text \<open>
  binding/socket/inc/SocketEventBinding.hpp: a publisher that writes each event to the sockets of
  its subscribers, and a subscriber that reads frames in a loop.  The accept thread is one round
  of its loop; sockets and descriptors are those of the connection manager.
\<close>

subsection \<open>Publisher\<close>

record event_publisher =
  pub_path :: string
  pub_running :: bool
  pub_serverFd :: int
  pub_subscribers :: "int list"

definition event_publisher_new :: "string \<Rightarrow> event_publisher" where
  "event_publisher_new path = \<lparr> pub_path = path, pub_running = False, pub_serverFd = -1, pub_subscribers = [] \<rparr>"

text \<open>The endpoint is a local without initializers: the fields the code does not assign (message
  and buffer sizes) have whatever values \<open>junk\<close> has.\<close>

definition EP_start ::
  "socket_endpoint \<Rightarrow> u32 \<Rightarrow> sock_env \<Rightarrow> event_publisher \<Rightarrow> sock_manager \<Rightarrow> socket_os \<Rightarrow>
   unit result \<times> event_publisher \<times> sock_manager \<times> socket_os" where
  "EP_start junk listenBacklog env p m os =
     (if pub_running p then (Ok (), p, m, os)
      else
        (let ep = junk\<lparr>ep_path := pub_path p, ep_mode := kStream, ep_backlog := listenBacklog, ep_reuse := True\<rparr>
         in case sm_initialize m of
              (Inl e, m1) \<Rightarrow> (Inl e, p, m1, os)
            | (Inr _, m1) \<Rightarrow>
                (case createServerSocket env ep m1 os of
                   (Inl e, m2, os2) \<Rightarrow> (Inl e, p, m2, os2)
                 | (Inr fd, m2, os2) \<Rightarrow> (Ok (), p\<lparr>pub_serverFd := fd, pub_running := True\<rparr>, m2, os2))))"

fun close_fds :: "int list \<Rightarrow> sock_manager \<times> socket_os \<Rightarrow> sock_manager \<times> socket_os" where
  "close_fds [] s = s"
| "close_fds (fd # fds) (m, os) = close_fds fds (closeSocket fd m os)"

definition EP_stop ::
  "event_publisher \<Rightarrow> sock_manager \<Rightarrow> socket_os \<Rightarrow> event_publisher \<times> sock_manager \<times> socket_os" where
  "EP_stop p m os =
     (if \<not> pub_running p then (p, m, os)
      else
        (let s1 = (if 0 \<le> pub_serverFd p then closeSocket (pub_serverFd p) m os else (m, os));
             fd = (if 0 \<le> pub_serverFd p then -1 else pub_serverFd p);
             (m2, os2) = close_fds (pub_subscribers p) s1
         in (p\<lparr>pub_running := False, pub_serverFd := fd, pub_subscribers := []\<rparr>, m2, os2)))"

text \<open>Accepting until the first error: one answer of \<open>accept\<close> per round; the accept thread does
  one such round and then waits.\<close>

fun accept_pending ::
  "sock_env list \<Rightarrow> event_publisher \<Rightarrow> sock_manager \<Rightarrow> socket_os \<Rightarrow> event_publisher \<times> sock_manager \<times> socket_os" where
  "accept_pending [] p m os = (p, m, os)"
| "accept_pending (env # envs) p m os =
     (case acceptConnection env (pub_serverFd p) m os of
        (Inl _, m1, os1) \<Rightarrow> (p, m1, os1)
      | (Inr fd, m1, os1) \<Rightarrow>
          accept_pending envs (p\<lparr>pub_subscribers := List.insert fd (pub_subscribers p)\<rparr>) m1 os1)"

definition EP_acceptRound ::
  "sock_env \<Rightarrow> event_publisher \<Rightarrow> sock_manager \<Rightarrow> socket_os \<Rightarrow> event_publisher \<times> sock_manager \<times> socket_os" where
  "EP_acceptRound env p m os = (if pub_running p then accept_pending [env] p m os else (p, m, os))"

text \<open>What goes out to every subscriber, and those whose socket failed.\<close>

definition send_frame :: "u32 \<Rightarrow> u8 list \<Rightarrow> (int \<Rightarrow> out_call list) \<Rightarrow> int \<Rightarrow> u8 list" where
  "send_frame t data outs fd = (case send_all t data (outs fd) of (r, wire, _) \<Rightarrow> wire)"

definition send_fails :: "u32 \<Rightarrow> u8 list \<Rightarrow> (int \<Rightarrow> out_call list) \<Rightarrow> int \<Rightarrow> bool" where
  "send_fails t data outs fd = (case send_all t data (outs fd) of (r, wire, _) \<Rightarrow> \<not> has_value r)"

definition EP_publish ::
  "'m protobuf \<Rightarrow> u32 \<Rightarrow> 'm \<Rightarrow> sock_env list \<Rightarrow> (int \<Rightarrow> out_call list) \<Rightarrow>
   event_publisher \<Rightarrow> sock_manager \<Rightarrow> socket_os \<Rightarrow>
   unit result \<times> (int \<times> u8 list) list \<times> event_publisher \<times> sock_manager \<times> socket_os" where
  "EP_publish pb timeoutMs evt envs outs p m os =
     (if \<not> pub_running p then (Err kNotInitialized, [], p, m, os)
      else
        (case SerializeMessage pb evt [] of
           (Inl e, _) \<Rightarrow> (Inl e, [], p, m, os)
         | (Inr _, frameData) \<Rightarrow>
             (let (p1, m1, os1) = accept_pending envs p m os;
                  subs = pub_subscribers p1;
                  toRemove = filter (send_fails timeoutMs frameData outs) subs;
                  (m2, os2) = close_fds toRemove (m1, os1)
              in (Ok (), map (\<lambda>fd. (fd, send_frame timeoutMs frameData outs fd)) subs,
                  p1\<lparr>pub_subscribers := filter (\<lambda>fd. fd \<notin> set toRemove) subs\<rparr>, m2, os2))))"

subsection \<open>Subscriber\<close>

record event_subscriber =
  sub_path :: string
  sub_running :: bool
  sub_clientFd :: int

definition event_subscriber_new :: "string \<Rightarrow> event_subscriber" where
  "event_subscriber_new path = \<lparr> sub_path = path, sub_running = False, sub_clientFd = -1 \<rparr>"

definition ES_start ::
  "socket_endpoint \<Rightarrow> sock_env \<Rightarrow> event_subscriber \<Rightarrow> sock_manager \<Rightarrow> socket_os \<Rightarrow>
   unit result \<times> event_subscriber \<times> sock_manager \<times> socket_os" where
  "ES_start junk env s m os =
     (if sub_running s then (Ok (), s, m, os)
      else
        (let ep = junk\<lparr>ep_path := sub_path s, ep_mode := kStream\<rparr>
         in case sm_initialize m of
              (Inl e, m1) \<Rightarrow> (Inl e, s, m1, os)
            | (Inr _, m1) \<Rightarrow>
                (case createClientSocket env ep m1 os of
                   (Inl e, m2, os2) \<Rightarrow> (Inl e, s, m2, os2)
                 | (Inr fd, m2, os2) \<Rightarrow> (Ok (), s\<lparr>sub_clientFd := fd, sub_running := True\<rparr>, m2, os2))))"

definition ES_stop ::
  "event_subscriber \<Rightarrow> sock_manager \<Rightarrow> socket_os \<Rightarrow> event_subscriber \<times> sock_manager \<times> socket_os" where
  "ES_stop s m os =
     (if \<not> sub_running s then (s, m, os)
      else if 0 \<le> sub_clientFd s then
        (let (m1, os1) = closeSocket (sub_clientFd s) m os
         in (s\<lparr>sub_running := False, sub_clientFd := -1\<rparr>, m1, os1))
      else (s\<lparr>sub_running := False\<rparr>, m, os))"

text \<open>One round of the receive loop: the events handed to the callback, if there is one.\<close>

definition ES_round ::
  "'m protobuf \<Rightarrow> bool \<Rightarrow> in_call list \<Rightarrow> 'm list \<times> in_call list" where
  "ES_round pb callback ins =
     (case recv_frame 2000 ins of
        (FrameRead buf, ins1) \<Rightarrow>
          (case DeserializeMessage pb (pb_deserializer_new buf) of
             InBounds (Inr evt, _) \<Rightarrow> (if callback then [evt] else [], ins1)
           | _ \<Rightarrow> ([], ins1))
      | (_, ins1) \<Rightarrow> ([], ins1))"

text \<open>
  The loop as long as something arrives.  When the peer has closed, every further round reads
  zero bytes at once and changes nothing, until \<open>stop\<close>.
\<close>

function ES_loop :: "'m protobuf \<Rightarrow> bool \<Rightarrow> in_call list \<Rightarrow> 'm list" where
  "ES_loop pb callback ins =
     (if ins = [] then []
      else (case ES_round pb callback ins of (evts, ins1) \<Rightarrow> evts @ ES_loop pb callback ins1))"
  by pat_completeness auto

lemma ES_round_size:
  "ES_round pb callback ins = (evts, ins1) \<Longrightarrow> ins \<noteq> [] \<Longrightarrow> script_size ins1 < script_size ins"
  by (cases "recv_frame 2000 ins")
    (auto simp: ES_round_def dest: recv_frame_size split: frame_read.splits memory.splits sum.splits prod.splits)

termination ES_loop
  by (relation "measure (\<lambda>(pb, callback, ins). script_size ins)") (auto dest: ES_round_size [OF sym])

declare ES_loop.simps [simp del]

lemma ES_loop_Nil [simp]: "ES_loop pb callback [] = []"
  by (subst ES_loop.simps) simp

lemma ES_closed_idle: "ES_round pb callback [] = ([], [])"
  by (simp add: ES_round_def recv_frame_def sm_receive_def)

subsection \<open>Delivery\<close>

lemma ES_round_frame:
  assumes "feeds ins (frame pb m @ bs)" "ins \<noteq> []" "4 \<le> length (in_bytes (hd ins))"
    and "pb_message_ok pb m" "length (frame pb m) \<le> 10485764"
  shows "ES_round pb True ins =
     (if length (frame pb m) = 4 then [] else [m], drop_bytes (length (frame pb m)) ins)"
    and "feeds (drop_bytes (length (frame pb m)) ins) bs"
proof -
  obtain body where b: "frame pb m = net32 (of_nat (length body)) @ body"
    using frame_ok [OF assms(4)] by blast
  have d: "DeserializeMessage pb (pb_deserializer_new (frame pb m)) =
      InBounds (Ok m, (pb_deserializer_new (frame pb m))\<lparr>pd_pos := length (frame pb m)\<rparr>)"
    using DeserializeMessage_frame [OF assms(4), of "pb_deserializer_new (frame pb m)" "[]"]
    by (simp add: pb_deserializer_new_def)
  have f: "feeds ins (net32 (of_nat (length body)) @ body @ bs)" "length body \<le> 10485760"
    using assms(1,5) by (simp_all add: b)
  show "ES_round pb True ins =
     (if length (frame pb m) = 4 then [] else [m], drop_bytes (length (frame pb m)) ins)"
    using recv_frame_aligned(1) [OF f(1) assms(2,3) f(2), of 2000] d by (simp add: ES_round_def b)
  show "feeds (drop_bytes (length (frame pb m)) ins) bs"
    using recv_frame_aligned(2) [OF f(1) assms(2,3) f(2)] by (simp add: b)
qed


text \<open>A prefix cut in two is not repaired: the first part is thrown away and the loop goes on to
  read the length of the next frame from what follows.\<close>

lemma split_prefix_discarded:
  assumes "in_good c" "length (in_bytes c) < 4"
  shows "ES_loop pb callback (c # cs) = ES_loop pb callback cs"
proof -
  have "ES_round pb callback (c # cs) = ([], cs)"
    using assms
    by (auto simp: ES_round_def recv_frame_def sm_receive_def in_good_def in_bytes_def split: option.splits)
  then show ?thesis
    by (subst ES_loop.simps) simp
qed


subsection \<open>Publishing\<close>

lemma close_fds_gone:
  "fd \<in> set fds \<Longrightarrow> close_fds fds (m, os) = (m1, os1) \<Longrightarrow> fd \<notin> so_open os1"
proof (induction fds arbitrary: m os)
  case (Cons x fds)
  have keep: "fd \<notin> so_open os \<Longrightarrow> fd \<notin> so_open (snd (close_fds fds (m, os)))" for m os
  proof (induction fds arbitrary: m os)
    case (Cons y ys)
    have "fd \<notin> so_open (snd (closeSocket y m os))"
      using Cons.prems by (simp add: closeSocket_def split: option.split)
    then show ?case
      using Cons.IH by (cases "closeSocket y m os") simp
  qed simp
  obtain m2 os2 where c: "closeSocket x m os = (m2, os2)"
    by (cases "closeSocket x m os")
  show ?case
  proof (cases "fd = x")
    case True
    have "fd \<notin> so_open os2"
      using c True by (auto simp: closeSocket_def split: option.splits)
    then show ?thesis
      using keep [of os2 m2] Cons.prems(2) c by simp
  next
    case False
    then show ?thesis
      using Cons.IH [of m2 os2] Cons.prems c by simp
  qed
qed simp

text \<open>publishing reaches everyone who can be reached: after it returned, each subscriber whose
  socket accepts data has been sent the whole frame and is still subscribed; each whose socket
  failed has been removed and its descriptor is closed.\<close>

lemma publish_reaches_subscribers:
  assumes "EP_publish pb t evt [] outs p m os = (Ok (), wires, p1, m1, os1)" "fd \<in> set (pub_subscribers p)"
  shows "(sends (outs fd) \<longrightarrow> (fd, frame pb evt) \<in> set wires \<and> fd \<in> set (pub_subscribers p1)) \<and>
         (send_fails t (frame pb evt) outs fd \<longrightarrow>
            fd \<notin> set (pub_subscribers p1) \<and> fd \<notin> so_open os1)"
proof -
  obtain data where s: "SerializeMessage pb evt [] = (Ok (), data)"
    using assms(1) by (auto simp: EP_publish_def split: if_splits prod.splits sum.splits)
  then have data: "frame pb evt = data"
    by (simp add: frame_def)
  let ?gone = "filter (send_fails t data outs) (pub_subscribers p)"
  have r: "wires = map (\<lambda>fd. (fd, send_frame t data outs fd)) (pub_subscribers p)"
      "pub_subscribers p1 = filter (\<lambda>fd. fd \<notin> set ?gone) (pub_subscribers p)"
      "close_fds ?gone (m, os) = (m1, os1)"
    using assms(1) by (auto simp: EP_publish_def s Let_def split: if_splits prod.splits)
  have "send_frame t data outs fd = data \<and> \<not> send_fails t data outs fd" if "sends (outs fd)"
    using send_all_sends [OF that, of t data] by (auto simp: send_frame_def send_fails_def)
  moreover have "fd \<notin> so_open os1" if "send_fails t data outs fd"
    using close_fds_gone [of fd ?gone m os m1 os1] r(3) that assms(2) by simp
  ultimately show ?thesis
    using assms(2) by (auto simp: data r(1,2) image_iff)
qed

lemma publish_reaches_subscribers_witness:
  "\<exists>wires p1 m1 os1. EP_publish demo_pb 0 2 [] (\<lambda>fd. [])
      (event_publisher_new ''/s''\<lparr>pub_running := True, pub_subscribers := [4]\<rparr>) sock_manager_new demo_os =
        (Ok (), wires, p1, m1, os1) \<and> (4, [0, 0, 0, 2, 1, 1]) \<in> set wires"
proof -
  let ?p = "event_publisher_new ''/s''\<lparr>pub_running := True, pub_subscribers := [4]\<rparr>"
  have s: "SerializeMessage demo_pb 2 [] = (Ok (), frame demo_pb 2)"
    using frame_ok [OF demo_pb_ok, of 2 "[]"] by auto
  obtain res wires p1 m1 os1 where
    r0: "EP_publish demo_pb 0 2 [] (\<lambda>fd. []) ?p sock_manager_new demo_os = (res, wires, p1, m1, os1)"
    by (rule prod_cases5)
  then have "res = Ok ()"
    by (auto simp: EP_publish_def event_publisher_new_def s Let_def split: prod.splits)
  then have r: "EP_publish demo_pb 0 2 [] (\<lambda>fd. []) ?p sock_manager_new demo_os = (Ok (), wires, p1, m1, os1)"
    using r0 by simp
  have "(4, frame demo_pb 2) \<in> set wires"
    using publish_reaches_subscribers [OF r, of 4] by (simp add: event_publisher_new_def sends_def)
  then show ?thesis
    using r by (auto simp: demo_frames)
qed

end
