(* ===== verification/SocketField.thy ===== *)
theory SocketField
  imports SocketIO
begin

text \<open>
  binding/socket/inc/SocketFieldBinding.hpp: a field served over stream sockets.  A request is a
  frame whose payload starts with an operation byte (0 get, 1 set, 2 subscribe, 3 unsubscribe);
  replies and notifications are frames of the value.  The state of the server holds what the
  sockets will take and what has been written to them, in order.
\<close>

record 'v field_server =
  fs_path :: string
  fs_running :: bool
  fs_serverFd :: int
  fs_value :: 'v
  fs_subs :: "int list"
  fs_outs :: "int \<Rightarrow> out_call list"
  fs_wires :: "(int \<times> u8 list) list"
  fs_mgr :: sock_manager
  fs_os :: socket_os

definition FS_start ::
  "socket_endpoint \<Rightarrow> u32 \<Rightarrow> sock_env \<Rightarrow> 'v field_server \<Rightarrow> unit result \<times> 'v field_server" where
  "FS_start junk listenBacklog env st =
     (if fs_running st then (Ok (), st)
      else
        (let ep = junk\<lparr>ep_path := fs_path st, ep_mode := kStream, ep_backlog := listenBacklog, ep_reuse := True\<rparr>
         in case sm_initialize (fs_mgr st) of
              (Inl e, m1) \<Rightarrow> (Inl e, st\<lparr>fs_mgr := m1\<rparr>)
            | (Inr _, m1) \<Rightarrow>
                (case createServerSocket env ep m1 (fs_os st) of
                   (Inl e, m2, os2) \<Rightarrow> (Inl e, st\<lparr>fs_mgr := m2, fs_os := os2\<rparr>)
                 | (Inr fd, m2, os2) \<Rightarrow>
                     (Ok (), st\<lparr>fs_mgr := m2, fs_os := os2, fs_serverFd := fd, fs_running := True\<rparr>))))"

definition FS_close :: "int \<Rightarrow> 'v field_server \<Rightarrow> 'v field_server" where
  "FS_close fd st =
     (let (m, os) = closeSocket fd (fs_mgr st) (fs_os st) in st\<lparr>fs_mgr := m, fs_os := os\<rparr>)"

definition FS_stop :: "'v field_server \<Rightarrow> 'v field_server" where
  "FS_stop st =
     (if \<not> fs_running st then st
      else
        (let st1 = st\<lparr>fs_running := False\<rparr>;
             st2 = (if 0 \<le> fs_serverFd st then (FS_close (fs_serverFd st) st1)\<lparr>fs_serverFd := -1\<rparr> else st1);
             st3 = fold FS_close (fs_subs st2) st2
         in st3\<lparr>fs_subs := []\<rparr>))"

text \<open>Writing to a socket: whether everything was sent.\<close>

definition send_to :: "u32 \<Rightarrow> u8 list \<Rightarrow> int \<Rightarrow> 'v field_server \<Rightarrow> bool \<times> 'v field_server" where
  "send_to t data fd st =
     (let (r, wire, rest) = send_all t data (fs_outs st fd)
      in (has_value r, st\<lparr>fs_outs := (fs_outs st)(fd := rest), fs_wires := fs_wires st @ [(fd, wire)]\<rparr>))"

definition FS_sendValue :: "'v protobuf \<Rightarrow> int \<Rightarrow> 'v field_server \<Rightarrow> 'v field_server" where
  "FS_sendValue pb fd st =
     (case SerializeMessage pb (fs_value st) [] of
        (Inl _, _) \<Rightarrow> st
      | (Inr _, data) \<Rightarrow> snd (send_to 2000 data fd st))"

fun notify_loop :: "'v protobuf \<Rightarrow> int list \<Rightarrow> 'v field_server \<Rightarrow> int list \<times> 'v field_server" where
  "notify_loop pb [] st = ([], st)"
| "notify_loop pb (fd # fds) st =
     (case SerializeMessage pb (fs_value st) [] of
        (Inl _, _) \<Rightarrow> (let (gone, st1) = notify_loop pb fds st in (fd # gone, st1))
      | (Inr _, data) \<Rightarrow>
          (let (ok, st1) = send_to 1000 data fd st;
               (gone, st2) = notify_loop pb fds st1
           in (if ok then gone else fd # gone, st2)))"

definition FS_notifySubscribers :: "'v protobuf \<Rightarrow> 'v field_server \<Rightarrow> 'v field_server" where
  "FS_notifySubscribers pb st =
     (let (toRemove, st1) = notify_loop pb (fs_subs st) st;
          st2 = fold FS_close toRemove st1
      in st2\<lparr>fs_subs := filter (\<lambda>fd. fd \<notin> set toRemove) (fs_subs st2)\<rparr>)"

definition FS_setLocal :: "'v protobuf \<Rightarrow> 'v \<Rightarrow> 'v field_server \<Rightarrow> unit result \<times> 'v field_server" where
  "FS_setLocal pb v st = (Ok (), FS_notifySubscribers pb (st\<lparr>fs_value := v\<rparr>))"

text \<open>One request: the frame has at least five bytes.\<close>

definition FS_request :: "'v protobuf \<Rightarrow> int \<Rightarrow> u8 list \<Rightarrow> 'v field_server \<Rightarrow> 'v field_server" where
  "FS_request pb fd buf st =
     (let operation = buf ! 4; payload = drop 5 buf in
      if operation = 0 then FS_sendValue pb fd st
      else if operation = 1 then
        (if payload = [] then st
         else
           (case pb_from_array pb payload of
              None \<Rightarrow> st
            | Some v \<Rightarrow> FS_notifySubscribers pb (FS_sendValue pb fd (st\<lparr>fs_value := v\<rparr>))))
      else if operation = 2 then FS_sendValue pb fd (st\<lparr>fs_subs := List.insert fd (fs_subs st)\<rparr>)
      else if operation = 3 then st\<lparr>fs_subs := removeAll fd (fs_subs st)\<rparr>
      else st)"

definition FS_round ::
  "'v protobuf \<Rightarrow> int \<Rightarrow> in_call list \<Rightarrow> 'v field_server \<Rightarrow> bool \<times> in_call list \<times> 'v field_server" where
  "FS_round pb fd ins st =
     (case recv_frame 2000 ins of
        (RecvError e, ins1) \<Rightarrow> (True, ins1, st)
      | (Closed, ins1) \<Rightarrow> (False, ins1, st)
      | (ShortPrefix, ins1) \<Rightarrow> (True, ins1, st)
      | (BadLength, ins1) \<Rightarrow> (True, ins1, st)
      | (Incomplete, ins1) \<Rightarrow> (False, ins1, st)
      | (FrameRead buf, ins1) \<Rightarrow>
          if length buf < 5 then (False, ins1, st) else (True, ins1, FS_request pb fd buf st))"

definition FS_cleanup :: "int \<Rightarrow> 'v field_server \<Rightarrow> 'v field_server" where
  "FS_cleanup fd st = FS_close fd (st\<lparr>fs_subs := removeAll fd (fs_subs st)\<rparr>)"

text \<open>The loop of one client while the server runs; it ends when the client closes or breaks off.\<close>

lemma FS_round_size:
  assumes "FS_round pb fd ins st = (True, ins1, st1)"
  shows "script_size ins1 < script_size ins"
proof -
  have "ins \<noteq> []"
    using assms by (auto simp: FS_round_def recv_frame_def sm_receive_def)
  moreover obtain r where "recv_frame 2000 ins = (r, ins1)"
    using assms by (cases "recv_frame 2000 ins") (auto simp: FS_round_def split: frame_read.splits if_splits)
  ultimately show ?thesis
    using recv_frame_size by blast
qed

function FS_clientLoop ::
  "'v protobuf \<Rightarrow> int \<Rightarrow> in_call list \<Rightarrow> 'v field_server \<Rightarrow> 'v field_server" where
  "FS_clientLoop pb fd ins st =
     (case FS_round pb fd ins st of
        (True, ins1, st1) \<Rightarrow> FS_clientLoop pb fd ins1 st1
      | (False, ins1, st1) \<Rightarrow> FS_cleanup fd st1)"
  by pat_completeness auto
termination
  by (relation "measure (\<lambda>(pb, fd, ins, st). script_size ins)") (auto dest: FS_round_size [OF sym])

declare FS_clientLoop.simps [simp del]

text \<open>One round of the accept thread, with the thread it starts for the client.\<close>

definition FS_acceptRound ::
  "'v protobuf \<Rightarrow> sock_env \<Rightarrow> in_call list \<Rightarrow> 'v field_server \<Rightarrow> 'v field_server" where
  "FS_acceptRound pb env ins st =
     (if \<not> fs_running st then st
      else
        (case acceptConnection env (fs_serverFd st) (fs_mgr st) (fs_os st) of
           (Inl _, m, os) \<Rightarrow> st\<lparr>fs_mgr := m, fs_os := os\<rparr>
         | (Inr fd, m, os) \<Rightarrow> FS_clientLoop pb fd ins (st\<lparr>fs_mgr := m, fs_os := os\<rparr>)))"

subsection \<open>Client\<close>

record field_client =
  fc_path :: string
  fc_connected :: bool
  fc_fd :: int

definition FC_start ::
  "socket_endpoint \<Rightarrow> sock_env \<Rightarrow> field_client \<Rightarrow> sock_manager \<Rightarrow> socket_os \<Rightarrow>
   unit result \<times> field_client \<times> sock_manager \<times> socket_os" where
  "FC_start junk env c m os =
     (if fc_connected c then (Ok (), c, m, os)
      else
        (let ep = junk\<lparr>ep_path := fc_path c, ep_mode := kStream\<rparr>
         in case sm_initialize m of
              (Inl e, m1) \<Rightarrow> (Inl e, c, m1, os)
            | (Inr _, m1) \<Rightarrow>
                (case createClientSocket env ep m1 os of
                   (Inl e, m2, os2) \<Rightarrow> (Inl e, c, m2, os2)
                 | (Inr fd, m2, os2) \<Rightarrow> (Ok (), c\<lparr>fc_fd := fd, fc_connected := True\<rparr>, m2, os2))))"

definition FC_stop ::
  "field_client \<Rightarrow> sock_manager \<Rightarrow> socket_os \<Rightarrow> field_client \<times> sock_manager \<times> socket_os" where
  "FC_stop c m os =
     (if \<not> fc_connected c then (c, m, os)
      else if 0 \<le> fc_fd c then
        (let (m1, os1) = closeSocket (fc_fd c) m os
         in (c\<lparr>fc_connected := False, fc_fd := -1\<rparr>, m1, os1))
      else (c\<lparr>fc_connected := False\<rparr>, m, os))"

definition buildRequestFrame :: "u8 \<Rightarrow> u8 list \<Rightarrow> u8 list result" where
  "buildRequestFrame operation payload =
     (if 2 ^ 30 < length payload then Err kInvalidArgument
      else Ok (net32 (of_nat (1 + length payload)) @ operation # payload))"

definition FC_readValue :: "'v protobuf \<Rightarrow> u32 \<Rightarrow> in_call list \<Rightarrow> 'v result \<times> in_call list" where
  "FC_readValue pb t ins =
     (case recv_frame t ins of
        (FrameRead buf, ins1) \<Rightarrow>
          (case DeserializeMessage pb (pb_deserializer_new buf) of
             InBounds (Inr v, _) \<Rightarrow> (Ok v, ins1)
           | _ \<Rightarrow> (Err kSerializationError, ins1))
      | (BadLength, ins1) \<Rightarrow> (Err kInvalidArgument, ins1)
      | (_, ins1) \<Rightarrow> (Err kTimeout, ins1))"

text \<open>A request and its reply: the frame is given to \<open>send\<close> once, and a partial write is not
  continued.  The second component is what went out.\<close>

definition FC_roundTrip ::
  "'v protobuf \<Rightarrow> u8 \<Rightarrow> u8 list \<Rightarrow> u32 \<Rightarrow> out_call list \<Rightarrow> in_call list \<Rightarrow> field_client \<Rightarrow>
   'v result \<times> u8 list \<times> in_call list" where
  "FC_roundTrip pb operation bytes t outs ins c =
     (if \<not> fc_connected c then (Err kNotInitialized, [], ins)
      else
        (case buildRequestFrame operation bytes of
           Inl e \<Rightarrow> (Inl e, [], ins)
         | Inr data \<Rightarrow>
             (case sm_send t data outs of
                (Inl e, _) \<Rightarrow> (Inl e, [], ins)
              | (Inr k, _) \<Rightarrow>
                  (let (r, ins1) = FC_readValue pb t ins in (r, take k data, ins1)))))"

definition FC_get ::
  "'v protobuf \<Rightarrow> u32 \<Rightarrow> out_call list \<Rightarrow> in_call list \<Rightarrow> field_client \<Rightarrow> 'v result \<times> u8 list \<times> in_call list" where
  "FC_get pb = FC_roundTrip pb 0 []"

text \<open>\<open>SerializeToString\<close>; its result is not looked at.\<close>

definition to_string :: "'v protobuf \<Rightarrow> 'v \<Rightarrow> u8 list" where
  "to_string pb v = (case pb_to_array pb v of None \<Rightarrow> [] | Some bs \<Rightarrow> bs)"

definition FC_set ::
  "'v protobuf \<Rightarrow> 'v \<Rightarrow> u32 \<Rightarrow> out_call list \<Rightarrow> in_call list \<Rightarrow> field_client \<Rightarrow>
   'v result \<times> u8 list \<times> in_call list" where
  "FC_set pb v = FC_roundTrip pb 1 (to_string pb v)"

text \<open>Subscribing waits for the current value as an acknowledgement; the list is what the callback
  is given.\<close>

definition FC_subscribe ::
  "'v protobuf \<Rightarrow> bool \<Rightarrow> out_call list \<Rightarrow> in_call list \<Rightarrow> unit result \<times> u8 list \<times> 'v list \<times> in_call list" where
  "FC_subscribe pb callback outs ins =
     (case buildRequestFrame 2 [] of
        Inl e \<Rightarrow> (Inl e, [], [], ins)
      | Inr data \<Rightarrow>
          (case send_all 2000 data outs of
             (Inl e, wire, _) \<Rightarrow> (Err kNetworkBindingFailure, wire, [], ins)
           | (Inr _, wire, _) \<Rightarrow>
               (case FC_readValue pb 2000 ins of
                  (Inl e, ins1) \<Rightarrow> (Inl e, wire, [], ins1)
                | (Inr v, ins1) \<Rightarrow> (Ok (), wire, if callback then [v] else [], ins1))))"

text \<open>The receive thread is stopped before and the connected flag set again after.\<close>

definition FC_unsubscribe :: "out_call list \<Rightarrow> field_client \<Rightarrow> unit result \<times> u8 list \<times> field_client" where
  "FC_unsubscribe outs c =
     (let wire = (case buildRequestFrame 3 [] of
                    Inl e \<Rightarrow> []
                  | Inr data \<Rightarrow>
                      (case sm_send 1000 data outs of (Inl e, _) \<Rightarrow> [] | (Inr k, _) \<Rightarrow> take k data))
      in (Ok (), wire, c\<lparr>fc_connected := True\<rparr>))"

definition FC_recvRound :: "'v protobuf \<Rightarrow> bool \<Rightarrow> in_call list \<Rightarrow> 'v list \<times> in_call list" where
  "FC_recvRound pb callback ins =
     (case FC_readValue pb 5000 ins of
        (Inl e, ins1) \<Rightarrow> ([], ins1)
      | (Inr v, ins1) \<Rightarrow> (if callback then [v] else [], ins1))"

subsection \<open>The server as a register\<close>

datatype 'v field_request = ReqGet | ReqSet 'v

fun request_body :: "'v protobuf \<Rightarrow> 'v field_request \<Rightarrow> u8 list" where
  "request_body pb ReqGet = [0]"
| "request_body pb (ReqSet v) = 1 # to_string pb v"

definition request_frame :: "'v protobuf \<Rightarrow> 'v field_request \<Rightarrow> u8 list" where
  "request_frame pb r = net32 (of_nat (length (request_body pb r))) @ request_body pb r"

text \<open>The reference: a register, with the values the client is sent and the final content.  A value
  whose encoding is empty is not stored and not answered.\<close>

fun register_run :: "'v protobuf \<Rightarrow> 'v field_request list \<Rightarrow> 'v \<Rightarrow> 'v list \<times> 'v" where
  "register_run pb [] v = ([], v)"
| "register_run pb (ReqGet # rs) v = (let (out, v1) = register_run pb rs v in (v # out, v1))"
| "register_run pb (ReqSet w # rs) v =
     (if to_string pb w = [] then register_run pb rs v
      else (let (out, v1) = register_run pb rs w in (w # out, v1)))"

lemma request_frame_built:
  "length (to_string pb v) \<le> 2 ^ 30 \<Longrightarrow> buildRequestFrame 1 (to_string pb v) = Ok (request_frame pb (ReqSet v))"
  "buildRequestFrame 0 [] = Ok (request_frame pb ReqGet)"
  by (simp_all add: buildRequestFrame_def request_frame_def)

definition request_ok :: "'v protobuf \<Rightarrow> 'v field_request \<Rightarrow> bool" where
  "request_ok pb r \<longleftrightarrow>
     (case r of ReqGet \<Rightarrow> True
      | ReqSet v \<Rightarrow> pb_message_ok pb v \<and> length (to_string pb v) < 10485760)"

lemma request_body_length: "request_ok pb r \<Longrightarrow> length (request_body pb r) \<le> 10485760"
  by (cases r) (simp_all add: request_ok_def)

lemma request_body_ne [simp]: "request_body pb r \<noteq> []"
  by (cases r) simp_all

lemma sendValue_sends:
  assumes "pb_message_ok pb (fs_value st)" "sends (fs_outs st fd)"
  shows "\<exists>outs. FS_sendValue pb fd st =
      st\<lparr>fs_outs := (fs_outs st)(fd := outs), fs_wires := fs_wires st @ [(fd, frame pb (fs_value st))]\<rparr> \<and> sends outs"
proof -
  have "SerializeMessage pb (fs_value st) [] = (Ok (), frame pb (fs_value st))"
    using frame_ok [OF assms(1), of "[]"] by auto
  then show ?thesis
    using send_all_sends [OF assms(2), of 2000 "frame pb (fs_value st)"]
    by (auto simp: FS_sendValue_def send_to_def)
qed

lemma notify_none: "fs_subs st = [] \<Longrightarrow> FS_notifySubscribers pb st = st"
  by (simp add: FS_notifySubscribers_def)

lemma request_bytes:
  "(net32 v @ request_body pb r) ! 4 = (case r of ReqGet \<Rightarrow> 0 | ReqSet w \<Rightarrow> 1)"
  "drop 5 (net32 v @ request_body pb r) = (case r of ReqGet \<Rightarrow> [] | ReqSet w \<Rightarrow> to_string pb w)"
  by (cases r; simp add: nth_append drop_Cons')+

text \<open>One request on a server without subscribers.\<close>

lemma FS_request_step:
  assumes "request_ok pb r" "pb_message_ok pb (fs_value st)" "sends (fs_outs st fd)" "fs_subs st = []"
  shows "\<exists>st1. FS_request pb fd (request_frame pb r) st = st1 \<and> pb_message_ok pb (fs_value st1) \<and>
     sends (fs_outs st1 fd) \<and> fs_subs st1 = [] \<and>
     (case r of
        ReqGet \<Rightarrow> fs_value st1 = fs_value st \<and> fs_wires st1 = fs_wires st @ [(fd, frame pb (fs_value st))]
      | ReqSet w \<Rightarrow>
          if to_string pb w = [] then fs_value st1 = fs_value st \<and> fs_wires st1 = fs_wires st
          else fs_value st1 = w \<and> fs_wires st1 = fs_wires st @ [(fd, frame pb w)])"
proof (cases r)
  case ReqGet
  then show ?thesis
    using sendValue_sends [OF assms(2,3)] assms(2,4)
    by (auto simp: FS_request_def request_frame_def request_bytes(1) nth_append)
next
  case (ReqSet w)
  have ok: "pb_message_ok pb w"
    using assms(1) ReqSet by (simp add: request_ok_def)
  then have parse: "pb_from_array pb (to_string pb w) = Some w"
    by (auto simp: pb_message_ok_def to_string_def split: option.splits)
  have sent: "\<exists>outs. FS_sendValue pb fd (st\<lparr>fs_value := w\<rparr>) =
      st\<lparr>fs_value := w, fs_outs := (fs_outs st)(fd := outs), fs_wires := fs_wires st @ [(fd, frame pb w)]\<rparr> \<and> sends outs"
    using sendValue_sends [of pb "st\<lparr>fs_value := w\<rparr>" fd] ok assms(3) by simp
  show ?thesis
    using sent assms(2,3,4) parse ok
    by (auto simp: FS_request_def ReqSet request_frame_def request_bytes [of _ pb "ReqSet w", simplified]
        nth_append notify_none Let_def)
qed

lemma FS_round_request:
  assumes "feeds ins (request_frame pb r @ bs)" "ins \<noteq> []" "4 \<le> length (in_bytes (hd ins))" "request_ok pb r"
  shows "FS_round pb fd ins st =
      (True, drop_bytes (length (request_frame pb r)) ins, FS_request pb fd (request_frame pb r) st)"
    and "feeds (drop_bytes (length (request_frame pb r)) ins) bs"
proof -
  have f: "feeds ins (net32 (of_nat (length (request_body pb r))) @ request_body pb r @ bs)"
    using assms(1) by (simp add: request_frame_def)
  have five: "\<not> length (request_frame pb r) < 5"
    by (cases r) (simp_all add: request_frame_def)
  note a = recv_frame_aligned [OF f assms(2,3) request_body_length [OF assms(4)]]
  show "FS_round pb fd ins st =
      (True, drop_bytes (length (request_frame pb r)) ins, FS_request pb fd (request_frame pb r) st)"
    using a(1) [of 2000] five by (simp add: FS_round_def request_frame_def)
  show "feeds (drop_bytes (length (request_frame pb r)) ins) bs"
    using a(2) by (simp add: request_frame_def)
qed

lemma clientLoop_requests:
  assumes "list_all (request_ok pb) rs" "pb_message_ok pb (fs_value st)" "sends (fs_outs st fd)" "fs_subs st = []"
    and "feeds ins (concat (map (request_frame pb) rs))" "aligned (map (request_frame pb) rs) ins"
  shows "fs_value (FS_clientLoop pb fd ins st) = snd (register_run pb rs (fs_value st)) \<and>
         fs_wires (FS_clientLoop pb fd ins st) =
           fs_wires st @ map (\<lambda>v. (fd, frame pb v)) (fst (register_run pb rs (fs_value st)))"
  using assms
proof (induction rs arbitrary: ins st)
  case Nil
  have "FS_round pb fd [] st = (False, [], st)"
    by (simp add: FS_round_def recv_frame_def sm_receive_def)
  then show ?case
    using Nil.prems
    by (simp add: FS_clientLoop.simps [of pb fd "[]"] FS_cleanup_def FS_close_def case_prod_beta)
next
  case (Cons r rs)
  have a: "ins \<noteq> []" "4 \<le> length (in_bytes (hd ins))" "request_ok pb r"
      "feeds ins (request_frame pb r @ concat (map (request_frame pb) rs))"
    using Cons.prems by auto
  note round = FS_round_request [OF a(4,1,2,3)]
  obtain st1 where st1: "FS_request pb fd (request_frame pb r) st = st1" "pb_message_ok pb (fs_value st1)"
      "sends (fs_outs st1 fd)" "fs_subs st1 = []"
      "case r of
         ReqGet \<Rightarrow> fs_value st1 = fs_value st \<and> fs_wires st1 = fs_wires st @ [(fd, frame pb (fs_value st))]
       | ReqSet w \<Rightarrow>
           if to_string pb w = [] then fs_value st1 = fs_value st \<and> fs_wires st1 = fs_wires st
           else fs_value st1 = w \<and> fs_wires st1 = fs_wires st @ [(fd, frame pb w)]"
    using FS_request_step [OF a(3) Cons.prems(2-4)] by blast
  have loop: "FS_clientLoop pb fd ins st =
      FS_clientLoop pb fd (drop_bytes (length (request_frame pb r)) ins) st1"
    using round(1) [of fd st] st1(1) by (subst FS_clientLoop.simps) simp
  show ?case
    using Cons.IH [OF _ st1(2-4) round(2)] Cons.prems(1,6) st1(5)
    by (auto simp: loop case_prod_beta split: field_request.splits if_splits)
qed

text \<open>What the client makes of a reply.\<close>

lemma readValue_reply:
  assumes "pb_message_ok pb v" "length (frame pb v) \<le> 10485764"
    and "feeds ins (frame pb v)" "aligned [frame pb v] ins"
  shows "fst (FC_readValue pb t ins) = (if to_string pb v = [] then Err kInvalidArgument else Ok v)"
proof -
  obtain body where "pb_to_array pb v = Some body"
    and b1: "frame pb v = net32 (of_nat (length body)) @ body"
    using frame_ok [OF assms(1)] by blast
  then have b: "frame pb v = net32 (of_nat (length body)) @ body" "to_string pb v = body"
    by (simp_all add: to_string_def)
  have d: "DeserializeMessage pb (pb_deserializer_new (frame pb v)) =
      InBounds (Ok v, (pb_deserializer_new (frame pb v))\<lparr>pd_pos := length (frame pb v)\<rparr>)"
    using DeserializeMessage_frame [OF assms(1), of "pb_deserializer_new (frame pb v)" "[]"]
    by (simp add: pb_deserializer_new_def)
  have f: "feeds ins (net32 (of_nat (length body)) @ body @ [])" "length body \<le> 10485760"
    using assms(2,3) by (simp_all add: b)
  have a: "ins \<noteq> []" "4 \<le> length (in_bytes (hd ins))"
    using assms(4) by simp_all
  show ?thesis
    using recv_frame_aligned(1) [OF f(1) a f(2), of t] d by (simp add: FC_readValue_def b)
qed


definition demo_server :: "nat field_server" where
  "demo_server = \<lparr> fs_path = ''/f'', fs_running = True, fs_serverFd = 3, fs_value = 5, fs_subs = [],
     fs_outs = (\<lambda>fd. []), fs_wires = [], fs_mgr = sock_manager_new, fs_os = demo_os \<rparr>"

lemma demo_request_frames:
  "request_frame demo_pb (ReqSet 2) = [0, 0, 0, 3, 1, 1, 1]" "request_frame demo_pb ReqGet = [0, 0, 0, 1, 0]"
proof -
  have "replicate 2 (1 :: u8) = [1, 1]"
    by (simp add: numeral_2_eq_2)
  then show "request_frame demo_pb (ReqSet 2) = [0, 0, 0, 3, 1, 1, 1]"
    by (simp add: request_frame_def to_string_def demo_pb_def net32_def int_bytes_def upt_rec)
  show "request_frame demo_pb ReqGet = [0, 0, 0, 1, 0]"
    by (simp add: request_frame_def net32_def int_bytes_def upt_rec)
qed


end
