(* ===== verification/DdsMessage.thy ===== *)
theory DdsMessage
  imports DdsBinding Bytes
begin

text \<open>
  binding/dds/idl: the message type of the DDS binding and its plug-in for Fast DDS.  Fast CDR, the
  stream the two write to and read from, is not part of the repository: its operations are the
  record \<open>cdr_lib\<close>, an argument of the definitions, and what the code relies on is \<open>cdr_laws\<close>: a
  primitive of \<open>k\<close> bytes is preceded by the padding \<open>Cdr::alignment\<close> announces, a sequence of
  octets is its length and its elements, a value that does not fit raises
  \<open>NotEnoughMemoryException\<close>, and a value is read back where it was written.  Sizes have the width
  of \<open>size_t\<close>.
\<close>

subsection \<open>The interface of Fast CDR\<close>

datatype cdr_exception = NotEnoughMemoryException | BadParamException

text \<open>An operation of the stream: what it throws, if anything, and the stream after it.\<close>

type_synonym 's cdr_op = "'s \<Rightarrow> cdr_exception option \<times> 's"

definition cdr_then :: "'s cdr_op \<Rightarrow> 's cdr_op \<Rightarrow> 's cdr_op" where
  "cdr_then f g s = (case f s of (None, s1) \<Rightarrow> g s1 | (Some x, s1) \<Rightarrow> (Some x, s1))"

text \<open>Reading assigns a variable: the operation gets its old value and returns the new one.\<close>

record 's cdr_lib =
  cdr_alignment :: "u64 \<Rightarrow> u64 \<Rightarrow> u64"
  cdr_open :: "u8 list \<Rightarrow> 's"
  cdr_open_big_endian :: "u8 list \<Rightarrow> 's"
  cdr_serialize_encapsulation :: "'s cdr_op"
  cdr_read_encapsulation :: "'s cdr_op"
  cdr_big_endian :: "'s \<Rightarrow> bool"
  cdr_put_u64 :: "u64 \<Rightarrow> 's cdr_op"
  cdr_put_u32 :: "u32 \<Rightarrow> 's cdr_op"
  cdr_put_octets :: "u8 list \<Rightarrow> 's cdr_op"
  cdr_get_u64 :: "u64 \<Rightarrow> 's \<Rightarrow> cdr_exception option \<times> u64 \<times> 's"
  cdr_get_u32 :: "u32 \<Rightarrow> 's \<Rightarrow> cdr_exception option \<times> u32 \<times> 's"
  cdr_get_octets :: "u8 list \<Rightarrow> 's \<Rightarrow> cdr_exception option \<times> u8 list \<times> 's"
  cdr_length :: "'s \<Rightarrow> u64"
  cdr_buffer :: "'s \<Rightarrow> u8 list"

subsection \<open>LapComMessage\<close>

definition lap_com_message_new :: lap_com_message where
  "lap_com_message_new =
     \<lparr> msg_service_id = 0, msg_instance_id = 0, msg_event_id = 0, msg_timestamp_ns = 0, msg_payload = [] \<rparr>"

definition message_copy :: "lap_com_message \<Rightarrow> lap_com_message" where
  "message_copy x =
     \<lparr> msg_service_id = msg_service_id x, msg_instance_id = msg_instance_id x,
       msg_event_id = msg_event_id x, msg_timestamp_ns = msg_timestamp_ns x, msg_payload = msg_payload x \<rparr>"

text \<open>Moving: the message made and the source, whose vector is left with the content \<open>left\<close>.\<close>

definition message_move :: "u8 list \<Rightarrow> lap_com_message \<Rightarrow> lap_com_message \<times> lap_com_message" where
  "message_move left x =
     (\<lparr> msg_service_id = msg_service_id x, msg_instance_id = msg_instance_id x,
        msg_event_id = msg_event_id x, msg_timestamp_ns = msg_timestamp_ns x, msg_payload = msg_payload x \<rparr>,
      x\<lparr>msg_payload := left\<rparr>)"

definition message_assign :: "lap_com_message \<Rightarrow> lap_com_message \<Rightarrow> lap_com_message" where
  "message_assign this x =
     this\<lparr> msg_service_id := msg_service_id x, msg_instance_id := msg_instance_id x,
           msg_event_id := msg_event_id x, msg_timestamp_ns := msg_timestamp_ns x,
           msg_payload := msg_payload x \<rparr>"

definition message_move_assign ::
  "u8 list \<Rightarrow> lap_com_message \<Rightarrow> lap_com_message \<Rightarrow> lap_com_message \<times> lap_com_message" where
  "message_move_assign left this x =
     (this\<lparr> msg_service_id := msg_service_id x, msg_instance_id := msg_instance_id x,
            msg_event_id := msg_event_id x, msg_timestamp_ns := msg_timestamp_ns x,
            msg_payload := msg_payload x \<rparr>,
      x\<lparr>msg_payload := left\<rparr>)"

definition message_eq :: "lap_com_message \<Rightarrow> lap_com_message \<Rightarrow> bool" where
  "message_eq a x \<longleftrightarrow>
     msg_service_id a = msg_service_id x \<and> msg_instance_id a = msg_instance_id x \<and>
     msg_event_id a = msg_event_id x \<and> msg_timestamp_ns a = msg_timestamp_ns x \<and>
     msg_payload a = msg_payload x"

definition message_neq :: "lap_com_message \<Rightarrow> lap_com_message \<Rightarrow> bool" where
  "message_neq a x \<longleftrightarrow> \<not> message_eq a x"

text \<open>The setters; the getters are the selectors of the record.\<close>

definition set_service_id :: "u64 \<Rightarrow> lap_com_message \<Rightarrow> lap_com_message" where
  "set_service_id v m = m\<lparr>msg_service_id := v\<rparr>"

definition set_instance_id :: "u64 \<Rightarrow> lap_com_message \<Rightarrow> lap_com_message" where
  "set_instance_id v m = m\<lparr>msg_instance_id := v\<rparr>"

definition set_event_id :: "u32 \<Rightarrow> lap_com_message \<Rightarrow> lap_com_message" where
  "set_event_id v m = m\<lparr>msg_event_id := v\<rparr>"

definition set_timestamp_ns :: "u64 \<Rightarrow> lap_com_message \<Rightarrow> lap_com_message" where
  "set_timestamp_ns v m = m\<lparr>msg_timestamp_ns := v\<rparr>"

definition set_payload :: "u8 list \<Rightarrow> lap_com_message \<Rightarrow> lap_com_message" where
  "set_payload v m = m\<lparr>msg_payload := v\<rparr>"

definition set_payload_move :: "u8 list \<Rightarrow> u8 list \<Rightarrow> lap_com_message \<Rightarrow> lap_com_message \<times> u8 list" where
  "set_payload_move left v m = (m\<lparr>msg_payload := v\<rparr>, left)"

definition getMaxCdrSerializedSize :: "'s cdr_lib \<Rightarrow> u64 \<Rightarrow> u64" where
  "getMaxCdrSerializedSize C initial_alignment =
     (let a1 = initial_alignment + (8 + cdr_alignment C initial_alignment 8);
          a2 = a1 + (8 + cdr_alignment C a1 8);
          a3 = a2 + (4 + cdr_alignment C a2 4);
          a4 = a3 + (8 + cdr_alignment C a3 8);
          a5 = a4 + (4 + cdr_alignment C a4 4);
          a6 = a5 + (100 * 1 + cdr_alignment C a5 1)
      in a6 - initial_alignment)"

definition getCdrSerializedSize :: "'s cdr_lib \<Rightarrow> lap_com_message \<Rightarrow> u64 \<Rightarrow> u64" where
  "getCdrSerializedSize C data initial_alignment =
     (let a1 = initial_alignment + (8 + cdr_alignment C initial_alignment 8);
          a2 = a1 + (8 + cdr_alignment C a1 8);
          a3 = a2 + (4 + cdr_alignment C a2 4);
          a4 = a3 + (8 + cdr_alignment C a3 8);
          a5 = a4 + (4 + cdr_alignment C a4 4);
          a6 = (if 0 < length (msg_payload data)
                then a5 + (of_nat (length (msg_payload data)) * 1 + cdr_alignment C a5 1) else a5)
      in a6 - initial_alignment)"

definition LapComMessage_serialize :: "'s cdr_lib \<Rightarrow> lap_com_message \<Rightarrow> 's cdr_op" where
  "LapComMessage_serialize C m =
     cdr_then (cdr_put_u64 C (msg_service_id m))
    (cdr_then (cdr_put_u64 C (msg_instance_id m))
    (cdr_then (cdr_put_u32 C (msg_event_id m))
    (cdr_then (cdr_put_u64 C (msg_timestamp_ns m))
              (cdr_put_octets C (msg_payload m)))))"

text \<open>Reading a member of the message; the members read before an exception keep their new value.\<close>

definition cdr_member ::
  "('a \<Rightarrow> 's \<Rightarrow> cdr_exception option \<times> 'a \<times> 's) \<Rightarrow> (lap_com_message \<Rightarrow> 'a) \<Rightarrow>
   ('a \<Rightarrow> lap_com_message \<Rightarrow> lap_com_message) \<Rightarrow> (lap_com_message \<times> 's) cdr_op" where
  "cdr_member get sel upd p = (case get (sel (fst p)) (snd p) of (x, v, s1) \<Rightarrow> (x, upd v (fst p), s1))"

definition LapComMessage_deserialize :: "'s cdr_lib \<Rightarrow> (lap_com_message \<times> 's) cdr_op" where
  "LapComMessage_deserialize C =
     cdr_then (cdr_member (cdr_get_u64 C) msg_service_id set_service_id)
    (cdr_then (cdr_member (cdr_get_u64 C) msg_instance_id set_instance_id)
    (cdr_then (cdr_member (cdr_get_u32 C) msg_event_id set_event_id)
    (cdr_then (cdr_member (cdr_get_u64 C) msg_timestamp_ns set_timestamp_ns)
              (cdr_member (cdr_get_octets C) msg_payload set_payload))))"

definition getKeyMaxCdrSerializedSize :: "u64 \<Rightarrow> u64" where
  "getKeyMaxCdrSerializedSize current_alignment = current_alignment"

definition isKeyDefined :: bool where
  "isKeyDefined = False"

definition serializeKey :: "lap_com_message \<Rightarrow> 's cdr_op" where
  "serializeKey m s = (None, s)"

subsection \<open>LapComMessagePubSubType\<close>

datatype encapsulation = CDR_BE | CDR_LE

text \<open>The payload of a sample: a buffer of \<open>pl_max_size\<close> bytes, of which \<open>pl_length\<close> are used.\<close>

record serialized_payload =
  pl_data :: "u8 list"
  pl_length :: u32
  pl_max_size :: u32
  pl_encapsulation :: encapsulation

record pubsub_type =
  ty_name :: string
  ty_size :: u32
  ty_key_defined :: bool
  ty_key_buffer :: "u8 list"

definition pubsub_type_new :: "'s cdr_lib \<Rightarrow> pubsub_type" where
  "pubsub_type_new C =
     (let n = getMaxCdrSerializedSize C 0;
          type_size = n + cdr_alignment C n 4;
          keyLength = (if 16 < getKeyMaxCdrSerializedSize 0 then getKeyMaxCdrSerializedSize 0 else 16)
      in \<lparr> ty_name = ''lap::com::binding::LapComMessage'', ty_size = ucast type_size + 4,
           ty_key_defined = isKeyDefined, ty_key_buffer = replicate (unat keyLength) 0 \<rparr>)"

definition encapsulation_of :: "'s cdr_lib \<Rightarrow> 's \<Rightarrow> encapsulation" where
  "encapsulation_of C s = (if cdr_big_endian C s then CDR_BE else CDR_LE)"

text \<open>\<open>Inl\<close> is an exception that leaves the function: the encapsulation is written outside the try
  block.\<close>

definition type_serialize ::
  "'s cdr_lib \<Rightarrow> lap_com_message \<Rightarrow> serialized_payload \<Rightarrow> cdr_exception + bool \<times> serialized_payload" where
  "type_serialize C m p =
     (let s0 = cdr_open C (take (unat (pl_max_size p)) (pl_data p));
          p0 = p\<lparr>pl_encapsulation := encapsulation_of C s0\<rparr>
      in case cdr_serialize_encapsulation C s0 of
           (Some x, s1) \<Rightarrow> Inl x
         | (None, s1) \<Rightarrow>
             (case LapComMessage_serialize C m s1 of
                (Some NotEnoughMemoryException, s2) \<Rightarrow> Inr (False, p0\<lparr>pl_data := cdr_buffer C s2\<rparr>)
              | (Some x, s2) \<Rightarrow> Inl x
              | (None, s2) \<Rightarrow>
                  Inr (True, p0\<lparr>pl_data := cdr_buffer C s2, pl_length := ucast (cdr_length C s2)\<rparr>)))"

text \<open>The message \<open>m\<close> is the sample read into.\<close>

definition type_deserialize ::
  "'s cdr_lib \<Rightarrow> serialized_payload \<Rightarrow> lap_com_message \<Rightarrow>
   cdr_exception + bool \<times> serialized_payload \<times> lap_com_message" where
  "type_deserialize C p m =
     (case cdr_read_encapsulation C (cdr_open C (take (unat (pl_length p)) (pl_data p))) of
        (Some NotEnoughMemoryException, s1) \<Rightarrow> Inr (False, p, m)
      | (Some x, s1) \<Rightarrow> Inl x
      | (None, s1) \<Rightarrow>
          let p1 = p\<lparr>pl_encapsulation := encapsulation_of C s1\<rparr>
          in case LapComMessage_deserialize C (m, s1) of
               (Some NotEnoughMemoryException, m2, s2) \<Rightarrow> Inr (False, p1, m2)
             | (Some x, m2, s2) \<Rightarrow> Inl x
             | (None, m2, s2) \<Rightarrow> Inr (True, p1, m2))"

definition serialized_size :: "'s cdr_lib \<Rightarrow> lap_com_message \<Rightarrow> u32" where
  "serialized_size C m = ucast (getCdrSerializedSize C m 0) + 4"

text \<open>The key: whether there is one, the handle (16 octets) and the key buffer after the call.  The
  digest is that of \<open>MD5\<close>, which the library provides.\<close>

definition type_getKey ::
  "'s cdr_lib \<Rightarrow> (u8 list \<Rightarrow> u8 list) \<Rightarrow> pubsub_type \<Rightarrow> lap_com_message \<Rightarrow> u8 list \<Rightarrow> bool \<Rightarrow>
   cdr_exception + bool \<times> u8 list \<times> pubsub_type" where
  "type_getKey C md5 ty m handle force_md5 =
     (if \<not> ty_key_defined ty then Inr (False, handle, ty)
      else
        let n = unat (getKeyMaxCdrSerializedSize 0)
        in case serializeKey m (cdr_open_big_endian C (take n (ty_key_buffer ty))) of
             (Some x, s1) \<Rightarrow> Inl x
           | (None, s1) \<Rightarrow>
               let buf = cdr_buffer C s1 @ drop n (ty_key_buffer ty);
                   value = (if force_md5 \<or> 16 < getKeyMaxCdrSerializedSize 0
                            then md5 (take (unat (cdr_length C s1)) buf) else buf)
               in Inr (True, map (\<lambda>i. value ! i) [0..<16], ty\<lparr>ty_key_buffer := buf\<rparr>))"

subsection \<open>What the code relies on\<close>

text \<open>A view of a stream: the octets before its position, those after it, and how the library
  represents integers and the encapsulation header.\<close>

record 's cdr_view =
  cdr_seen :: "'s \<Rightarrow> u8 list"
  cdr_rest :: "'s \<Rightarrow> u8 list"
  enc_header :: "u8 list"
  enc_u64 :: "u64 \<Rightarrow> u8 list"
  enc_u32 :: "u32 \<Rightarrow> u8 list"

definition enc_octets :: "'s cdr_view \<Rightarrow> u8 list \<Rightarrow> u8 list" where
  "enc_octets V d = enc_u32 V (of_nat (length d)) @ d"

text \<open>Alignment counts from the end of the header, which has four octets.\<close>

definition cdr_pad :: "'s cdr_lib \<Rightarrow> 's cdr_view \<Rightarrow> u64 \<Rightarrow> 's \<Rightarrow> nat" where
  "cdr_pad C V k s = unat (cdr_alignment C (of_nat (length (cdr_seen V s) - 4)) k)"

definition puts_law ::
  "'s cdr_lib \<Rightarrow> 's cdr_view \<Rightarrow> u64 \<Rightarrow> ('a \<Rightarrow> bool) \<Rightarrow> ('a \<Rightarrow> u8 list) \<Rightarrow> ('a \<Rightarrow> 's cdr_op) \<Rightarrow> bool" where
  "puts_law C V k ok enc put \<longleftrightarrow>
     (\<forall>v s. ok v \<and> 4 \<le> length (cdr_seen V s) \<longrightarrow>
        (if cdr_pad C V k s + length (enc v) \<le> length (cdr_rest V s)
         then \<exists>q s1. put v s = (None, s1) \<and> length q = cdr_pad C V k s \<and>
                cdr_seen V s1 = cdr_seen V s @ q @ enc v \<and>
                cdr_rest V s1 = drop (cdr_pad C V k s + length (enc v)) (cdr_rest V s)
         else fst (put v s) = Some NotEnoughMemoryException))"

definition gets_law ::
  "'s cdr_lib \<Rightarrow> 's cdr_view \<Rightarrow> u64 \<Rightarrow> ('a \<Rightarrow> bool) \<Rightarrow> ('a \<Rightarrow> u8 list) \<Rightarrow>
   ('a \<Rightarrow> 's \<Rightarrow> cdr_exception option \<times> 'a \<times> 's) \<Rightarrow> bool" where
  "gets_law C V k ok enc get \<longleftrightarrow>
     (\<forall>v s q r old. ok v \<and> 4 \<le> length (cdr_seen V s) \<and> length q = cdr_pad C V k s \<and>
        cdr_rest V s = q @ enc v @ r \<longrightarrow>
        (\<exists>s1. get old s = (None, v, s1) \<and> cdr_seen V s1 = cdr_seen V s @ q @ enc v \<and> cdr_rest V s1 = r))"

definition fits_u32 :: "u8 list \<Rightarrow> bool" where
  "fits_u32 d \<longleftrightarrow> length d < 2 ^ 32"

definition cdr_laws :: "'s cdr_lib \<Rightarrow> 's cdr_view \<Rightarrow> bool" where
  "cdr_laws C V \<longleftrightarrow>
     (\<forall>n. \<forall>k\<in>{1, 4, 8}. cdr_alignment C n k = (k - n mod k) mod k) \<and>
     (\<forall>bs. cdr_seen V (cdr_open C bs) = [] \<and> cdr_rest V (cdr_open C bs) = bs) \<and>
     (\<forall>s. cdr_length C s = of_nat (length (cdr_seen V s)) \<and>
        cdr_buffer C s = cdr_seen V s @ cdr_rest V s) \<and>
     length (enc_header V) = 4 \<and> (\<forall>v. length (enc_u64 V v) = 8) \<and> (\<forall>v. length (enc_u32 V v) = 4) \<and>
     (\<forall>s. cdr_seen V s = [] \<and> 4 \<le> length (cdr_rest V s) \<longrightarrow>
        (\<exists>s1. cdr_serialize_encapsulation C s = (None, s1) \<and> cdr_seen V s1 = enc_header V \<and>
           cdr_rest V s1 = drop 4 (cdr_rest V s))) \<and>
     (\<forall>s r. cdr_seen V s = [] \<and> cdr_rest V s = enc_header V @ r \<longrightarrow>
        (\<exists>s1. cdr_read_encapsulation C s = (None, s1) \<and> cdr_seen V s1 = enc_header V \<and>
           cdr_rest V s1 = r)) \<and>
     puts_law C V 8 (\<lambda>_. True) (enc_u64 V) (cdr_put_u64 C) \<and>
     puts_law C V 4 (\<lambda>_. True) (enc_u32 V) (cdr_put_u32 C) \<and>
     puts_law C V 4 fits_u32 (enc_octets V) (cdr_put_octets C) \<and>
     gets_law C V 8 (\<lambda>_. True) (enc_u64 V) (cdr_get_u64 C) \<and>
     gets_law C V 4 (\<lambda>_. True) (enc_u32 V) (cdr_get_u32 C) \<and>
     gets_law C V 4 fits_u32 (enc_octets V) (cdr_get_octets C)"

text \<open>A library that satisfies it: a stream is the octets before and after its position, integers
  are big endian, a read past the end throws.\<close>

type_synonym octet_stream = "u8 list \<times> u8 list"

definition demo_alignment :: "u64 \<Rightarrow> u64 \<Rightarrow> u64" where
  "demo_alignment n k = (k - n mod k) mod k"

definition demo_put :: "u64 \<Rightarrow> ('a \<Rightarrow> u8 list) \<Rightarrow> 'a \<Rightarrow> octet_stream cdr_op" where
  "demo_put k enc v s =
     (let p = unat (demo_alignment (of_nat (length (fst s) - 4)) k); n = p + length (enc v)
      in if n \<le> length (snd s) then (None, fst s @ take p (snd s) @ enc v, drop n (snd s))
         else (Some NotEnoughMemoryException, s))"

definition demo_get ::
  "u64 \<Rightarrow> nat \<Rightarrow> (u8 list \<Rightarrow> 'a) \<Rightarrow> 'a \<Rightarrow> octet_stream \<Rightarrow> cdr_exception option \<times> 'a \<times> octet_stream" where
  "demo_get k n dec old s =
     (let p = unat (demo_alignment (of_nat (length (fst s) - 4)) k)
      in if p + n \<le> length (snd s)
         then (None, dec (take n (drop p (snd s))), fst s @ take (p + n) (snd s), drop (p + n) (snd s))
         else (Some NotEnoughMemoryException, old, s))"

definition demo_get_octets ::
  "u8 list \<Rightarrow> octet_stream \<Rightarrow> cdr_exception option \<times> u8 list \<times> octet_stream" where
  "demo_get_octets old s =
     (case demo_get 4 4 (bytes_int kBigEndian 4 :: u8 list \<Rightarrow> u32) 0 s of
        (Some x, n, s1) \<Rightarrow> (Some x, old, s)
      | (None, n, s1) \<Rightarrow>
          if unat n \<le> length (snd s1)
          then (None, take (unat n) (snd s1), fst s1 @ take (unat n) (snd s1), drop (unat n) (snd s1))
          else (Some NotEnoughMemoryException, old, s))"

definition demo_header :: "u8 list" where
  "demo_header = [0, 0, 0, 0]"

definition demo_enc_octets :: "u8 list \<Rightarrow> u8 list" where
  "demo_enc_octets d = int_bytes kBigEndian 4 (of_nat (length d) :: u32) @ d"

definition demo_cdr :: "octet_stream cdr_lib" where
  "demo_cdr =
     \<lparr> cdr_alignment = demo_alignment, cdr_open = Pair [], cdr_open_big_endian = Pair [],
       cdr_serialize_encapsulation =
         (\<lambda>s. if 4 \<le> length (snd s) then (None, fst s @ demo_header, drop 4 (snd s))
              else (Some NotEnoughMemoryException, s)),
       cdr_read_encapsulation =
         (\<lambda>s. if 4 \<le> length (snd s) then (None, fst s @ take 4 (snd s), drop 4 (snd s))
              else (Some NotEnoughMemoryException, s)),
       cdr_big_endian = (\<lambda>s. True),
       cdr_put_u64 = demo_put 8 (int_bytes kBigEndian 8),
       cdr_put_u32 = demo_put 4 (int_bytes kBigEndian 4),
       cdr_put_octets = demo_put 4 demo_enc_octets,
       cdr_get_u64 = demo_get 8 8 (bytes_int kBigEndian 8),
       cdr_get_u32 = demo_get 4 4 (bytes_int kBigEndian 4),
       cdr_get_octets = demo_get_octets,
       cdr_length = (\<lambda>s. of_nat (length (fst s))), cdr_buffer = (\<lambda>s. fst s @ snd s) \<rparr>"

definition demo_view :: "octet_stream cdr_view" where
  "demo_view =
     \<lparr> cdr_seen = fst, cdr_rest = snd, enc_header = demo_header,
       enc_u64 = int_bytes kBigEndian 8, enc_u32 = int_bytes kBigEndian 4 \<rparr>"

lemma demo_puts:
  assumes "enc = enc'"
  shows "puts_law demo_cdr demo_view k ok enc (demo_put k enc')"
  using assms
  by (auto simp: puts_law_def demo_put_def cdr_pad_def demo_cdr_def demo_view_def Let_def)

lemma demo_gets:
  assumes "\<And>v. dec (enc v) = v" "\<And>v. length (enc v) = n"
  shows "gets_law demo_cdr demo_view k (\<lambda>_. True) enc (demo_get k n dec)"
  using assms
  by (auto simp: gets_law_def demo_get_def cdr_pad_def demo_cdr_def demo_view_def Let_def)

lemma demo_gets_octets:
  "gets_law demo_cdr demo_view 4 fits_u32 (enc_octets demo_view) demo_get_octets"
proof -
  have "unat (of_nat (length d) :: u32) = length d" if "fits_u32 d" for d :: "u8 list"
    using that by (simp add: fits_u32_def unat_of_nat)
  moreover have "bytes_int kBigEndian 4 (int_bytes kBigEndian 4 v) = v" for v :: u32
    by (rule bytes_int_bytes) simp_all
  ultimately show ?thesis
    by (auto simp: gets_law_def demo_get_octets_def demo_get_def cdr_pad_def demo_cdr_def demo_view_def
        Let_def enc_octets_def)
qed

lemma demo_cdr_laws: "cdr_laws demo_cdr demo_view"
proof -
  have sel: "cdr_put_u64 demo_cdr = demo_put 8 (int_bytes kBigEndian 8)"
    "cdr_put_u32 demo_cdr = demo_put 4 (int_bytes kBigEndian 4)"
    "cdr_put_octets demo_cdr = demo_put 4 demo_enc_octets"
    "cdr_get_u64 demo_cdr = demo_get 8 8 (bytes_int kBigEndian 8)"
    "cdr_get_u32 demo_cdr = demo_get 4 4 (bytes_int kBigEndian 4)"
    "cdr_get_octets demo_cdr = demo_get_octets"
    "enc_u64 demo_view = int_bytes kBigEndian 8" "enc_u32 demo_view = int_bytes kBigEndian 4"
    by (simp_all add: demo_cdr_def demo_view_def)
  have oct: "enc_octets demo_view = demo_enc_octets"
    by (rule ext) (simp add: enc_octets_def demo_enc_octets_def demo_view_def)
  have b8: "bytes_int kBigEndian 8 (int_bytes kBigEndian 8 v) = v" for v :: u64
    by (rule bytes_int_bytes) simp_all
  have b4: "bytes_int kBigEndian 4 (int_bytes kBigEndian 4 v) = v" for v :: u32
    by (rule bytes_int_bytes) simp_all
  show ?thesis
    unfolding cdr_laws_def sel oct
    by (intro conjI demo_puts demo_gets b8 b4 demo_gets_octets [unfolded oct] refl)
      (auto simp: demo_cdr_def demo_view_def demo_alignment_def demo_header_def)
qed

subsection \<open>Sizes\<close>

lemma alignment_law:
  "cdr_laws C V \<Longrightarrow> k \<in> {1, 4, 8} \<Longrightarrow> cdr_alignment C n k = (k - n mod k) mod k"
  by (simp only: cdr_laws_def)

lemma max_size: "cdr_laws C V \<Longrightarrow> getMaxCdrSerializedSize C 0 = 136"
  by (simp add: getMaxCdrSerializedSize_def Let_def alignment_law)

lemma type_size: "cdr_laws C V \<Longrightarrow> ty_size (pubsub_type_new C) = 140"
  by (simp add: pubsub_type_new_def Let_def max_size alignment_law)

lemma mod_1_word [simp]: "(n :: u64) mod 1 = 0"
  by simp

lemma data_size: "cdr_laws C V \<Longrightarrow> getCdrSerializedSize C m 0 = 36 + of_nat (length (msg_payload m))"
  by (simp add: getCdrSerializedSize_def Let_def alignment_law)

subsection \<open>Writing and reading a message\<close>

lemma put_ok:
  assumes "puts_law C V k ok enc put" "ok v" "length (cdr_seen V s) = 4 + n"
    "unat (cdr_alignment C (of_nat n) k) = p" "p + length (enc v) \<le> length (cdr_rest V s)"
  obtains q s1 where "put v s = (None, s1)" "length q = p" "cdr_seen V s1 = cdr_seen V s @ q @ enc v"
    "length (cdr_rest V s1) = length (cdr_rest V s) - p - length (enc v)"
proof -
  have "cdr_pad C V k s = p" using assms(3,4) by (simp add: cdr_pad_def)
  moreover have "4 \<le> length (cdr_seen V s)" using assms(3) by simp
  ultimately obtain q s1 where o: "put v s = (None, s1)" "length q = p"
      "cdr_seen V s1 = cdr_seen V s @ q @ enc v" "cdr_rest V s1 = drop (p + length (enc v)) (cdr_rest V s)"
    using assms(1,2,5) unfolding puts_law_def by (elim allE [of _ v] allE [of _ s]) auto
  show ?thesis
    by (rule that [OF o(1-3)]) (simp only: o(4) length_drop diff_diff_left)
qed

lemma put_fails:
  assumes "puts_law C V k ok enc put" "ok v" "length (cdr_seen V s) = 4 + n"
    "unat (cdr_alignment C (of_nat n) k) = p" "length (cdr_rest V s) < p + length (enc v)"
  shows "fst (put v s) = Some NotEnoughMemoryException"
proof -
  have "cdr_pad C V k s = p" using assms(3,4) by (simp add: cdr_pad_def)
  then show ?thesis
    using assms unfolding puts_law_def by auto
qed

lemma get_ok:
  assumes "gets_law C V k ok enc get" "ok v" "length (cdr_seen V s) = 4 + n"
    "unat (cdr_alignment C (of_nat n) k) = length q" "cdr_rest V s = q @ enc v @ r"
  obtains s1 where "get old s = (None, v, s1)" "cdr_seen V s1 = cdr_seen V s @ q @ enc v"
    "cdr_rest V s1 = r"
proof -
  have "length q = cdr_pad C V k s" "4 \<le> length (cdr_seen V s)"
    using assms(3,4) by (simp_all add: cdr_pad_def)
  then show ?thesis
    using assms(1,2,5) that unfolding gets_law_def by blast
qed

text \<open>The octets of a message after the header: five values, the first three without padding, four
  octets before the timestamp.\<close>

definition message_octets :: "'s cdr_view \<Rightarrow> u8 list \<Rightarrow> lap_com_message \<Rightarrow> u8 list" where
  "message_octets V q m =
     enc_u64 V (msg_service_id m) @ enc_u64 V (msg_instance_id m) @ enc_u32 V (msg_event_id m) @
     q @ enc_u64 V (msg_timestamp_ns m) @ enc_octets V (msg_payload m)"

lemma message_serialize:
  assumes laws: "cdr_laws C V" and s: "cdr_seen V s = enc_header V" "36 \<le> length (cdr_rest V s)"
    and fits: "fits_u32 (msg_payload m)"
  shows "\<exists>q s1. length q = 4 \<and> LapComMessage_serialize C m s =
      (if 36 + length (msg_payload m) \<le> length (cdr_rest V s) then None else Some NotEnoughMemoryException, s1) \<and>
    (36 + length (msg_payload m) \<le> length (cdr_rest V s) \<longrightarrow>
      cdr_seen V s1 = enc_header V @ message_octets V q m)"
proof -
  have p: "puts_law C V 8 (\<lambda>_. True) (enc_u64 V) (cdr_put_u64 C)"
    "puts_law C V 4 (\<lambda>_. True) (enc_u32 V) (cdr_put_u32 C)"
    "puts_law C V 4 fits_u32 (enc_octets V) (cdr_put_octets C)"
    and len: "length (enc_header V) = 4" "\<And>v. length (enc_u64 V v) = 8" "\<And>v. length (enc_u32 V v) = 4"
    using laws by (simp_all add: cdr_laws_def)
  note al = alignment_law [OF laws]
  obtain q1 s1 where s1: "cdr_put_u64 C (msg_service_id m) s = (None, s1)" "length q1 = 0"
      "cdr_seen V s1 = cdr_seen V s @ q1 @ enc_u64 V (msg_service_id m)"
      "length (cdr_rest V s1) = length (cdr_rest V s) - 0 - length (enc_u64 V (msg_service_id m))"
    by (rule put_ok [OF p(1), where v = "msg_service_id m" and s = s and n = 0 and p = 0])
      (use s len in \<open>simp_all add: al\<close>)
  obtain q2 s2 where s2: "cdr_put_u64 C (msg_instance_id m) s1 = (None, s2)" "length q2 = 0"
      "cdr_seen V s2 = cdr_seen V s1 @ q2 @ enc_u64 V (msg_instance_id m)"
      "length (cdr_rest V s2) = length (cdr_rest V s1) - 0 - length (enc_u64 V (msg_instance_id m))"
    by (rule put_ok [OF p(1), where v = "msg_instance_id m" and s = s1 and n = 8 and p = 0])
      (use s s1 len in \<open>simp_all add: al\<close>)
  obtain q3 s3 where s3: "cdr_put_u32 C (msg_event_id m) s2 = (None, s3)" "length q3 = 0"
      "cdr_seen V s3 = cdr_seen V s2 @ q3 @ enc_u32 V (msg_event_id m)"
      "length (cdr_rest V s3) = length (cdr_rest V s2) - 0 - length (enc_u32 V (msg_event_id m))"
    by (rule put_ok [OF p(2), where v = "msg_event_id m" and s = s2 and n = 16 and p = 0])
      (use s s1 s2 len in \<open>simp_all add: al\<close>)
  obtain q4 s4 where s4: "cdr_put_u64 C (msg_timestamp_ns m) s3 = (None, s4)" "length q4 = 4"
      "cdr_seen V s4 = cdr_seen V s3 @ q4 @ enc_u64 V (msg_timestamp_ns m)"
      "length (cdr_rest V s4) = length (cdr_rest V s3) - 4 - length (enc_u64 V (msg_timestamp_ns m))"
    by (rule put_ok [OF p(1), where v = "msg_timestamp_ns m" and s = s3 and n = 20 and p = 4])
      (use s s1 s2 s3 len in \<open>simp_all add: al\<close>)
  have seen: "length (cdr_seen V s4) = 4 + 32" "length (cdr_rest V s4) = length (cdr_rest V s) - 32"
    using s s1 s2 s3 s4 len by simp_all
  have oct: "length (enc_octets V (msg_payload m)) = 4 + length (msg_payload m)"
    by (simp add: enc_octets_def len)
  have run: "LapComMessage_serialize C m s = cdr_put_octets C (msg_payload m) s4"
    by (simp add: LapComMessage_serialize_def cdr_then_def s1 s2 s3 s4)
  show ?thesis
  proof (cases "36 + length (msg_payload m) \<le> length (cdr_rest V s)")
    case True
    obtain q5 s5 where s5: "cdr_put_octets C (msg_payload m) s4 = (None, s5)" "length q5 = 0"
        "cdr_seen V s5 = cdr_seen V s4 @ q5 @ enc_octets V (msg_payload m)"
      by (rule put_ok [OF p(3) fits seen(1), where p = 0])
      (use True seen oct in \<open>simp_all add: al\<close>)
    then have "cdr_seen V s5 = enc_header V @ message_octets V q4 m"
      using s s1 s2 s3 s4 by (simp add: message_octets_def)
    then show ?thesis
      using True run s5(1) s4(2) by (intro exI [of _ q4] exI [of _ s5]) simp
  next
    case False
    have "fst (cdr_put_octets C (msg_payload m) s4) = Some NotEnoughMemoryException"
      by (rule put_fails [OF p(3) fits seen(1), where p = 0])
      (use False seen oct s in \<open>simp_all add: al\<close>)
    then show ?thesis
      using False run s4(2) by (intro exI [of _ q4] exI [of _ "snd (cdr_put_octets C (msg_payload m) s4)"])
        (simp add: prod_eq_iff)
  qed
qed

lemma message_deserialize:
  assumes laws: "cdr_laws C V" and s: "cdr_seen V s = enc_header V" "cdr_rest V s = message_octets V q m @ r"
    and q: "length q = 4" and fits: "fits_u32 (msg_payload m)"
  shows "\<exists>s1. LapComMessage_deserialize C (m0, s) = (None, m, s1)"
proof -
  have g: "gets_law C V 8 (\<lambda>_. True) (enc_u64 V) (cdr_get_u64 C)"
    "gets_law C V 4 (\<lambda>_. True) (enc_u32 V) (cdr_get_u32 C)"
    "gets_law C V 4 fits_u32 (enc_octets V) (cdr_get_octets C)"
    and len: "length (enc_header V) = 4" "\<And>v. length (enc_u64 V v) = 8" "\<And>v. length (enc_u32 V v) = 4"
    using laws by (simp_all add: cdr_laws_def)
  note al = alignment_law [OF laws]
  let ?r4 = "enc_octets V (msg_payload m) @ r"
  let ?r3 = "q @ enc_u64 V (msg_timestamp_ns m) @ ?r4"
  let ?r2 = "enc_u32 V (msg_event_id m) @ ?r3"
  let ?r1 = "enc_u64 V (msg_instance_id m) @ ?r2"
  obtain s1 where s1: "cdr_get_u64 C (msg_service_id m0) s = (None, msg_service_id m, s1)"
      "cdr_seen V s1 = cdr_seen V s @ [] @ enc_u64 V (msg_service_id m)" "cdr_rest V s1 = ?r1"
    by (rule get_ok [OF g(1), where v = "msg_service_id m" and s = s and n = 0 and q = "[]" and r = ?r1])
      (use s len in \<open>simp_all add: al message_octets_def\<close>)
  obtain s2 where s2: "cdr_get_u64 C (msg_instance_id m0) s1 = (None, msg_instance_id m, s2)"
      "cdr_seen V s2 = cdr_seen V s1 @ [] @ enc_u64 V (msg_instance_id m)" "cdr_rest V s2 = ?r2"
    by (rule get_ok [OF g(1), where v = "msg_instance_id m" and s = s1 and n = 8 and q = "[]" and r = ?r2])
      (use s s1 len in \<open>simp_all add: al\<close>)
  obtain s3 where s3: "cdr_get_u32 C (msg_event_id m0) s2 = (None, msg_event_id m, s3)"
      "cdr_seen V s3 = cdr_seen V s2 @ [] @ enc_u32 V (msg_event_id m)" "cdr_rest V s3 = ?r3"
    by (rule get_ok [OF g(2), where v = "msg_event_id m" and s = s2 and n = 16 and q = "[]" and r = ?r3])
      (use s s1 s2 len in \<open>simp_all add: al\<close>)
  obtain s4 where s4: "cdr_get_u64 C (msg_timestamp_ns m0) s3 = (None, msg_timestamp_ns m, s4)"
      "cdr_seen V s4 = cdr_seen V s3 @ q @ enc_u64 V (msg_timestamp_ns m)" "cdr_rest V s4 = ?r4"
    by (rule get_ok [OF g(1), where v = "msg_timestamp_ns m" and s = s3 and n = 20 and q = q and r = ?r4])
      (use s s1 s2 s3 len q in \<open>simp_all add: al\<close>)
  obtain s5 where s5: "cdr_get_octets C (msg_payload m0) s4 = (None, msg_payload m, s5)"
    by (rule get_ok [OF g(3) fits, where s = s4 and n = 32 and q = "[]" and r = r])
      (use s s1 s2 s3 s4 len q in \<open>simp_all add: al\<close>)
  show ?thesis
    by (simp add: LapComMessage_deserialize_def cdr_then_def cdr_member_def s1 s2 s3 s4 s5
        set_service_id_def set_instance_id_def set_event_id_def set_timestamp_ns_def set_payload_def)
qed

subsection \<open>Samples\<close>

lemma length_message_octets:
  assumes "cdr_laws C V" "length q = 4"
  shows "length (message_octets V q m) = 36 + length (msg_payload m)"
  using assms by (simp add: message_octets_def enc_octets_def cdr_laws_def)

lemma u64_u32_of_nat: "ucast (of_nat n :: u64) = (of_nat n :: u32)"
  by (rule bit_word_eqI) (simp add: bit_simps)

lemma unat_u32: "n < 2 ^ 32 \<Longrightarrow> unat (of_nat n :: u32) = n"
  by (simp add: unat_of_nat)

lemma header_written:
  assumes "cdr_laws C V" "cdr_seen V s = []" "4 \<le> length (cdr_rest V s)"
  shows "\<exists>s1. cdr_serialize_encapsulation C s = (None, s1) \<and> cdr_seen V s1 = enc_header V \<and>
    cdr_rest V s1 = drop 4 (cdr_rest V s)"
proof -
  have "\<forall>s. cdr_seen V s = [] \<and> 4 \<le> length (cdr_rest V s) \<longrightarrow>
      (\<exists>s1. cdr_serialize_encapsulation C s = (None, s1) \<and> cdr_seen V s1 = enc_header V \<and>
         cdr_rest V s1 = drop 4 (cdr_rest V s))"
    using assms(1) unfolding cdr_laws_def by (elim conjE)
  then show ?thesis using assms(2,3) by blast
qed

lemma header_read:
  assumes "cdr_laws C V" "cdr_seen V s = []" "cdr_rest V s = enc_header V @ r"
  shows "\<exists>s1. cdr_read_encapsulation C s = (None, s1) \<and> cdr_seen V s1 = enc_header V \<and>
    cdr_rest V s1 = r"
proof -
  have "\<forall>s r. cdr_seen V s = [] \<and> cdr_rest V s = enc_header V @ r \<longrightarrow>
      (\<exists>s1. cdr_read_encapsulation C s = (None, s1) \<and> cdr_seen V s1 = enc_header V \<and>
         cdr_rest V s1 = r)"
    using assms(1) unfolding cdr_laws_def by (elim conjE)
  then show ?thesis using assms(2,3) by blast
qed

lemma type_serialize_iff:
  assumes laws: "cdr_laws C V" and buf: "length (pl_data p) = unat (pl_max_size p)" "40 \<le> unat (pl_max_size p)"
    and fits: "fits_u32 (msg_payload m)"
  shows "\<exists>p1. type_serialize C m p = Inr (40 + length (msg_payload m) \<le> unat (pl_max_size p), p1) \<and>
    (40 + length (msg_payload m) \<le> unat (pl_max_size p) \<longrightarrow>
      unat (pl_length p1) = 40 + length (msg_payload m) \<and>
      (\<exists>q. length q = 4 \<and> take (unat (pl_length p1)) (pl_data p1) = enc_header V @ message_octets V q m))"
proof -
  let ?s0 = "cdr_open C (take (unat (pl_max_size p)) (pl_data p))"
  have s0: "cdr_seen V ?s0 = []" "length (cdr_rest V ?s0) = unat (pl_max_size p)"
    using laws buf(1) by (simp_all add: cdr_laws_def)
  then obtain s1 where s1: "cdr_serialize_encapsulation C ?s0 = (None, s1)"
      "cdr_seen V s1 = enc_header V" "length (cdr_rest V s1) = unat (pl_max_size p) - 4"
    using header_written [OF laws s0(1)] buf(2) by auto
  have le: "36 + length (msg_payload m) \<le> length (cdr_rest V s1) \<longleftrightarrow>
      40 + length (msg_payload m) \<le> unat (pl_max_size p)"
    using s1(3) buf(2) by auto
  have "36 \<le> length (cdr_rest V s1)" using s1(3) buf(2) by simp
  then obtain q s2 where s2: "length q = 4" "LapComMessage_serialize C m s1 =
      (if 40 + length (msg_payload m) \<le> unat (pl_max_size p) then None else Some NotEnoughMemoryException, s2)"
      "40 + length (msg_payload m) \<le> unat (pl_max_size p) \<Longrightarrow>
        cdr_seen V s2 = enc_header V @ message_octets V q m"
    using message_serialize [OF laws s1(2) _ fits] unfolding le by blast
  show ?thesis
  proof (cases "40 + length (msg_payload m) \<le> unat (pl_max_size p)")
    case True
    have seen: "cdr_seen V s2 = enc_header V @ message_octets V q m" by (rule s2(3) [OF True])
    have n: "length (cdr_seen V s2) = 40 + length (msg_payload m)"
      using laws s2(1) by (simp add: seen length_message_octets) (simp add: cdr_laws_def)
    have len: "cdr_length C s2 = of_nat (40 + length (msg_payload m))"
      and buffer: "cdr_buffer C s2 = cdr_seen V s2 @ cdr_rest V s2"
      using laws n by (simp_all add: cdr_laws_def)
    have "unat (pl_max_size p) < 2 ^ 32" using unsigned_less [of "pl_max_size p", where 'a = nat] by simp
    then have u: "unat (ucast (cdr_length C s2) :: u32) = 40 + length (msg_payload m)"
      using True unfolding len u64_u32_of_nat by (intro unat_u32) simp
    show ?thesis
      using True s1(1) s2(1,2) u seen n buffer by (auto simp: type_serialize_def Let_def)
  next
    case False
    then show ?thesis
      using s1(1) s2(2) by (simp add: type_serialize_def Let_def)
  qed
qed

lemma type_deserialize_octets:
  assumes laws: "cdr_laws C V" and q: "length q = 4" and fits: "fits_u32 (msg_payload m)"
    and data: "take (unat (pl_length p)) (pl_data p) = enc_header V @ message_octets V q m"
  shows "\<exists>p1. type_deserialize C p m0 = Inr (True, p1, m)"
proof -
  let ?s0 = "cdr_open C (take (unat (pl_length p)) (pl_data p))"
  have s0: "cdr_seen V ?s0 = []" "cdr_rest V ?s0 = enc_header V @ message_octets V q m"
    using laws by (simp_all add: data cdr_laws_def)
  then obtain s1 where s1: "cdr_read_encapsulation C ?s0 = (None, s1)"
      "cdr_seen V s1 = enc_header V" "cdr_rest V s1 = message_octets V q m"
    using header_read [OF laws s0] by auto
  obtain s2 where "LapComMessage_deserialize C (m0, s1) = (None, m, s2)"
    using message_deserialize [OF laws s1(2) _ q fits, of "[]" m0] s1(3) by auto
  then show ?thesis
    using s1(1) by (simp add: type_deserialize_def Let_def)
qed

text \<open>The size announced for a sample is the number of octets it takes.\<close>

lemma serialized_size_exact:
  assumes "cdr_laws C V" "40 + length (msg_payload m) < 2 ^ 32"
  shows "unat (serialized_size C m) = 40 + length (msg_payload m)"
proof -
  have size: "getCdrSerializedSize C m 0 = of_nat (36 + length (msg_payload m))"
    using data_size [OF assms(1)] by simp
  have "serialized_size C m = of_nat (40 + length (msg_payload m))"
    unfolding serialized_size_def size u64_u32_of_nat by simp
  then show ?thesis
    by (simp only: unat_u32 [OF assms(2)])
qed

text \<open>Assignments and comparisons are those of the record.\<close>

lemma message_simps [simp]:
  "message_copy x = x" "message_assign this x = x" "fst (message_move left x) = x"
  "fst (message_move_assign left this x) = x" "message_eq x y \<longleftrightarrow> x = y" "message_neq x y \<longleftrightarrow> x \<noteq> y"
  by (simp_all add: message_copy_def message_assign_def message_move_def message_move_assign_def
      message_eq_def message_neq_def) (auto intro: lap_com_message.equality)

lemma no_key: "type_getKey C md5 (pubsub_type_new C) m handle force = Inr (False, handle, pubsub_type_new C)"
  by (simp add: type_getKey_def pubsub_type_new_def isKeyDefined_def Let_def)

subsection \<open>Properties\<close>

text \<open>A sent event is the last write of the binding.\<close>

lemma sent_event_written:
  assumes "dds_SendEvent e s i v data b = Some (Ok (), b1)"
  shows "\<exists>w. last (dds_trace b1) = WriteMessage w
    \<lparr> msg_service_id = s, msg_instance_id = i, msg_event_id = v, msg_timestamp_ns = denv_now e, msg_payload = data \<rparr>"
  using assms
  by (auto simp: dds_SendEvent_def dds_emit_def Let_def split: option.splits if_splits)


definition demo_payload :: serialized_payload where
  "demo_payload =
     \<lparr> pl_data = replicate 140 0, pl_length = 0, pl_max_size = 140, pl_encapsulation = CDR_LE \<rparr>"


end
