(* ===== verification/SomeIp.thy ===== *)
theory SomeIp
  imports Locks
begin

text \<open>
  binding/someip: the connection manager and the method caller over vsomeip and CommonAPI, which are
  not part of the repository.  What their calls return or throw is an argument.  The headers name
  enumerators of \<open>ComErrc\<close> that it does not have (\<open>NotInitialized\<close> for \<open>kNotInitialized\<close> and so on);
  \<open>someip_errc\<close> are the enumerators as the headers write them.
\<close>

subsection \<open>Errors and call status\<close>

datatype someip_errc =
    InitializationFailed
  | NotInitialized
  | ConnectionFailed
  | Disconnected
  | Timeout
  | InternalError
  | OutOfMemory
  | NotAvailable
  | RemoteError
  | AlreadyExists
  | NotFound
  | InvalidParameter
  | RegistrationFailed
  | SubscriptionFailed
  | Unknown

type_synonym 'a someip_result = "someip_errc + 'a"

text \<open>The enumerators of \<open>CommonAPI::CallStatus\<close> the code names; any other value is \<open>STATUS_OTHER\<close>.\<close>

datatype call_status =
    STATUS_SUCCESS
  | STATUS_OUT_OF_MEMORY
  | STATUS_NOT_AVAILABLE
  | STATUS_CONNECTION_FAILED
  | STATUS_REMOTE_ERROR
  | STATUS_UNKNOWN
  | STATUS_SUBSCRIPTION_REFUSED
  | STATUS_OTHER nat

fun ConvertCallStatus :: "call_status \<Rightarrow> 'v \<Rightarrow> 'v someip_result" where
  "ConvertCallStatus STATUS_SUCCESS v = Inr v"
| "ConvertCallStatus STATUS_OUT_OF_MEMORY v = Inl OutOfMemory"
| "ConvertCallStatus STATUS_NOT_AVAILABLE v = Inl NotAvailable"
| "ConvertCallStatus STATUS_CONNECTION_FAILED v = Inl ConnectionFailed"
| "ConvertCallStatus STATUS_REMOTE_ERROR v = Inl RemoteError"
| "ConvertCallStatus _ v = Inl InternalError"

fun ConvertCallStatusVoid :: "call_status \<Rightarrow> unit someip_result" where
  "ConvertCallStatusVoid STATUS_SUCCESS = Inr ()"
| "ConvertCallStatusVoid STATUS_OUT_OF_MEMORY = Inl OutOfMemory"
| "ConvertCallStatusVoid STATUS_NOT_AVAILABLE = Inl NotAvailable"
| "ConvertCallStatusVoid STATUS_CONNECTION_FAILED = Inl ConnectionFailed"
| "ConvertCallStatusVoid STATUS_REMOTE_ERROR = Inl RemoteError"
| "ConvertCallStatusVoid _ = Inl InternalError"

text \<open>The conversions of the field accessor, called when the status is not SUCCESS.\<close>

fun ConvertCallStatusForGet :: "call_status \<Rightarrow> 'v someip_result" where
  "ConvertCallStatusForGet STATUS_OUT_OF_MEMORY = Inl OutOfMemory"
| "ConvertCallStatusForGet STATUS_NOT_AVAILABLE = Inl NotAvailable"
| "ConvertCallStatusForGet STATUS_CONNECTION_FAILED = Inl ConnectionFailed"
| "ConvertCallStatusForGet STATUS_REMOTE_ERROR = Inl RemoteError"
| "ConvertCallStatusForGet _ = Inl InternalError"

fun ConvertCallStatusForSet :: "call_status \<Rightarrow> unit someip_result" where
  "ConvertCallStatusForSet STATUS_OUT_OF_MEMORY = Inl OutOfMemory"
| "ConvertCallStatusForSet STATUS_NOT_AVAILABLE = Inl NotAvailable"
| "ConvertCallStatusForSet STATUS_CONNECTION_FAILED = Inl ConnectionFailed"
| "ConvertCallStatusForSet STATUS_REMOTE_ERROR = Inl RemoteError"
| "ConvertCallStatusForSet _ = Inl InternalError"

lemma ConvertCallStatus_success: "ConvertCallStatus st v = Inr w \<longleftrightarrow> st = STATUS_SUCCESS \<and> w = v"
  by (cases st) auto

subsection \<open>Connection manager\<close>

record someip_manager =
  sim_locked :: bool
  sim_runtime :: bool
  sim_app :: "nat option"
  sim_appName :: string
  sim_initialized :: bool
  sim_running :: bool

definition someip_manager_new :: someip_manager where
  "someip_manager_new =
     \<lparr> sim_locked = False, sim_runtime = False, sim_app = None, sim_appName = [],
       sim_initialized = False, sim_running = False \<rparr>"

abbreviation sim_lock ::
  "(someip_manager \<Rightarrow> ('r \<times> someip_manager) outcome) \<Rightarrow> someip_manager \<Rightarrow>
   ('r \<times> someip_manager) outcome" where
  "sim_lock \<equiv> lock_guard sim_locked (\<lambda>b. sim_locked_update (\<lambda>_. b))"

interpretation siml: scoped_lock sim_locked "\<lambda>b. sim_locked_update (\<lambda>_. b)"
  by unfold_locales simp_all

text \<open>What \<open>runtime::get\<close>, \<open>create_application\<close> and \<open>init\<close> return: the application made is a number;
  \<open>vs_throws\<close> is the call that throws, if one does.\<close>

datatype vsomeip_call = VsGet | VsCreate | VsInit

record vsomeip_env =
  vs_runtime :: bool
  vs_app :: "nat option"
  vs_init :: bool
  vs_throws :: "vsomeip_call option"

definition SIM_Initialize ::
  "vsomeip_env \<Rightarrow> string \<Rightarrow> someip_manager \<Rightarrow> (unit someip_result \<times> someip_manager) outcome" where
  "SIM_Initialize env appName =
     sim_lock (\<lambda>m. Done (
       if sim_initialized m then (Inr (), m)
       else if vs_throws env = Some VsGet then (Inl InitializationFailed, m)
       else
         let m1 = m\<lparr>sim_runtime := vs_runtime env\<rparr>
         in if \<not> vs_runtime env then (Inl InitializationFailed, m1)
            else if vs_throws env = Some VsCreate then (Inl InitializationFailed, m1)
            else
              let m2 = m1\<lparr>sim_app := vs_app env\<rparr>
              in if vs_app env = None then (Inl InitializationFailed, m2)
                 else if vs_throws env = Some VsInit then (Inl InitializationFailed, m2)
                 else if \<not> vs_init env then (Inl InitializationFailed, m2\<lparr>sim_app := None\<rparr>)
                 else (Inr (), m2\<lparr>sim_appName := appName, sim_initialized := True\<rparr>)))"

text \<open>The part of \<open>Start\<close> before \<open>m_app->start()\<close>: \<open>Inl\<close> the result of an early return, or \<open>Inr\<close> the
  state in which the application runs, the mutex still held.\<close>

definition SIM_start_enter ::
  "someip_manager \<Rightarrow> (unit someip_result \<times> someip_manager) + someip_manager" where
  "SIM_start_enter m =
     (if \<not> sim_initialized m then Inl (Inl NotInitialized, m)
      else if sim_running m then Inl (Inr (), m)
      else Inr (m\<lparr>sim_running := True, sim_locked := True\<rparr>))"

text \<open>The part after it, when \<open>m_app->start()\<close> has returned or thrown.\<close>

definition SIM_start_leave :: "bool \<Rightarrow> someip_manager \<Rightarrow> unit someip_result \<times> someip_manager" where
  "SIM_start_leave throws m =
     (if throws then (Inl ConnectionFailed, m\<lparr>sim_running := False, sim_locked := False\<rparr>)
      else (Inr (), m\<lparr>sim_locked := False\<rparr>))"

text \<open>\<open>Stop\<close>: the second component tells whether the application was stopped.\<close>

definition SIM_Stop ::
  "bool \<Rightarrow> someip_manager \<Rightarrow> ((unit someip_result \<times> bool) \<times> someip_manager) outcome" where
  "SIM_Stop throws =
     sim_lock (\<lambda>m. Done (
       if \<not> sim_running m then ((Inr (), False), m)
       else if sim_app m \<noteq> None \<and> throws then ((Inl Disconnected, False), m)
       else ((Inr (), sim_app m \<noteq> None), m\<lparr>sim_running := False\<rparr>)))"

definition SIM_Deinitialize :: "bool \<Rightarrow> someip_manager \<Rightarrow> (bool \<times> someip_manager) outcome" where
  "SIM_Deinitialize throws =
     sim_lock (\<lambda>m. Done (
       if \<not> sim_initialized m then (False, m)
       else if sim_running m \<and> sim_app m \<noteq> None \<and> throws then (False, m)
       else (sim_running m \<and> sim_app m \<noteq> None,
             m\<lparr>sim_running := (sim_running m \<and> sim_app m = None), sim_app := None,
               sim_initialized := False\<rparr>)))"

definition SIM_GetApplication :: "someip_manager \<Rightarrow> (nat option \<times> someip_manager) outcome" where
  "SIM_GetApplication = sim_lock (\<lambda>m. Done (sim_app m, m))"

definition SIM_IsInitialized :: "someip_manager \<Rightarrow> (bool \<times> someip_manager) outcome" where
  "SIM_IsInitialized = sim_lock (\<lambda>m. Done (sim_initialized m, m))"

definition SIM_IsRunning :: "someip_manager \<Rightarrow> (bool \<times> someip_manager) outcome" where
  "SIM_IsRunning = sim_lock (\<lambda>m. Done (sim_running m, m))"

definition SIM_GetApplicationName :: "someip_manager \<Rightarrow> (string \<times> someip_manager) outcome" where
  "SIM_GetApplicationName = sim_lock (\<lambda>m. Done (sim_appName m, m))"

text \<open>
  The manager with the thread that calls \<open>Start\<close>: \<open>Mgr m inside stopped\<close>, where \<open>inside\<close> says that
  the thread is in \<open>m_app->start()\<close> and \<open>stopped\<close> that the application has been told to stop, upon
  which \<open>start\<close> returns.  \<open>Start\<close> itself waits for the mutex.  Operations of other threads that find
  the mutex taken wait, so they make no step.  Calls on the application itself, which
  \<open>GetApplication\<close> hands out, are not steps of the manager.
\<close>

datatype mgr_config = Mgr someip_manager bool bool

inductive mgr_step :: "mgr_config \<Rightarrow> mgr_config \<Rightarrow> bool" where
  init: "SIM_Initialize env name m = Done (r, m') \<Longrightarrow> mgr_step (Mgr m i s) (Mgr m' i s)"
| start_early: "\<not> sim_locked m \<Longrightarrow> SIM_start_enter m = Inl (r, m') \<Longrightarrow> mgr_step (Mgr m False s) (Mgr m' False s)"
| start_enter: "\<not> sim_locked m \<Longrightarrow> SIM_start_enter m = Inr m' \<Longrightarrow> mgr_step (Mgr m False s) (Mgr m' True False)"
| start_return: "SIM_start_leave False m = (r, m') \<Longrightarrow> mgr_step (Mgr m True True) (Mgr m' False False)"
| start_throw: "SIM_start_leave True m = (r, m') \<Longrightarrow> mgr_step (Mgr m True s) (Mgr m' False s)"
| stop: "SIM_Stop t m = Done ((r, hit), m') \<Longrightarrow> mgr_step (Mgr m i s) (Mgr m' i (s \<or> hit))"
| deinit: "SIM_Deinitialize t m = Done (hit, m') \<Longrightarrow> mgr_step (Mgr m i s) (Mgr m' i (s \<or> hit))"
| query: "SIM_IsInitialized m = Done (b, m') \<Longrightarrow> mgr_step (Mgr m i s) (Mgr m' i s)"

inductive_cases mgr_stepE: "mgr_step (Mgr m i s) c"

definition mgr_reachable :: "mgr_config \<Rightarrow> bool" where
  "mgr_reachable c \<longleftrightarrow> mgr_step\<^sup>*\<^sup>* (Mgr someip_manager_new False False) c"

fun mgr_inv :: "mgr_config \<Rightarrow> bool" where
  "mgr_inv (Mgr m i s) \<longleftrightarrow> (i \<longleftrightarrow> sim_locked m) \<and> (i \<longrightarrow> \<not> s)"

lemma sim_ops_unlocked:
  "SIM_Initialize env name m = Done (r, m') \<Longrightarrow> \<not> sim_locked m \<and> \<not> sim_locked m'"
  "SIM_Stop t m = Done (q, m') \<Longrightarrow> \<not> sim_locked m \<and> \<not> sim_locked m'"
  "SIM_Deinitialize t m = Done (h, m') \<Longrightarrow> \<not> sim_locked m \<and> \<not> sim_locked m'"
  "SIM_IsInitialized m = Done (b, m') \<Longrightarrow> \<not> sim_locked m \<and> \<not> sim_locked m'"
  unfolding SIM_Initialize_def SIM_Stop_def SIM_Deinitialize_def SIM_IsInitialized_def
  by (auto dest!: siml.guard_released)

lemma mgr_step_inv: "mgr_step c c' \<Longrightarrow> mgr_inv c \<Longrightarrow> mgr_inv c'"
proof (induction rule: mgr_step.induct)
  case (start_early m r m' s)
  then show ?case by (auto simp: SIM_start_enter_def split: if_splits)
next
  case (start_enter m m' s)
  then show ?case by (auto simp: SIM_start_enter_def split: if_splits)
qed (auto simp: SIM_start_leave_def dest!: sim_ops_unlocked)

lemma mgr_reachable_inv: "mgr_reachable c \<Longrightarrow> mgr_inv c"
  unfolding mgr_reachable_def by (induction rule: rtranclp_induct) (auto simp: someip_manager_new_def intro: mgr_step_inv)


definition demo_vsomeip_env :: vsomeip_env where
  "demo_vsomeip_env = \<lparr> vs_runtime = True, vs_app = Some 7, vs_init = True, vs_throws = None \<rparr>"

definition demo_started :: someip_manager where
  "demo_started =
     \<lparr> sim_locked = True, sim_runtime = True, sim_app = Some 7, sim_appName = ''com'',
       sim_initialized = True, sim_running = True \<rparr>"

lemma demo_started_reachable: "mgr_reachable (Mgr demo_started True False)"
proof -
  let ?m = "demo_started\<lparr>sim_running := False, sim_locked := False\<rparr>"
  have "SIM_Initialize demo_vsomeip_env ''com'' someip_manager_new = Done (Inr (), ?m)"
    by (simp add: SIM_Initialize_def lock_guard_def someip_manager_new_def demo_vsomeip_env_def
        demo_started_def)
  then have "mgr_step (Mgr someip_manager_new False False) (Mgr ?m False False)"
    by (rule mgr_step.init)
  moreover have "mgr_step (Mgr ?m False False) (Mgr demo_started True False)"
    by (rule mgr_step.start_enter) (simp_all add: SIM_start_enter_def demo_started_def)
  ultimately show ?thesis
    unfolding mgr_reachable_def by (meson converse_rtranclp_into_rtranclp rtranclp.rtrancl_refl)
qed


end
