(* ===== verification/SomeIpBinding.thy ===== *)
theory SomeIpBinding
  imports SomeIp
begin

text \<open>
  binding/someip: method calls, events and fields over CommonAPI proxies and stubs.  A proxy or stub
  is present or null; what the calls of CommonAPI return, when they return and whether they throw
  are arguments.  Subscriptions are named tokens that unsubscribe when they are destroyed; an
  exception that leaves a destructor ends the process, the outcome \<open>None\<close>.
\<close>

subsection \<open>Methods\<close>

text \<open>How the functor given to \<open>CallSync\<close> runs: it fills in a status and a value after some
  milliseconds, throws, or never returns; and when a call returns what.\<close>

datatype 'v method_run = Finishes nat call_status 'v | Throws nat | Hangs

datatype 'r timed = At nat 'r | Never

text \<open>The status and the value are not initialised before the functor runs: \<open>junk\<close> is what they
  then hold.  Its exception stays in the future, which nobody reads, and the destructor of the
  future waits for the functor also after a timeout.\<close>

definition CallSync ::
  "bool \<Rightarrow> bool \<Rightarrow> call_status \<times> 'v \<Rightarrow> nat \<Rightarrow> 'v method_run \<Rightarrow> 'v someip_result timed" where
  "CallSync proxy spawned junk timeout run =
     (if \<not> proxy then At 0 (Inl NotInitialized)
      else if \<not> spawned then At 0 (Inl InternalError)
      else case run of
        Finishes d st v \<Rightarrow> At d (if d \<le> timeout then ConvertCallStatus st v else Inl Timeout)
      | Throws d \<Rightarrow> At d (if d \<le> timeout then ConvertCallStatus (fst junk) (snd junk) else Inl Timeout)
      | Hangs \<Rightarrow> Never)"

definition CallSyncVoid ::
  "bool \<Rightarrow> bool \<Rightarrow> call_status \<Rightarrow> nat \<Rightarrow> unit method_run \<Rightarrow> unit someip_result timed" where
  "CallSyncVoid proxy spawned junk timeout run =
     (if \<not> proxy then At 0 (Inl NotInitialized)
      else if \<not> spawned then At 0 (Inl InternalError)
      else case run of
        Finishes d st v \<Rightarrow> At d (if d \<le> timeout then ConvertCallStatusVoid st else Inl Timeout)
      | Throws d \<Rightarrow> At d (if d \<le> timeout then ConvertCallStatusVoid junk else Inl Timeout)
      | Hangs \<Rightarrow> Never)"

text \<open>Asynchronous calls: the result of the submission and what the user's callback receives for
  each completion the library reports.\<close>

definition CallAsync ::
  "bool \<Rightarrow> bool \<Rightarrow> (call_status \<times> 'v) list \<Rightarrow> unit someip_result \<times> 'v someip_result list" where
  "CallAsync proxy throws completions =
     (if \<not> proxy then (Inl NotInitialized, [])
      else (if throws then Inl InternalError else Inr (),
            map (\<lambda>(st, v). ConvertCallStatus st v) completions))"

definition CallAsyncVoid ::
  "bool \<Rightarrow> bool \<Rightarrow> call_status list \<Rightarrow> unit someip_result \<times> unit someip_result list" where
  "CallAsyncVoid proxy throws completions =
     (if \<not> proxy then (Inl NotInitialized, [])
      else (if throws then Inl InternalError else Inr (), map ConvertCallStatusVoid completions))"

fun ret_time :: "'r timed \<Rightarrow> nat option" where
  "ret_time (At d r) = Some d"
| "ret_time Never = None"

text \<open>The timeout does not bound a call: it returns when the functor does.\<close>

lemma call_sync_timeout_ineffective:
  "ret_time (CallSync p s junk t run) = ret_time (CallSync p s junk t' run)"
  by (simp add: CallSync_def split: method_run.split)

text \<open>A functor that throws in time can make the call succeed with a value nobody computed.\<close>

lemma call_sync_reads_junk:
  "d \<le> t \<Longrightarrow> CallSync True True (STATUS_SUCCESS, v) t (Throws d) = At d (Inr v)"
  by (simp add: CallSync_def)

text \<open>The responder: \<open>ok\<close> says whether the reply function returns; the second component whether it
  was called.\<close>

definition responder_reply :: "bool \<Rightarrow> bool \<Rightarrow> bool \<times> bool" where
  "responder_reply ok replied = (if replied then (True, False) else (ok, True))"

fun responder_run :: "bool list \<Rightarrow> bool \<Rightarrow> bool list" where
  "responder_run [] replied = []"
| "responder_run (ok # oks) replied =
     (let (replied1, called) = responder_reply ok replied in (called \<and> ok) # responder_run oks replied1)"

lemma responder_replies_once: "length (filter id (responder_run oks replied)) \<le> (if replied then 0 else 1)"
proof (induction oks arbitrary: replied)
  case (Cons ok oks)
  show ?case using Cons [of True] Cons [of False] by (auto simp: responder_reply_def Let_def)
qed simp

subsection \<open>Named subscriptions\<close>

record token =
  tok_sub :: nat
  tok_unsubscribed :: bool
  tok_attempts :: nat

record subscriptions =
  ss_proxy :: bool
  ss_subs :: "(string \<times> token) list"
  ss_next :: nat
  ss_live :: "nat set"

definition subscriptions_new :: "bool \<Rightarrow> subscriptions" where
  "subscriptions_new proxy = \<lparr> ss_proxy = proxy, ss_subs = [], ss_next = 0, ss_live = {} \<rparr>"

text \<open>\<open>SubscriptionToken::Unsubscribe\<close>: \<open>ex h k\<close> says whether the \<open>k\<close>-th attempt to unsubscribe the
  library's subscription \<open>h\<close> throws.  The result tells whether it returned.\<close>

type_synonym unsub_throws = "nat \<Rightarrow> nat \<Rightarrow> bool"

definition token_Unsubscribe ::
  "unsub_throws \<Rightarrow> token \<Rightarrow> nat set \<Rightarrow> bool \<times> token \<times> nat set" where
  "token_Unsubscribe ex t live =
     (if tok_unsubscribed t then (True, t, live)
      else if ex (tok_sub t) (tok_attempts t)
      then (False, t\<lparr>tok_attempts := tok_attempts t + 1\<rparr>, live)
      else (True, t\<lparr>tok_attempts := tok_attempts t + 1, tok_unsubscribed := True\<rparr>, live - {tok_sub t}))"

text \<open>The destructor of a token: an exception of \<open>Unsubscribe\<close> leaves it.\<close>

definition token_destroy :: "unsub_throws \<Rightarrow> token \<Rightarrow> nat set \<Rightarrow> nat set option" where
  "token_destroy ex t live =
     (if tok_unsubscribed t then Some live
      else case token_Unsubscribe ex t live of (ok, _, live1) \<Rightarrow> if ok then Some live1 else None)"

definition SE_Subscribe ::
  "bool \<Rightarrow> string \<Rightarrow> subscriptions \<Rightarrow> unit someip_result \<times> subscriptions" where
  "SE_Subscribe throws name s =
     (if \<not> ss_proxy s then (Inl NotInitialized, s)
      else if map_of (ss_subs s) name \<noteq> None then (Inl AlreadyExists, s)
      else if throws then (Inl InternalError, s)
      else
        let h = ss_next s; t = \<lparr> tok_sub = h, tok_unsubscribed = False, tok_attempts = 0 \<rparr>
        in (Inr (), s\<lparr>ss_subs := ss_subs s @ [(name, t)], ss_next := h + 1,
                      ss_live := insert h (ss_live s)\<rparr>))"

definition SE_Unsubscribe ::
  "unsub_throws \<Rightarrow> string \<Rightarrow> subscriptions \<Rightarrow> (unit someip_result \<times> subscriptions) option" where
  "SE_Unsubscribe ex name s =
     (case map_of (ss_subs s) name of
        None \<Rightarrow> Some (Inl NotFound, s)
      | Some t \<Rightarrow>
          (case token_Unsubscribe ex t (ss_live s) of
             (False, t1, live1) \<Rightarrow>
               Some (Inl InternalError,
                     s\<lparr>ss_subs := map (\<lambda>p. if fst p = name then (name, t1) else p) (ss_subs s),
                       ss_live := live1\<rparr>)
           | (True, t1, live1) \<Rightarrow>
               map_option (\<lambda>live2. (Inr (), s\<lparr>ss_subs := filter (\<lambda>p. fst p \<noteq> name) (ss_subs s),
                                               ss_live := live2\<rparr>))
                 (token_destroy ex t1 live1)))"

text \<open>\<open>UnsubscribeAll\<close> unsubscribes every token, catching exceptions, and then clears the table, which
  destroys the tokens.\<close>

fun unsubscribe_pass :: "unsub_throws \<Rightarrow> token list \<Rightarrow> nat set \<Rightarrow> token list \<times> nat set" where
  "unsubscribe_pass ex [] live = ([], live)"
| "unsubscribe_pass ex (t # ts) live =
     (case token_Unsubscribe ex t live of
        (_, t1, live1) \<Rightarrow> (case unsubscribe_pass ex ts live1 of (ts1, live2) \<Rightarrow> (t1 # ts1, live2)))"

fun destroy_tokens :: "unsub_throws \<Rightarrow> token list \<Rightarrow> nat set \<Rightarrow> nat set option" where
  "destroy_tokens ex [] live = Some live"
| "destroy_tokens ex (t # ts) live = Option.bind (token_destroy ex t live) (destroy_tokens ex ts)"

definition SE_UnsubscribeAll :: "unsub_throws \<Rightarrow> subscriptions \<Rightarrow> subscriptions option" where
  "SE_UnsubscribeAll ex s =
     (case unsubscribe_pass ex (map snd (ss_subs s)) (ss_live s) of
        (ts, live1) \<Rightarrow>
          map_option (\<lambda>live2. s\<lparr>ss_subs := [], ss_live := live2\<rparr>) (destroy_tokens ex ts live1))"

definition SE_IsSubscribed :: "string \<Rightarrow> subscriptions \<Rightarrow> bool" where
  "SE_IsSubscribed name s = (map_of (ss_subs s) name \<noteq> None)"

definition SE_GetSubscriptionCount :: "subscriptions \<Rightarrow> nat" where
  "SE_GetSubscriptionCount s = length (ss_subs s)"

text \<open>The field accessor has its own copy of the same code for change notifications.\<close>

definition SF_SubscribeChanges ::
  "bool \<Rightarrow> string \<Rightarrow> subscriptions \<Rightarrow> unit someip_result \<times> subscriptions" where
  "SF_SubscribeChanges = SE_Subscribe"

definition SF_UnsubscribeChanges ::
  "unsub_throws \<Rightarrow> string \<Rightarrow> subscriptions \<Rightarrow> (unit someip_result \<times> subscriptions) option" where
  "SF_UnsubscribeChanges = SE_Unsubscribe"

definition SF_UnsubscribeAll :: "unsub_throws \<Rightarrow> subscriptions \<Rightarrow> subscriptions option" where
  "SF_UnsubscribeAll = SE_UnsubscribeAll"

definition SF_IsSubscribed :: "string \<Rightarrow> subscriptions \<Rightarrow> bool" where
  "SF_IsSubscribed = SE_IsSubscribed"

subsection \<open>Fields\<close>

text \<open>Reading and writing an attribute: \<open>throws\<close> if a call of CommonAPI throws, otherwise the status
  and the value it returns.\<close>

definition SF_Get :: "bool \<Rightarrow> bool \<Rightarrow> call_status \<Rightarrow> 'v \<Rightarrow> 'v someip_result" where
  "SF_Get proxy throws st v =
     (if \<not> proxy then Inl NotInitialized
      else if throws then Inl InternalError
      else if st \<noteq> STATUS_SUCCESS then ConvertCallStatusForGet st
      else Inr v)"

definition SF_Set :: "bool \<Rightarrow> bool \<Rightarrow> call_status \<Rightarrow> unit someip_result" where
  "SF_Set proxy throws st =
     (if \<not> proxy then Inl NotInitialized
      else if throws then Inl InternalError
      else if st \<noteq> STATUS_SUCCESS then ConvertCallStatusForSet st
      else Inr ())"

definition SF_GetAsync ::
  "bool \<Rightarrow> bool \<Rightarrow> (call_status \<times> 'v) list \<Rightarrow> unit someip_result \<times> 'v someip_result list" where
  "SF_GetAsync proxy throws completions =
     (if \<not> proxy then (Inl NotInitialized, [])
      else (if throws then Inl InternalError else Inr (),
            map (\<lambda>(st, v). if st = STATUS_SUCCESS then Inr v else ConvertCallStatusForGet st) completions))"

definition SF_SetAsync ::
  "bool \<Rightarrow> bool \<Rightarrow> call_status list \<Rightarrow> unit someip_result \<times> unit someip_result list" where
  "SF_SetAsync proxy throws completions =
     (if \<not> proxy then (Inl NotInitialized, [])
      else (if throws then Inl InternalError else Inr (),
            map (\<lambda>st. if st = STATUS_SUCCESS then Inr () else ConvertCallStatusForSet st) completions))"

text \<open>The server's side: firing an event and notifying a change call a function of the stub.\<close>

definition EB_Fire :: "bool \<Rightarrow> bool \<Rightarrow> unit someip_result" where
  "EB_Fire stub throws =
     (if \<not> stub then Inl NotInitialized else if throws then Inl InternalError else Inr ())"

definition EB_FireMulti :: "bool \<Rightarrow> bool \<Rightarrow> unit someip_result" where
  "EB_FireMulti stub throws =
     (if \<not> stub then Inl NotInitialized else if throws then Inl InternalError else Inr ())"

definition FN_NotifyChange :: "bool \<Rightarrow> bool \<Rightarrow> unit someip_result" where
  "FN_NotifyChange stub throws =
     (if \<not> stub then Inl NotInitialized else if throws then Inl InternalError else Inr ())"

text \<open>The filter of events: a function that may throw (\<open>None\<close>), or no filter.\<close>

type_synonym 'v event_filter = "('v \<Rightarrow> bool option) option"

definition EF_SetFilter :: "('v \<Rightarrow> bool option) \<Rightarrow> 'v event_filter \<Rightarrow> 'v event_filter" where
  "EF_SetFilter g f = Some g"

definition EF_ClearFilter :: "'v event_filter \<Rightarrow> 'v event_filter" where
  "EF_ClearFilter f = None"

definition EF_ShouldNotify :: "'v event_filter \<Rightarrow> 'v \<Rightarrow> bool" where
  "EF_ShouldNotify f v =
     (case f of None \<Rightarrow> True | Some g \<Rightarrow> (case g v of Some b \<Rightarrow> b | None \<Rightarrow> False))"

subsection \<open>Subscriptions and the library\<close>

text \<open>The table holds one live token for every subscription the library has for it.\<close>

definition subs_inv :: "subscriptions \<Rightarrow> bool" where
  "subs_inv s \<longleftrightarrow> distinct (map fst (ss_subs s)) \<and> distinct (map (tok_sub \<circ> snd) (ss_subs s)) \<and>
     (\<forall>p\<in>set (ss_subs s). \<not> tok_unsubscribed (snd p) \<and> tok_sub (snd p) < ss_next s) \<and>
     ss_live s = (tok_sub \<circ> snd) ` set (ss_subs s)"

lemma subs_inv_new: "subs_inv (subscriptions_new proxy)"
  by (simp add: subs_inv_def subscriptions_new_def)

lemma SE_Subscribe_inv: "subs_inv s \<Longrightarrow> subs_inv (snd (SE_Subscribe throws name s))"
  by (auto simp: subs_inv_def SE_Subscribe_def Let_def map_of_eq_None_iff image_iff)

lemma destroyed_unsubscribed [simp]: "tok_unsubscribed t \<Longrightarrow> token_destroy ex t live = Some live"
  by (simp add: token_destroy_def)

lemma subs_inv_update:
  "subs_inv (s\<lparr>ss_subs := xs\<rparr>) \<longleftrightarrow> distinct (map fst xs) \<and> distinct (map (tok_sub \<circ> snd) xs) \<and>
     (\<forall>p\<in>set xs. \<not> tok_unsubscribed (snd p) \<and> tok_sub (snd p) < ss_next s) \<and>
     ss_live s = (tok_sub \<circ> snd) ` set xs"
  by (simp add: subs_inv_def)

lemma SE_Unsubscribe_inv:
  assumes inv: "subs_inv s" and u: "SE_Unsubscribe ex name s = Some (r, s')"
  shows "subs_inv s'"
proof (cases "map_of (ss_subs s) name")
  case None
  then show ?thesis using u inv by (simp add: SE_Unsubscribe_def)
next
  case (Some t)
  have mem: "(name, t) \<in> set (ss_subs s)" using Some by (rule map_of_SomeD)
  have live: "\<not> tok_unsubscribed t" using inv mem by (auto simp: subs_inv_def)
  have only: "p = (name, t)" if "p \<in> set (ss_subs s)" "fst p = name" for p
    using inv mem that unfolding subs_inv_def by (metis eq_key_imp_eq_value prod.collapse)
  have inj: "p = (name, t)" if "p \<in> set (ss_subs s)" "tok_sub (snd p) = tok_sub t" for p
    using inv mem that unfolding subs_inv_def distinct_map inj_on_def by (metis comp_apply snd_conv)
  show ?thesis
  proof (cases "ex (tok_sub t) (tok_attempts t)")
    case True
    let ?f = "\<lambda>p. if fst p = name then (name, t\<lparr>tok_attempts := Suc (tok_attempts t)\<rparr>) else p"
    have s': "s' = s\<lparr>ss_subs := map ?f (ss_subs s)\<rparr>"
      using u Some True live by (auto simp: SE_Unsubscribe_def token_Unsubscribe_def)
    have f: "fst (?f p) = fst p" "tok_sub (snd (?f p)) = tok_sub (snd p)"
        "tok_unsubscribed (snd (?f p)) = tok_unsubscribed (snd p)" if "p \<in> set (ss_subs s)" for p
      using only [OF that] by (cases p; auto)+
    have "map fst (map ?f (ss_subs s)) = map fst (ss_subs s)"
        "map (tok_sub \<circ> snd) (map ?f (ss_subs s)) = map (tok_sub \<circ> snd) (ss_subs s)"
      using f by simp_all
    moreover from this(2) have "(tok_sub \<circ> snd) ` set (map ?f (ss_subs s)) = (tok_sub \<circ> snd) ` set (ss_subs s)"
      by (metis list.set_map)
    moreover have "\<forall>p\<in>set (map ?f (ss_subs s)). \<not> tok_unsubscribed (snd p) \<and> tok_sub (snd p) < ss_next s"
    proof
      fix q assume "q \<in> set (map ?f (ss_subs s))"
      then obtain p where p: "p \<in> set (ss_subs s)" "q = ?f p" unfolding set_map by (rule imageE)
      show "\<not> tok_unsubscribed (snd q) \<and> tok_sub (snd q) < ss_next s"
        unfolding p(2) f [OF p(1)] using inv p(1) by (simp add: subs_inv_def)
    qed
    ultimately have "distinct (map fst (map ?f (ss_subs s))) \<and>
        distinct (map (tok_sub \<circ> snd) (map ?f (ss_subs s))) \<and>
        (\<forall>p\<in>set (map ?f (ss_subs s)). \<not> tok_unsubscribed (snd p) \<and> tok_sub (snd p) < ss_next s) \<and>
        ss_live s = (tok_sub \<circ> snd) ` set (map ?f (ss_subs s))"
      using inv unfolding subs_inv_def by (simp only: simp_thms)
    then show ?thesis unfolding s' subs_inv_update .
  next
    case False
    have s': "s' = s\<lparr>ss_subs := filter (\<lambda>p. fst p \<noteq> name) (ss_subs s), ss_live := ss_live s - {tok_sub t}\<rparr>"
      using u Some False live by (simp add: SE_Unsubscribe_def token_Unsubscribe_def)
    have "ss_live s - {tok_sub t} = (tok_sub \<circ> snd) ` {p \<in> set (ss_subs s). fst p \<noteq> name}"
    proof (intro set_eqI iffI)
      fix x assume x: "x \<in> ss_live s - {tok_sub t}"
      then obtain p where p: "p \<in> set (ss_subs s)" "x = tok_sub (snd p)"
        using inv by (auto simp: subs_inv_def)
      moreover have "fst p \<noteq> name" using only [OF p(1)] p(2) x by (cases p) auto
      ultimately show "x \<in> (tok_sub \<circ> snd) ` {p \<in> set (ss_subs s). fst p \<noteq> name}" by auto
    next
      fix x assume "x \<in> (tok_sub \<circ> snd) ` {p \<in> set (ss_subs s). fst p \<noteq> name}"
      then obtain p where p: "p \<in> set (ss_subs s)" "fst p \<noteq> name" "x = tok_sub (snd p)" by auto
      moreover have "x \<in> ss_live s" using inv p unfolding subs_inv_def by auto
      moreover have "x \<noteq> tok_sub t" using inj [OF p(1)] p(2,3) by (cases p) auto
      ultimately show "x \<in> ss_live s - {tok_sub t}" by simp
    qed
    then show ?thesis
      using inv unfolding s' by (auto simp: subs_inv_def distinct_map_filter)
  qed
qed

text \<open>The pass and the destruction, token by token.\<close>

lemma unsubscribe_pass_live:
  assumes "\<forall>t\<in>set ts. \<not> tok_unsubscribed t" "unsubscribe_pass ex ts live = (ts', live')"
  shows "ts' = map (\<lambda>t. fst (snd (token_Unsubscribe ex t {}))) ts"
    and "live' = live - tok_sub ` {t \<in> set ts. \<not> ex (tok_sub t) (tok_attempts t)}"
  using assms
  by (induction ex ts live arbitrary: ts' live' rule: unsubscribe_pass.induct)
    (auto simp: token_Unsubscribe_def split: prod.splits if_splits)

lemma destroy_tokens_result:
  "destroy_tokens ex ts live =
     (if \<exists>t\<in>set ts. \<not> tok_unsubscribed t \<and> ex (tok_sub t) (tok_attempts t) then None
      else Some (live - tok_sub ` {t \<in> set ts. \<not> tok_unsubscribed t}))"
  by (induction ex ts live rule: destroy_tokens.induct)
    (auto simp: token_destroy_def token_Unsubscribe_def split: if_splits)

datatype subs_op = OpSubscribe bool string | OpUnsubscribe string

fun subs_run :: "unsub_throws \<Rightarrow> subs_op list \<Rightarrow> subscriptions \<Rightarrow> subscriptions option" where
  "subs_run ex [] s = Some s"
| "subs_run ex (OpSubscribe throws name # ops) s = subs_run ex ops (snd (SE_Subscribe throws name s))"
| "subs_run ex (OpUnsubscribe name # ops) s =
     Option.bind (SE_Unsubscribe ex name s) (\<lambda>(r, s1). subs_run ex ops s1)"

lemma subs_run_inv: "subs_inv s \<Longrightarrow> subs_run ex ops s = Some s' \<Longrightarrow> subs_inv s'"
proof (induction ops arbitrary: s)
  case (Cons op ops)
  show ?case
  proof (cases op)
    case (OpSubscribe throws name)
    show ?thesis by (rule Cons.IH [OF SE_Subscribe_inv [OF Cons.prems(1)]])
        (use Cons.prems(2) OpSubscribe in simp)
  next
    case (OpUnsubscribe name)
    then obtain r s1 where u: "SE_Unsubscribe ex name s = Some (r, s1)" and "subs_run ex ops s1 = Some s'"
      using Cons.prems(2) by (auto simp: bind_eq_Some_conv)
    then show ?thesis by (intro Cons.IH [OF SE_Unsubscribe_inv [OF Cons.prems(1) u]])
  qed
qed simp

text \<open>A token after the first attempt: it is unsubscribed unless the library threw.\<close>

lemma token_after_attempt:
  assumes "\<not> tok_unsubscribed t"
  shows "tok_unsubscribed (fst (snd (token_Unsubscribe ex t live))) \<longleftrightarrow> \<not> ex (tok_sub t) (tok_attempts t)"
    and "tok_sub (fst (snd (token_Unsubscribe ex t live))) = tok_sub t"
    and "tok_attempts (fst (snd (token_Unsubscribe ex t live))) = tok_attempts t + 1"
  using assms by (simp_all add: token_Unsubscribe_def)

text \<open>What the pass and the clearing leave, for tokens that are all subscribed.\<close>

abbreviation refused_twice :: "unsub_throws \<Rightarrow> token \<Rightarrow> bool" where
  "refused_twice ex t \<equiv> ex (tok_sub t) (tok_attempts t) \<and> ex (tok_sub t) (tok_attempts t + 1)"

lemma pass_then_destroy:
  assumes sub: "\<forall>t\<in>set ts. \<not> tok_unsubscribed t" and pass: "unsubscribe_pass ex ts live = (ts', live')"
  shows "destroy_tokens ex ts' live' =
    (if \<exists>t\<in>set ts. refused_twice ex t then None else Some (live - tok_sub ` set ts))"
proof -
  let ?f = "\<lambda>t. fst (snd (token_Unsubscribe ex t {}))"
  note p = unsubscribe_pass_live [OF sub pass]
  have "(\<exists>t\<in>set ts'. \<not> tok_unsubscribed t \<and> ex (tok_sub t) (tok_attempts t)) \<longleftrightarrow>
      (\<exists>t\<in>set ts. \<not> tok_unsubscribed (?f t) \<and> ex (tok_sub (?f t)) (tok_attempts (?f t)))"
    unfolding p(1) by simp
  also have "\<dots> \<longleftrightarrow> (\<exists>t\<in>set ts. refused_twice ex t)"
  proof (rule bex_cong [OF refl])
    fix t assume "t \<in> set ts"
    then have n: "\<not> tok_unsubscribed t" using sub by blast
    show "\<not> tok_unsubscribed (?f t) \<and> ex (tok_sub (?f t)) (tok_attempts (?f t)) \<longleftrightarrow> refused_twice ex t"
      unfolding token_after_attempt [where ex = ex, OF n] not_not ..
  qed
  finally have ex: "(\<exists>t\<in>set ts'. \<not> tok_unsubscribed t \<and> ex (tok_sub t) (tok_attempts t)) \<longleftrightarrow>
      (\<exists>t\<in>set ts. refused_twice ex t)" .
  have "tok_sub ` {t \<in> set ts'. \<not> tok_unsubscribed t} = (\<lambda>t. tok_sub (?f t)) ` {t \<in> set ts. \<not> tok_unsubscribed (?f t)}"
    unfolding p(1) by auto
  also have "\<dots> = tok_sub ` {t \<in> set ts. ex (tok_sub t) (tok_attempts t)}"
    by (rule image_cong) (use sub token_after_attempt in \<open>auto\<close>)
  finally have im: "tok_sub ` {t \<in> set ts'. \<not> tok_unsubscribed t} =
      tok_sub ` {t \<in> set ts. ex (tok_sub t) (tok_attempts t)}" .
  have "live' - tok_sub ` {t \<in> set ts'. \<not> tok_unsubscribed t} = live - tok_sub ` set ts"
    unfolding im p(2) by auto
  then show ?thesis by (simp only: destroy_tokens_result ex)
qed

text \<open>C38: After any sequence of subscriptions and unsubscriptions, \<open>UnsubscribeAll\<close> ends the process
  exactly if the library refuses some held subscription twice in a row, as the exception that is
  caught first comes back from the destructor; otherwise the table is empty and the library keeps no
  subscription of it.\<close>

theorem someip_unsubscribe_all_releases:
  assumes run: "subs_run ex ops (subscriptions_new proxy) = Some s"
  shows "SE_UnsubscribeAll ex s =
    (if \<exists>(name, t)\<in>set (ss_subs s). ex (tok_sub t) (tok_attempts t) \<and> ex (tok_sub t) (tok_attempts t + 1)
     then None else Some (s\<lparr>ss_subs := [], ss_live := {}\<rparr>))"
proof -
  have inv: "subs_inv s" by (rule subs_run_inv [OF subs_inv_new run])
  let ?ts = "map snd (ss_subs s)"
  obtain ts' live' where pass: "unsubscribe_pass ex ?ts (ss_live s) = (ts', live')"
    by (cases "unsubscribe_pass ex ?ts (ss_live s)") auto
  have "\<forall>t\<in>set ?ts. \<not> tok_unsubscribed t" using inv by (auto simp: subs_inv_def)
  note d = pass_then_destroy [OF this pass]
  have "ss_live s - tok_sub ` set ?ts = {}" using inv by (auto simp: subs_inv_def image_comp)
  then show ?thesis unfolding SE_UnsubscribeAll_def pass prod.case d
    by (simp add: case_prod_unfold)
qed

lemma someip_unsubscribe_all_releases_witness:
  "SE_UnsubscribeAll (\<lambda>h k. h = 0) (snd (SE_Subscribe False ''b'' (snd (SE_Subscribe False ''a'' (subscriptions_new True))))) = None \<and>
   SE_UnsubscribeAll (\<lambda>h k. h = 0 \<and> k = 0) (snd (SE_Subscribe False ''b'' (snd (SE_Subscribe False ''a'' (subscriptions_new True))))) \<noteq> None"
proof -
  let ?s = "snd (SE_Subscribe False ''b'' (snd (SE_Subscribe False ''a'' (subscriptions_new True))))"
  have run: "subs_run ex [OpSubscribe False ''a'', OpSubscribe False ''b''] (subscriptions_new True) = Some ?s" for ex
    by simp
  have s: "ss_subs ?s = [(''a'', \<lparr>tok_sub = 0, tok_unsubscribed = False, tok_attempts = 0\<rparr>),
      (''b'', \<lparr>tok_sub = Suc 0, tok_unsubscribed = False, tok_attempts = 0\<rparr>)]"
    by (simp add: SE_Subscribe_def subscriptions_new_def)
  show ?thesis unfolding someip_unsubscribe_all_releases [OF run] s by simp
qed

end
