(* ===== verification/CommonApi.thy ===== *)
theory CommonApi
  imports SomeIpBinding
begin

text \<open>
  binding/iceoryx2/inc: the adapters CommonAPISomeIpAdapter.hpp and CommonAPIDBusAdapter.hpp around
  proxies and stubs that CommonAPI generates.  CommonAPI is not part of the repository: what its
  calls answer is an argument, and its register of services is kept as the number of stubs it holds
  for the adapter's address.  A call that does not return is \<open>Never\<close>.
\<close>

subsection \<open>What CommonAPI answers\<close>

datatype capi_call = RuntimeGet | BuildProxy | WaitAvailable | RegisterService | UnregisterService

record capi_env =
  ca_throws :: "capi_call \<Rightarrow> bool"
  ca_runtime :: bool
  ca_proxy :: "nat option"
  ca_available_after :: "nat option"
  ca_registers :: bool
  ca_unregisters :: bool

text \<open>\<open>None\<close> waits for ever, as \<open>isAvailableBlocking\<close> without a timeout does.\<close>

fun wait_available :: "nat option \<Rightarrow> nat option \<Rightarrow> bool timed" where
  "wait_available after (Some t) =
     (case after of Some d \<Rightarrow> if d \<le> t then At d True else At t False | None \<Rightarrow> At t False)"
| "wait_available after None = (case after of Some d \<Rightarrow> At d True | None \<Rightarrow> Never)"

fun timed_bind :: "'a timed \<Rightarrow> ('a \<Rightarrow> 'b) \<Rightarrow> 'b timed" where
  "timed_bind (At d x) f = At d (f x)"
| "timed_bind Never f = Never"

lemma wait_available_returns: "ret_time (wait_available after (Some t)) \<noteq> None"
  by (simp split: option.split)

subsection \<open>The SOME/IP proxy adapter\<close>

record proxy_adapter =
  pa_proxy :: "nat option"
  pa_initialized :: bool

definition SPA_new :: proxy_adapter where
  "SPA_new = \<lparr> pa_proxy = None, pa_initialized = False \<rparr>"

text \<open>The part after the manager has been asked; the wait is the part of \<open>timeoutMs\<close>.\<close>

definition SPA_build ::
  "capi_env \<Rightarrow> int \<Rightarrow> proxy_adapter \<Rightarrow> (unit someip_result \<times> proxy_adapter) timed" where
  "SPA_build env timeoutMs a =
     (if ca_throws env RuntimeGet then At 0 (Inl InitializationFailed, a)
      else if \<not> ca_runtime env then At 0 (Inl InitializationFailed, a)
      else if ca_throws env BuildProxy then At 0 (Inl InitializationFailed, a)
      else
        let a1 = a\<lparr>pa_proxy := ca_proxy env\<rparr>
        in if ca_proxy env = None then At 0 (Inl ConnectionFailed, a1)
           else if timeoutMs = 0 then At 0 (Inr (), a1\<lparr>pa_initialized := True\<rparr>)
           else if ca_throws env WaitAvailable then At 0 (Inl InitializationFailed, a1)
           else timed_bind
                  (wait_available (ca_available_after env)
                     (if timeoutMs < 0 then None else Some (nat timeoutMs)))
                  (\<lambda>available. if available then (Inr (), a1\<lparr>pa_initialized := True\<rparr>)
                               else (Inl Timeout, a1)))"

definition SPA_Initialize ::
  "capi_env \<Rightarrow> someip_manager \<Rightarrow> int \<Rightarrow> proxy_adapter \<Rightarrow> (unit someip_result \<times> proxy_adapter) timed" where
  "SPA_Initialize env mgr timeoutMs a =
     (if pa_initialized a then At 0 (Inr (), a)
      else case SIM_IsInitialized mgr of
        Deadlock \<Rightarrow> Never
      | Done (False, _) \<Rightarrow> At 0 (Inl NotInitialized, a)
      | Done (True, _) \<Rightarrow> SPA_build env timeoutMs a)"

definition SPA_GetProxy :: "proxy_adapter \<Rightarrow> nat option" where
  "SPA_GetProxy a = pa_proxy a"

definition SPA_IsAvailable :: "(nat \<Rightarrow> bool) \<Rightarrow> proxy_adapter \<Rightarrow> bool" where
  "SPA_IsAvailable isAvailable a = (case pa_proxy a of None \<Rightarrow> False | Some p \<Rightarrow> isAvailable p)"

definition SPA_IsInitialized :: "proxy_adapter \<Rightarrow> bool" where
  "SPA_IsInitialized a = pa_initialized a"

fun SPA_WrapCallStatus :: "call_status \<Rightarrow> 'v \<Rightarrow> 'v someip_result" where
  "SPA_WrapCallStatus STATUS_SUCCESS v = Inr v"
| "SPA_WrapCallStatus STATUS_OUT_OF_MEMORY v = Inl OutOfMemory"
| "SPA_WrapCallStatus STATUS_NOT_AVAILABLE v = Inl NotAvailable"
| "SPA_WrapCallStatus STATUS_CONNECTION_FAILED v = Inl ConnectionFailed"
| "SPA_WrapCallStatus STATUS_REMOTE_ERROR v = Inl RemoteError"
| "SPA_WrapCallStatus STATUS_SUBSCRIPTION_REFUSED v = Inl SubscriptionFailed"
| "SPA_WrapCallStatus _ v = Inl Unknown"

fun SPA_WrapCallStatusVoid :: "call_status \<Rightarrow> unit someip_result" where
  "SPA_WrapCallStatusVoid STATUS_SUCCESS = Inr ()"
| "SPA_WrapCallStatusVoid STATUS_OUT_OF_MEMORY = Inl OutOfMemory"
| "SPA_WrapCallStatusVoid STATUS_NOT_AVAILABLE = Inl NotAvailable"
| "SPA_WrapCallStatusVoid STATUS_CONNECTION_FAILED = Inl ConnectionFailed"
| "SPA_WrapCallStatusVoid STATUS_REMOTE_ERROR = Inl RemoteError"
| "SPA_WrapCallStatusVoid STATUS_SUBSCRIPTION_REFUSED = Inl SubscriptionFailed"
| "SPA_WrapCallStatusVoid _ = Inl Unknown"

text \<open>The two layers around CommonAPI translate a status differently exactly where the method
  binding has no case of its own.\<close>

lemma wrap_and_convert_differ:
  "SPA_WrapCallStatus st v = ConvertCallStatus st v \<longleftrightarrow>
     st \<noteq> STATUS_UNKNOWN \<and> st \<noteq> STATUS_SUBSCRIPTION_REFUSED \<and> (\<forall>n. st \<noteq> STATUS_OTHER n)"
  by (cases st) auto

lemma SPA_build_success:
  "SPA_build env timeoutMs a = At d (Inr (), a') \<Longrightarrow>
     pa_initialized a' \<and> pa_proxy a' = ca_proxy env \<and> ca_proxy env \<noteq> None"
  by (cases "wait_available (ca_available_after env) (if timeoutMs < 0 then None else Some (nat timeoutMs))")
    (auto simp: SPA_build_def Let_def split: if_splits)

subsection \<open>The D-Bus proxy adapter\<close>

text \<open>\<open>Initialize\<close> subscribes a listener that refers to its local variables and is never
  unsubscribed: \<open>dpa_dangling\<close> counts, per proxy, the listeners whose variables are gone.\<close>

record dbus_proxy_adapter =
  dpa_proxy :: "nat option"
  dpa_connectionId :: string
  dpa_dangling :: "nat \<Rightarrow> nat"

definition DPA_new :: "string \<Rightarrow> dbus_proxy_adapter" where
  "DPA_new connection = \<lparr> dpa_proxy = None, dpa_connectionId = connection, dpa_dangling = (\<lambda>_. 0) \<rparr>"

definition MAX_WAIT_MS :: nat where
  "MAX_WAIT_MS = 5000"

definition DPA_Initialize ::
  "capi_env \<Rightarrow> dbus_proxy_adapter \<Rightarrow> (unit result \<times> dbus_proxy_adapter) timed" where
  "DPA_Initialize env a =
     (let err = Inl (make_error_code kCommunicationLinkError 0)
      in if ca_throws env RuntimeGet \<or> ca_throws env BuildProxy then At 0 (err, a)
         else
           let a1 = a\<lparr>dpa_proxy := ca_proxy env\<rparr>
           in case ca_proxy env of
                None \<Rightarrow> At 0 (err, a1)
              | Some p \<Rightarrow>
                  if ca_available_after env = Some 0 then At 0 (Inr (), a1)
                  else if ca_throws env WaitAvailable then At 0 (err, a1)
                  else timed_bind (wait_available (ca_available_after env) (Some MAX_WAIT_MS))
                         (\<lambda>_. (Inr (), a1\<lparr>dpa_dangling := (dpa_dangling a)(p := dpa_dangling a p + 1)\<rparr>)))"

text \<open>The proxy reports a status: a listener whose variables are gone writes to them only when the
  service becomes available, which is undefined behaviour (\<open>None\<close>).\<close>

definition DPA_status_event :: "bool \<Rightarrow> nat \<Rightarrow> dbus_proxy_adapter \<Rightarrow> unit option" where
  "DPA_status_event available p a = (if available \<and> 0 < dpa_dangling a p then None else Some ())"

definition DPA_IsAvailable :: "(nat \<Rightarrow> bool) \<Rightarrow> dbus_proxy_adapter \<Rightarrow> bool" where
  "DPA_IsAvailable isAvailable a = (case dpa_proxy a of None \<Rightarrow> False | Some p \<Rightarrow> isAvailable p)"

definition DPA_GetProxy :: "dbus_proxy_adapter \<Rightarrow> nat option" where
  "DPA_GetProxy a = dpa_proxy a"

text \<open>\<open>as_int\<close> is the cast of a status to an int, which CommonAPI's enumeration fixes.\<close>

definition DPA_WrapCallStatus :: "(call_status \<Rightarrow> int) \<Rightarrow> call_status \<Rightarrow> 'v \<Rightarrow> 'v result" where
  "DPA_WrapCallStatus as_int st v =
     (if st = STATUS_SUCCESS then Inr v
      else Inl (make_error_code kCommunicationLinkError (as_int st)))"

definition DPA_WrapCallStatusVoid :: "(call_status \<Rightarrow> int) \<Rightarrow> call_status \<Rightarrow> unit result" where
  "DPA_WrapCallStatusVoid as_int st =
     (if st = STATUS_SUCCESS then Inr ()
      else Inl (make_error_code kCommunicationLinkError (as_int st)))"

lemma dbus_proxy_listener_dangles:
  assumes "ca_proxy env = Some p" "ca_available_after env \<noteq> Some 0"
    and "\<forall>c. \<not> ca_throws env c"
  shows "\<exists>d a'. DPA_Initialize env a = At d (Inr (), a') \<and> DPA_status_event True p a' = None"
  using assms by (cases "ca_available_after env")
    (auto simp: DPA_Initialize_def DPA_status_event_def Let_def)

subsection \<open>The stub adapters\<close>

text \<open>\<open>sta_stub\<close> is the stub the adapter keeps and \<open>sta_registered\<close> tells whether the runtime has a
  service registered at the adapter's address, which the code does not see.  The D-Bus adapter has no
  \<open>m_initialized\<close>.\<close>

record stub_adapter =
  sta_stub :: "nat option"
  sta_initialized :: bool
  sta_registered :: bool

definition SSA_new :: stub_adapter where
  "SSA_new = \<lparr> sta_stub = None, sta_initialized = False, sta_registered = False \<rparr>"

definition SSA_register ::
  "capi_env \<Rightarrow> nat \<Rightarrow> stub_adapter \<Rightarrow> unit someip_result \<times> stub_adapter" where
  "SSA_register env stub a =
     (if ca_throws env RuntimeGet \<or> \<not> ca_runtime env \<or> ca_throws env RegisterService
      then (Inl InitializationFailed, a)
      else if \<not> ca_registers env then (Inl RegistrationFailed, a)
      else (Inr (), a\<lparr>sta_stub := Some stub, sta_initialized := True, sta_registered := True\<rparr>))"

definition SSA_Initialize ::
  "capi_env \<Rightarrow> someip_manager \<Rightarrow> nat option \<Rightarrow> stub_adapter \<Rightarrow>
   (unit someip_result \<times> stub_adapter) outcome" where
  "SSA_Initialize env mgr stub a =
     (if sta_initialized a then Done (Inr (), a)
      else case stub of
        None \<Rightarrow> Done (Inl InvalidParameter, a)
      | Some s \<Rightarrow>
          (case SIM_IsInitialized mgr of
             Deadlock \<Rightarrow> Deadlock
           | Done (False, _) \<Rightarrow> Done (Inl NotInitialized, a)
           | Done (True, _) \<Rightarrow> Done (SSA_register env s a)))"

definition SSA_Deinitialize :: "capi_env \<Rightarrow> stub_adapter \<Rightarrow> unit someip_result \<times> stub_adapter" where
  "SSA_Deinitialize env a =
     (if \<not> sta_initialized a then (Inr (), a)
      else if ca_throws env RuntimeGet then (Inl Disconnected, a)
      else if ca_runtime env \<and> sta_stub a \<noteq> None \<and> ca_throws env UnregisterService
      then (Inl Disconnected, a)
      else (Inr (), a\<lparr>sta_stub := None, sta_initialized := False,
                      sta_registered := (sta_registered a \<and>
                        \<not> (ca_runtime env \<and> sta_stub a \<noteq> None \<and> ca_unregisters env))\<rparr>))"

text \<open>The destructor of the SOME/IP adapter calls \<open>Deinitialize\<close>; that of the D-Bus adapter does
  nothing.\<close>

definition SSA_destroy :: "capi_env \<Rightarrow> stub_adapter \<Rightarrow> stub_adapter" where
  "SSA_destroy env a = snd (SSA_Deinitialize env a)"

definition SSA_GetStub :: "stub_adapter \<Rightarrow> nat option" where
  "SSA_GetStub a = sta_stub a"

definition SSA_IsInitialized :: "stub_adapter \<Rightarrow> bool" where
  "SSA_IsInitialized a = sta_initialized a"

definition DSA_Initialize ::
  "capi_env \<Rightarrow> nat option \<Rightarrow> stub_adapter \<Rightarrow> unit result \<times> stub_adapter" where
  "DSA_Initialize env stub a =
     (let a1 = a\<lparr>sta_stub := stub\<rparr>
      in if stub = None then (Inl (make_error_code kInvalidArgument 0), a1)
         else if ca_throws env RuntimeGet \<or> ca_throws env RegisterService \<or> \<not> ca_registers env
         then (Inl (make_error_code kCommunicationLinkError 0), a1)
         else (Inr (), a1\<lparr>sta_registered := True\<rparr>))"

definition DSA_Deinitialize :: "capi_env \<Rightarrow> stub_adapter \<Rightarrow> stub_adapter" where
  "DSA_Deinitialize env a =
     (if sta_stub a = None then a
      else a\<lparr>sta_stub := None,
             sta_registered := (sta_registered a \<and>
               (ca_throws env RuntimeGet \<or> ca_throws env UnregisterService \<or> \<not> ca_unregisters env))\<rparr>)"

definition DSA_destroy :: "stub_adapter \<Rightarrow> stub_adapter" where
  "DSA_destroy a = a"

subsection \<open>What the adapters leave registered\<close>

datatype stub_op = StubInit "nat option" | StubDeinit

definition SSA_op :: "capi_env \<Rightarrow> someip_manager \<Rightarrow> stub_op \<Rightarrow> stub_adapter \<Rightarrow> stub_adapter" where
  "SSA_op env mgr op a =
     (case op of
        StubInit stub \<Rightarrow> (case SSA_Initialize env mgr stub a of Done (_, a1) \<Rightarrow> a1 | Deadlock \<Rightarrow> a)
      | StubDeinit \<Rightarrow> snd (SSA_Deinitialize env a))"

definition DSA_op :: "capi_env \<Rightarrow> stub_op \<Rightarrow> stub_adapter \<Rightarrow> stub_adapter" where
  "DSA_op env op a =
     (case op of StubInit stub \<Rightarrow> snd (DSA_Initialize env stub a) | StubDeinit \<Rightarrow> DSA_Deinitialize env a)"

text \<open>Operations, each with the answers CommonAPI gives during it; nothing is claimed of one that
  does not return.\<close>

fun SSA_run :: "someip_manager \<Rightarrow> (capi_env \<times> stub_op) list \<Rightarrow> stub_adapter \<Rightarrow> stub_adapter" where
  "SSA_run mgr [] a = a"
| "SSA_run mgr ((env, op) # ops) a = SSA_run mgr ops (SSA_op env mgr op a)"

fun DSA_run :: "(capi_env \<times> stub_op) list \<Rightarrow> stub_adapter \<Rightarrow> stub_adapter" where
  "DSA_run [] a = a"
| "DSA_run ((env, op) # ops) a = DSA_run ops (DSA_op env op a)"

definition obliging :: "capi_env \<Rightarrow> bool" where
  "obliging env \<longleftrightarrow> ca_runtime env \<and> ca_unregisters env \<and> \<not> ca_throws env RuntimeGet \<and>
     \<not> ca_throws env UnregisterService"

definition stub_inv :: "stub_adapter \<Rightarrow> bool" where
  "stub_inv a \<longleftrightarrow> (sta_initialized a \<longleftrightarrow> sta_stub a \<noteq> None) \<and> (sta_registered a \<longrightarrow> sta_initialized a)"

lemma SSA_op_inv: "stub_inv a \<Longrightarrow> obliging env \<Longrightarrow> stub_inv (SSA_op env mgr op a)"
  by (auto simp: stub_inv_def obliging_def SSA_op_def SSA_Initialize_def SSA_register_def
      SSA_Deinitialize_def SIM_IsInitialized_def lock_guard_def
      split: stub_op.split option.split bool.split)

lemma SSA_run_inv:
  "stub_inv a \<Longrightarrow> \<forall>(env, op)\<in>set ops. obliging env \<Longrightarrow> stub_inv (SSA_run mgr ops a)"
  by (induction mgr ops a rule: SSA_run.induct) (auto intro: SSA_op_inv)

text \<open>A SOME/IP stub adapter that is destroyed while CommonAPI unregisters what it is asked to
  leaves no service registered, whatever it did before and whichever of its calls failed.\<close>

lemma someip_stub_adapter_leaves_nothing:
  assumes "\<forall>(env, op)\<in>set ops. obliging env" "obliging env"
  shows "\<not> sta_registered (SSA_destroy env (SSA_run mgr ops SSA_new))"
proof -
  have "stub_inv (SSA_run mgr ops SSA_new)"
    by (rule SSA_run_inv [OF _ assms(1)]) (simp add: stub_inv_def SSA_new_def)
  then show ?thesis using assms(2)
    by (auto simp: SSA_destroy_def SSA_Deinitialize_def stub_inv_def obliging_def)
qed

definition demo_capi_env :: capi_env where
  "demo_capi_env =
     \<lparr> ca_throws = (\<lambda>_. False), ca_runtime = True, ca_proxy = Some 1, ca_available_after = Some 10,
       ca_registers = True, ca_unregisters = True \<rparr>"

lemma someip_stub_adapter_leaves_nothing_witness:
  "sta_registered (SSA_run (someip_manager_new\<lparr>sim_initialized := True\<rparr>)
      [(demo_capi_env, StubInit (Some 4))] SSA_new) \<and>
   \<not> sta_registered (SSA_destroy demo_capi_env
      (SSA_run (someip_manager_new\<lparr>sim_initialized := True\<rparr>) [(demo_capi_env, StubInit (Some 4))] SSA_new))"
proof
  show "sta_registered (SSA_run (someip_manager_new\<lparr>sim_initialized := True\<rparr>)
      [(demo_capi_env, StubInit (Some 4))] SSA_new)"
    by (simp add: SSA_op_def SSA_Initialize_def SSA_register_def SIM_IsInitialized_def lock_guard_def
        demo_capi_env_def someip_manager_new_def SSA_new_def)
  show "\<not> sta_registered (SSA_destroy demo_capi_env
      (SSA_run (someip_manager_new\<lparr>sim_initialized := True\<rparr>) [(demo_capi_env, StubInit (Some 4))] SSA_new))"
    by (rule someip_stub_adapter_leaves_nothing) (simp_all add: obliging_def demo_capi_env_def)
qed

text \<open>The D-Bus adapter loses its service when it is initialised again with no stub: the second call
  fails, and afterwards \<open>Deinitialize\<close> has nothing to unregister.\<close>

lemma dbus_stub_adapter_loses_service:
  assumes "ca_registers env" "\<forall>c. \<not> ca_throws env c"
  shows "sta_registered (DSA_destroy (DSA_run [(env, StubInit (Some s)), (e1, StubInit None), (e2, StubDeinit)] SSA_new))"
  using assms by (simp add: DSA_op_def DSA_Initialize_def DSA_Deinitialize_def DSA_destroy_def Let_def)

lemma dbus_stub_adapter_never_unregisters_itself:
  "sta_registered (DSA_destroy a) = sta_registered a"
  by (simp add: DSA_destroy_def)

text \<open>While a thread is inside \<open>Start\<close>, no adapter of SOME/IP can be initialised: \<open>Initialize\<close>
  of a proxy adapter and of a stub adapter asks the manager and waits for the mutex that \<open>Start\<close>
  holds, so a program that starts the manager first never offers or uses a service.\<close>

lemma adapters_wait_for_started_manager:
  assumes "mgr_reachable (Mgr m True s)" "\<not> pa_initialized p" "\<not> sta_initialized a"
  shows "SPA_Initialize env m t p = Never \<and> SSA_Initialize env m (Some stub) a = Deadlock"
proof -
  have "SIM_IsInitialized m = Deadlock"
    using mgr_reachable_inv [OF assms(1)] by (simp add: SIM_IsInitialized_def)
  then show ?thesis using assms(2,3) by (simp add: SPA_Initialize_def SSA_Initialize_def)
qed

lemma adapters_wait_for_started_manager_witness:
  "SPA_Initialize demo_capi_env demo_started 5000 SPA_new = Never"
  using adapters_wait_for_started_manager [OF demo_started_reachable, of SPA_new SSA_new]
  by (simp add: SPA_new_def SSA_new_def)

end
