(* ===== verification/DbusBinding.thy ===== *)
theory DbusBinding
  imports Locks Bytes
begin

text \<open>
  binding/dbus: the connection manager, methods, events and fields over sdbus-c++, which is not part
  of the repository.  What its calls answer, which of them throw an \<open>sdbus::Error\<close> and what happens
  to a message on the bus are arguments.  A trivially copyable type is its size, its bytes in memory,
  the value of such bytes and the value-initialised value; \<open>pod\<close> is the contract of such a type.
  Getters and setters of the application return; a mutex is kept where a callback runs under it.
\<close>

subsection \<open>Trivially copyable types\<close>

record 'a pod_type =
  pt_size :: nat
  pt_rep :: "'a \<Rightarrow> u8 list"
  pt_abs :: "u8 list \<Rightarrow> 'a"
  pt_default :: 'a

definition pod_Serialize :: "'a pod_type \<Rightarrow> 'a \<Rightarrow> u8 list" where
  "pod_Serialize T v = pt_rep T v"

definition pod_Deserialize :: "'a pod_type \<Rightarrow> u8 list \<Rightarrow> 'a" where
  "pod_Deserialize T buf =
     (if pt_size T \<le> length buf then pt_abs T (take (pt_size T) buf) else pt_default T)"

definition pod_word :: "byte_order \<Rightarrow> nat \<Rightarrow> 'a::len word pod_type" where
  "pod_word bo nb = \<lparr> pt_size = nb, pt_rep = int_bytes bo nb, pt_abs = bytes_int bo nb, pt_default = 0 \<rparr>"

locale pod =
  fixes T :: "'a pod_type"
  assumes length_rep [simp]: "length (pt_rep T v) = pt_size T"
    and abs_rep [simp]: "pt_abs T (pt_rep T v) = v"
begin

lemma deserialize_serialize [simp]: "pod_Deserialize T (pod_Serialize T v @ rest) = v"
  by (simp add: pod_Deserialize_def pod_Serialize_def)

lemma deserialize_exact [simp]: "pod_Deserialize T (pod_Serialize T v) = v"
  using deserialize_serialize [of v "[]"] by simp

text \<open>A buffer that is too short reads as the default value, without an error.\<close>

lemma deserialize_truncated:
  "n < pt_size T \<Longrightarrow> pod_Deserialize T (take n (pod_Serialize T v)) = pt_default T"
  by (simp add: pod_Deserialize_def pod_Serialize_def)

lemma serialize_inj: "pod_Serialize T v = pod_Serialize T w \<Longrightarrow> v = w"
  by (metis deserialize_exact)

lemma split_concat:
  "map (\<lambda>i. pt_abs T (take (pt_size T) (drop (i * pt_size T) (concat (map (pt_rep T) vs) @ rest))))
     [0..<length vs] = vs"
proof (induction vs)
  case (Cons v vs)
  have "map (\<lambda>i. pt_abs T (take (pt_size T) (drop (i * pt_size T) (concat (map (pt_rep T) (v # vs)) @ rest))))
      (map Suc [0..<length vs]) = vs"
    using Cons by (simp add: comp_def)
  then show ?case unfolding list.size add_Suc_right add_0_right upt_conv_Cons [OF zero_less_Suc]
    by (simp add: map_Suc_upt)
qed simp

end

lemma pod_word_pod:
  assumes "LENGTH('a) = 8 * nb"
  shows "pod (pod_word bo nb :: 'a::len word pod_type)"
  by unfold_locales (simp_all add: pod_word_def bytes_int_bytes [OF assms])

interpretation pod8: pod "pod_word bo 1 :: u8 pod_type" for bo by (rule pod_word_pod) simp
interpretation pod16: pod "pod_word bo 2 :: u16 pod_type" for bo by (rule pod_word_pod) simp
interpretation pod32: pod "pod_word bo 4 :: u32 pod_type" for bo by (rule pod_word_pod) simp
interpretation pod64: pod "pod_word bo 8 :: u64 pod_type" for bo by (rule pod_word_pod) simp

subsection \<open>Strings and vectors\<close>

definition EventSerializer_String :: "byte_order \<Rightarrow> string \<Rightarrow> u8 list" where
  "EventSerializer_String bo str =
     (let sz = of_nat (length str) :: u32
      in pod_Serialize (pod_word bo 4) sz @ map char_byte (take (unat sz) str))"

definition DeserializeString :: "byte_order \<Rightarrow> u8 list \<Rightarrow> string" where
  "DeserializeString bo buf =
     (if length buf < 4 then []
      else
        let sz = pod_Deserialize (pod_word bo 4) buf :: u32
        in if length buf < 4 + unat sz then []
           else map byte_char (take (unat sz) (drop 4 buf)))"

definition EventSerializer_Vector :: "byte_order \<Rightarrow> 'a pod_type \<Rightarrow> 'a list \<Rightarrow> u8 list" where
  "EventSerializer_Vector bo T vec =
     (let cnt = of_nat (length vec) :: u32
      in pod_Serialize (pod_word bo 4) cnt @ take (unat cnt * pt_size T) (concat (map (pt_rep T) vec)))"

definition DeserializeVector :: "byte_order \<Rightarrow> 'a pod_type \<Rightarrow> u8 list \<Rightarrow> 'a list" where
  "DeserializeVector bo T buf =
     (if length buf < 4 then []
      else
        let cnt = pod_Deserialize (pod_word bo 4) buf :: u32
        in if length buf < 4 + unat cnt * pt_size T then []
           else map (\<lambda>i. pt_abs T (take (pt_size T) (drop (i * pt_size T) (drop 4 buf)))) [0..<unat cnt])"

lemma length_prefix:
  "length (pod_Serialize (pod_word bo 4) (n :: u32)) = 4"
  using pod32.length_rep [of bo n] by (simp add: pod_Serialize_def pod_word_def)

lemma unat_length_u32 [simp]: "length xs < 2 ^ 32 \<Longrightarrow> unat (of_nat (length xs) :: u32) = length xs"
  by (simp add: unat_of_nat)

lemma string_roundtrip:
  "length str < 2 ^ 32 \<Longrightarrow> DeserializeString bo (EventSerializer_String bo str @ rest) = str"
  by (simp add: DeserializeString_def EventSerializer_String_def Let_def length_prefix)

lemma length_concat_reps: "pod T \<Longrightarrow> length (concat (map (pt_rep T) vec)) = length vec * pt_size T"
  by (induction vec) (simp_all add: pod.length_rep)

lemma vector_roundtrip:
  assumes "pod T" "length vec < 2 ^ 32"
  shows "DeserializeVector bo T (EventSerializer_Vector bo T vec @ rest) = vec"
  using assms pod.split_concat [OF assms(1), of vec rest]
  by (simp add: DeserializeVector_def EventSerializer_Vector_def Let_def length_prefix length_concat_reps)

text \<open>Round trip of the D-Bus event serializers: strings and vectors of trivially copyable values
  of fewer than 2 to the 32 elements are read back, and every proper prefix of an encoding reads as
  the empty string or vector, not as an error.\<close>

lemma dbus_serializers_roundtrip:
  assumes "pod T" "length vec < 2 ^ 32" "length str < 2 ^ 32"
    and "n < length (EventSerializer_Vector bo T vec)" "k < length (EventSerializer_String bo str)"
  shows "DeserializeVector bo T (EventSerializer_Vector bo T vec) = vec \<and>
    DeserializeString bo (EventSerializer_String bo str) = str \<and>
    DeserializeVector bo T (take n (EventSerializer_Vector bo T vec)) = [] \<and>
    DeserializeString bo (take k (EventSerializer_String bo str)) = []"
proof (intro conjI)
  have head: "pod_Deserialize (pod_word bo 4) (take m (pod_Serialize (pod_word bo 4) w @ bs)) = (w :: u32)"
    if "4 \<le> m" for m w bs
    using that pod32.deserialize_serialize [of bo w "take (m - 4) bs"] by (simp add: length_prefix)
  show "DeserializeVector bo T (take n (EventSerializer_Vector bo T vec)) = []"
    using assms(1,2,4) head [of n "of_nat (length vec)"]
    by (simp add: DeserializeVector_def EventSerializer_Vector_def Let_def length_prefix length_concat_reps
        not_less)
  show "DeserializeString bo (take k (EventSerializer_String bo str)) = []"
    using assms(3,5) head [of k "of_nat (length str)"]
    by (simp add: DeserializeString_def EventSerializer_String_def Let_def length_prefix not_less)
qed (use assms vector_roundtrip [of T vec bo "[]"] string_roundtrip [of str bo "[]"] in simp_all)

lemma dbus_serializers_roundtrip_witness:
  "let T = pod_word kLittleEndian 2 :: u16 pod_type; bo = kLittleEndian
   in DeserializeVector bo T (EventSerializer_Vector bo T [7, 515]) = [7, 515] \<and>
      DeserializeString bo (EventSerializer_String bo ''ab'') = ''ab'' \<and>
      DeserializeVector bo T (take 0 (EventSerializer_Vector bo T [7, 515])) = [] \<and>
      DeserializeString bo (take 5 (EventSerializer_String bo ''ab'')) = []"
  unfolding Let_def
  by (rule dbus_serializers_roundtrip [OF pod16.pod_axioms])
    (simp_all add: EventSerializer_Vector_def EventSerializer_String_def Let_def length_prefix)

subsection \<open>Methods\<close>

text \<open>What happens to a call on the bus: it is answered, the handler runs but the answer does not
  arrive in time, or the handler does not run.  A call that is not answered throws.\<close>

datatype call_fate = Answered | AnswerLost | NotDelivered

text \<open>The function \<open>RegisterMethod\<close> gives to the bus: a handler that throws (\<open>None\<close>) makes the call an
  error.\<close>

definition method_impl ::
  "'q pod_type \<Rightarrow> 'r pod_type \<Rightarrow> ('q \<Rightarrow> 's \<Rightarrow> 'r option \<times> 's) \<Rightarrow> u8 list \<Rightarrow> 's \<Rightarrow> u8 list option \<times> 's" where
  "method_impl Q R handler requestBuffer s =
     (let request = pod_Deserialize Q requestBuffer; (response, s1) = handler request s
      in (map_option (pod_Serialize R) response, s1))"

definition method_impl_void ::
  "'q pod_type \<Rightarrow> ('q \<Rightarrow> 's \<Rightarrow> unit option \<times> 's) \<Rightarrow> u8 list \<Rightarrow> 's \<Rightarrow> u8 list option \<times> 's" where
  "method_impl_void Q handler requestBuffer s =
     (let request = pod_Deserialize Q requestBuffer; (finished, s1) = handler request s
      in (map_option (\<lambda>_. []) finished, s1))"

type_synonym 's method_table = "string \<Rightarrow> (u8 list \<Rightarrow> 's \<Rightarrow> u8 list option \<times> 's) option"

definition DMS_RegisterMethod ::
  "'q pod_type \<Rightarrow> 'r pod_type \<Rightarrow> string \<Rightarrow> ('q \<Rightarrow> 's \<Rightarrow> 'r option \<times> 's) \<Rightarrow> 's method_table \<Rightarrow> 's method_table" where
  "DMS_RegisterMethod Q R name handler table = table(name \<mapsto> method_impl Q R handler)"

definition DMS_RegisterMethodVoid ::
  "'q pod_type \<Rightarrow> string \<Rightarrow> ('q \<Rightarrow> 's \<Rightarrow> unit option \<times> 's) \<Rightarrow> 's method_table \<Rightarrow> 's method_table" where
  "DMS_RegisterMethodVoid Q name handler table = table(name \<mapsto> method_impl_void Q handler)"

definition bus_call ::
  "'s method_table \<Rightarrow> call_fate \<Rightarrow> string \<Rightarrow> u8 list \<Rightarrow> 's \<Rightarrow> u8 list option \<times> 's" where
  "bus_call table fate name buf s =
     (case table name of
        None \<Rightarrow> (None, s)
      | Some impl \<Rightarrow>
          (case fate of
             NotDelivered \<Rightarrow> (None, s)
           | Answered \<Rightarrow> impl buf s
           | AnswerLost \<Rightarrow> (None, snd (impl buf s))))"

text \<open>The product of two unsigned 32-bit values is computed in 32 bits before the bus sees it.\<close>

definition timeout_us :: "u32 \<Rightarrow> u64" where
  "timeout_us timeoutMs = ucast (timeoutMs * 1000)"

text \<open>The fate of a call whose handler answers after \<open>d\<close> microseconds, under a timeout that is not
  zero (with zero the bus library uses its own).\<close>

definition fate_of :: "u64 \<Rightarrow> nat \<Rightarrow> call_fate" where
  "fate_of timeout d = (if d \<le> unat timeout then Answered else AnswerLost)"

definition DMC_CallMethod ::
  "'q pod_type \<Rightarrow> 'r pod_type \<Rightarrow> 's method_table \<Rightarrow> (u64 \<Rightarrow> call_fate) \<Rightarrow> string \<Rightarrow> 'q \<Rightarrow> u32 \<Rightarrow> 's \<Rightarrow>
   'r result \<times> 's" where
  "DMC_CallMethod Q R table fate name request timeoutMs s =
     (case bus_call table (fate (timeout_us timeoutMs)) name (pod_Serialize Q request) s of
        (Some responseBuffer, s1) \<Rightarrow> (Ok (pod_Deserialize R responseBuffer), s1)
      | (None, s1) \<Rightarrow> (Inl (make_error_code kCommunicationLinkError 0), s1))"

definition DMC_CallMethodVoid ::
  "'q pod_type \<Rightarrow> 's method_table \<Rightarrow> (u64 \<Rightarrow> call_fate) \<Rightarrow> string \<Rightarrow> 'q \<Rightarrow> u32 \<Rightarrow> 's \<Rightarrow> unit result \<times> 's" where
  "DMC_CallMethodVoid Q table fate name request timeoutMs s =
     (case bus_call table (fate (timeout_us timeoutMs)) name (pod_Serialize Q request) s of
        (Some _, s1) \<Rightarrow> (Ok (), s1)
      | (None, s1) \<Rightarrow> (Inl (make_error_code kCommunicationLinkError 0), s1))"

definition DMC_CallMethodAsync ::
  "'q pod_type \<Rightarrow> 'r pod_type \<Rightarrow> 's method_table \<Rightarrow> (u64 \<Rightarrow> call_fate) \<Rightarrow> string \<Rightarrow> 'q \<Rightarrow> 's \<Rightarrow> 'r result \<times> 's" where
  "DMC_CallMethodAsync Q R table fate name request s = DMC_CallMethod Q R table fate name request 5000 s"

lemma timeout_us_exact: "unat (timeout_us t) = unat t * 1000 \<longleftrightarrow> unat t \<le> 4294967"
proof -
  have "unat (timeout_us t) = (unat t * 1000) mod 2 ^ 32"
    by (simp add: timeout_us_def unsigned_ucast_eq take_bit_eq_mod unat_word_ariths)
  then show ?thesis by (auto simp: mod_eq_self_iff_div_eq_0 div_eq_0_iff)
qed



text \<open>A client and a server that disagree on the response type: the client reads a default value out
  of an answer that is too short, and reports success.\<close>

lemma dbus_short_answer_is_default:
  assumes "pod Q" "pod R'" "pt_size R' < pt_size R" "handler request s = (Some response, s1)"
  shows "DMC_CallMethod Q R (DMS_RegisterMethod Q R' name handler table) (\<lambda>_. Answered) name request t s =
    (Ok (pt_default R), s1)"
proof -
  have "length (pod_Serialize R' response) < pt_size R"
    using pod.length_rep [OF assms(2)] assms(3) by (simp add: pod_Serialize_def)
  then show ?thesis using assms(1,4)
    by (simp add: DMC_CallMethod_def DMS_RegisterMethod_def bus_call_def method_impl_def
        pod.deserialize_exact) (simp add: pod_Deserialize_def)
qed

text \<open>The timeout in milliseconds is honoured exactly up to 4294967: above, the product wraps, so
  for some handlers that answer in time the call is reported as failed.\<close>

lemma dbus_timeout_honoured:
  "(\<forall>d. fate_of (timeout_us t) d = (if d \<le> unat t * 1000 then Answered else AnswerLost)) \<longleftrightarrow>
     unat t \<le> 4294967"
proof
  assume all: "\<forall>d. fate_of (timeout_us t) d = (if d \<le> unat t * 1000 then Answered else AnswerLost)"
  have "d \<le> unat (timeout_us t) \<longleftrightarrow> d \<le> unat t * 1000" for d
    using all [rule_format, of d] by (auto simp: fate_of_def split: if_splits)
  then have "unat (timeout_us t) = unat t * 1000" by (metis order.antisym order.refl)
  then show "unat t \<le> 4294967" by (simp only: timeout_us_exact)
next
  assume "unat t \<le> 4294967"
  then have "unat (timeout_us t) = unat t * 1000" by (simp only: timeout_us_exact)
  then show "\<forall>d. fate_of (timeout_us t) d = (if d \<le> unat t * 1000 then Answered else AnswerLost)"
    by (simp add: fate_of_def)
qed

subsection \<open>Events\<close>

definition GenerateSignalName :: "string \<Rightarrow> string" where
  "GenerateSignalName eventName = ''Event_'' @ eventName"

definition GenerateInterfaceName :: "string \<Rightarrow> string" where
  "GenerateInterfaceName serviceInterface = ''com.lap.service.'' @ serviceInterface"

text \<open>The publisher: the signals it has emitted, its counters.  \<open>emits\<close> is false if making or
  emitting the signal throws.\<close>

record dbus_publisher =
  dp_emitted :: "u8 list list"
  dp_sentCount :: u32
  dp_subscriberCount :: u32

definition DEP_new :: dbus_publisher where
  "DEP_new = \<lparr> dp_emitted = [], dp_sentCount = 0, dp_subscriberCount = 0 \<rparr>"

definition DEP_Send :: "'e pod_type \<Rightarrow> bool \<Rightarrow> 'e \<Rightarrow> dbus_publisher \<Rightarrow> unit result \<times> dbus_publisher" where
  "DEP_Send T emits data p =
     (let buffer = pod_Serialize T data
      in if \<not> emits then (Inl (make_error_code kCommunicationLinkError 0), p)
         else (Ok (), p\<lparr>dp_emitted := dp_emitted p @ [buffer], dp_sentCount := dp_sentCount p + 1\<rparr>))"

definition DEP_GetSubscriberCount :: "dbus_publisher \<Rightarrow> u32" where
  "DEP_GetSubscriberCount p = dp_subscriberCount p"

definition DEP_SetSubscriberCount :: "u32 \<Rightarrow> dbus_publisher \<Rightarrow> dbus_publisher" where
  "DEP_SetSubscriberCount c p = p\<lparr>dp_subscriberCount := c\<rparr>"

text \<open>The subscriber: its callback (a change of the application's state, or none) and whether the bus
  calls it for the signal.  A callback that throws (\<open>None\<close>) is logged.\<close>

type_synonym ('e, 's) dbus_callback = "'e \<Rightarrow> 's \<Rightarrow> 's option"

record ('e, 's) dbus_subscriber =
  ds_callback :: "('e, 's) dbus_callback option"
  ds_registered :: bool

definition DES_new :: "('e, 's) dbus_subscriber" where
  "DES_new = \<lparr> ds_callback = None, ds_registered = False \<rparr>"

text \<open>\<open>refused\<close> tells whether the registration throws: before the signal is registered
  (\<open>Some False\<close>) or after it, when the registration is finished (\<open>Some True\<close>).\<close>

definition DES_Subscribe ::
  "bool option \<Rightarrow> ('e, 's) dbus_callback option \<Rightarrow> ('e, 's) dbus_subscriber \<Rightarrow>
   unit result \<times> ('e, 's) dbus_subscriber" where
  "DES_Subscribe refused cb d =
     (let d1 = d\<lparr>ds_callback := cb\<rparr>
      in case refused of
           Some False \<Rightarrow> (Inl (make_error_code kCommunicationLinkError 0), d1)
         | Some True \<Rightarrow> (Inl (make_error_code kCommunicationLinkError 0), d1\<lparr>ds_registered := True\<rparr>)
         | None \<Rightarrow> (Ok (), d1\<lparr>ds_registered := True\<rparr>))"

definition DES_Unsubscribe :: "bool \<Rightarrow> ('e, 's) dbus_subscriber \<Rightarrow> ('e, 's) dbus_subscriber" where
  "DES_Unsubscribe throws d =
     (if throws then d else d\<lparr>ds_registered := False, ds_callback := None\<rparr>)"

text \<open>The handler of the signal: the state of the application after it.\<close>

definition DES_on_signal ::
  "'e pod_type \<Rightarrow> ('e, 's) dbus_subscriber \<Rightarrow> u8 list \<Rightarrow> 's \<Rightarrow> 's" where
  "DES_on_signal T d buf s =
     (if \<not> ds_registered d then s
      else
        let data = pod_Deserialize T buf
        in case ds_callback d of
             None \<Rightarrow> s
           | Some f \<Rightarrow> (case f data s of Some s1 \<Rightarrow> s1 | None \<Rightarrow> s))"

fun DEP_send_all :: "'e pod_type \<Rightarrow> (bool \<times> 'e) list \<Rightarrow> dbus_publisher \<Rightarrow> unit result list \<times> dbus_publisher" where
  "DEP_send_all T [] p = ([], p)"
| "DEP_send_all T ((emits, data) # es) p =
     (let (r, p1) = DEP_Send T emits data p; (rs, p2) = DEP_send_all T es p1 in (r # rs, p2))"

lemma DEP_send_all_emitted:
  "dp_emitted (snd (DEP_send_all T es p)) =
     dp_emitted p @ map (pod_Serialize T) (map snd (filter fst es))"
  "dp_sentCount (snd (DEP_send_all T es p)) = dp_sentCount p + of_nat (length (filter fst es))"
  "fst (DEP_send_all T es p) =
     map (\<lambda>(emits, data). if emits then Ok () else Inl (make_error_code kCommunicationLinkError 0)) es"
  by (induction T es p rule: DEP_send_all.induct)
    (auto simp: DEP_Send_def Let_def case_prod_unfold)

text \<open>C40: Every event whose \<open>Send\<close> reports success reaches the callback of a subscriber, once, in the
  order of sending and with the value sent, when the bus hands over the emitted signals in order; an
  event whose \<open>Send\<close> fails does not reach it, and the publisher has counted what it sent.\<close>

theorem dbus_events_arrive:
  assumes T: "pod T" and sub: "DES_Subscribe None (Some (\<lambda>e seen. Some (seen @ [e]))) DES_new = (r, d)"
    and sent: "DEP_send_all T es DEP_new = (rs, p)"
  shows "fold (DES_on_signal T d) (dp_emitted p) [] = map snd (filter (\<lambda>(q, e). has_value q) (zip rs (map snd es))) \<and>
    dp_sentCount p = of_nat (length (filter has_value rs))"
proof -
  have d: "ds_registered d" "ds_callback d = Some (\<lambda>e seen. Some (seen @ [e]))"
    using sub by (auto simp: DES_Subscribe_def)
  have step: "DES_on_signal T d (pod_Serialize T e) seen = seen @ [e]" for e seen
    using d T by (simp add: DES_on_signal_def pod.deserialize_exact)
  have seen: "fold (DES_on_signal T d) (map (pod_Serialize T) vs) seen = seen @ vs" for vs seen
    by (induction vs arbitrary: seen) (simp_all add: step)
  have "dp_emitted p = map (pod_Serialize T) (map snd (filter fst es))"
    using DEP_send_all_emitted(1) [of T es DEP_new] sent by (simp add: DEP_new_def)
  then have "fold (DES_on_signal T d) (dp_emitted p) [] = map snd (filter fst es)"
    by (simp only: seen append_Nil)
  moreover have rs: "rs = map (\<lambda>(emits, data). if emits then Ok () else Inl (make_error_code kCommunicationLinkError 0)) es"
    using DEP_send_all_emitted(3) [of T es DEP_new] sent by simp
  have "map snd (filter (\<lambda>(q, e). has_value q) (zip rs (map snd es))) = map snd (filter fst es)"
    unfolding rs by (induction es) (auto split: if_splits)
  moreover have "length (filter has_value rs) = length (filter fst es)"
    unfolding rs by (induction es) (auto split: if_splits)
  moreover have "dp_sentCount p = of_nat (length (filter fst es))"
    using DEP_send_all_emitted(2) [of T es DEP_new] sent by (simp add: DEP_new_def)
  ultimately show ?thesis by simp
qed

lemma dbus_events_arrive_witness:
  "fold (DES_on_signal (pod_word kLittleEndian 2 :: u16 pod_type)
       (snd (DES_Subscribe None (Some (\<lambda>e seen. Some (seen @ [e]))) DES_new)))
     (dp_emitted (snd (DEP_send_all (pod_word kLittleEndian 2 :: u16 pod_type) [(True, 3), (False, 4), (True, 5)] DEP_new))) [] =
   [3, 5]"
  using dbus_events_arrive [OF pod16.pod_axioms [of kLittleEndian] prod.collapse [symmetric]
      prod.collapse [symmetric], of "[(True, 3), (False, 4), (True, 5)]"]
  by (simp add: DEP_Send_def Let_def case_prod_unfold)

subsection \<open>Fields\<close>

text \<open>The server of a field: the mutex, the cached value, the change signals it has emitted and the
  state the application's getter and setter work on.\<close>

record ('v, 's) dbus_field_server =
  dfs_locked :: bool
  dfs_current :: 'v
  dfs_signals :: "u8 list list"
  dfs_app :: 's

abbreviation dfs_lock ::
  "(('v, 's) dbus_field_server \<Rightarrow> ('r \<times> ('v, 's) dbus_field_server) outcome) \<Rightarrow> ('v, 's) dbus_field_server \<Rightarrow>
   ('r \<times> ('v, 's) dbus_field_server) outcome" where
  "dfs_lock \<equiv> lock_guard dfs_locked (\<lambda>b. dfs_locked_update (\<lambda>_. b))"

interpretation dfsl: scoped_lock dfs_locked "\<lambda>b. dfs_locked_update (\<lambda>_. b)"
  by unfold_locales simp_all

definition DFS_new :: "'v pod_type \<Rightarrow> 's \<Rightarrow> ('v, 's) dbus_field_server" where
  "DFS_new T app = \<lparr> dfs_locked = False, dfs_current = pt_default T, dfs_signals = [], dfs_app = app \<rparr>"

text \<open>What the bus calls for the property, with the callbacks that have been registered.\<close>

definition DFS_on_get ::
  "'v pod_type \<Rightarrow> ('s \<Rightarrow> 'v \<times> 's) \<Rightarrow> ('v, 's) dbus_field_server \<Rightarrow> u8 list \<times> ('v, 's) dbus_field_server" where
  "DFS_on_get T getter f =
     (let (value, app1) = getter (dfs_app f) in (pod_Serialize T value, f\<lparr>dfs_app := app1\<rparr>))"

definition DFS_on_set ::
  "'v pod_type \<Rightarrow> ('v \<Rightarrow> 's \<Rightarrow> 's) \<Rightarrow>
   ('v \<Rightarrow> ('v, 's) dbus_field_server \<Rightarrow> (unit \<times> ('v, 's) dbus_field_server) outcome) option \<Rightarrow> u8 list \<Rightarrow>
   ('v, 's) dbus_field_server \<Rightarrow> (unit \<times> ('v, 's) dbus_field_server) outcome" where
  "DFS_on_set T setter notify buffer f =
     (let value = pod_Deserialize T buffer
      in dfs_lock (\<lambda>g.
           let g1 = g\<lparr>dfs_current := value\<rparr>
           in case notify of None \<Rightarrow> Done ((), g1) | Some n \<Rightarrow> n value g1)
         (f\<lparr>dfs_app := setter value (dfs_app f)\<rparr>))"

definition DFS_NotifyPropertyChanged ::
  "'v pod_type \<Rightarrow> bool \<Rightarrow> 'v \<Rightarrow> ('v, 's) dbus_field_server \<Rightarrow> (unit \<times> ('v, 's) dbus_field_server) outcome" where
  "DFS_NotifyPropertyChanged T emits newValue =
     dfs_lock (\<lambda>f.
       let f1 = f\<lparr>dfs_current := newValue\<rparr>
       in Done ((), if emits then f1\<lparr>dfs_signals := dfs_signals f1 @ [pod_Serialize T newValue]\<rparr> else f1))"

text \<open>The callbacks of the server and the registrations of the property it has made, each with a
  getter, a setter or both.\<close>

record ('v, 's) field_callbacks =
  fc_getter :: "('s \<Rightarrow> 'v \<times> 's) option"
  fc_setter :: "('v \<Rightarrow> 's \<Rightarrow> 's) option"
  fc_notify :: "('v \<Rightarrow> ('v, 's) dbus_field_server \<Rightarrow> (unit \<times> ('v, 's) dbus_field_server) outcome) option"
  fc_registered :: "(bool \<times> bool) list"

definition field_callbacks_new :: "('v, 's) field_callbacks" where
  "field_callbacks_new = \<lparr> fc_getter = None, fc_setter = None, fc_notify = None, fc_registered = [] \<rparr>"

definition DFS_RegisterGetter ::
  "('s \<Rightarrow> 'v \<times> 's) \<Rightarrow> ('v, 's) field_callbacks \<Rightarrow> ('v, 's) field_callbacks" where
  "DFS_RegisterGetter getter c =
     c\<lparr>fc_getter := Some getter, fc_registered := fc_registered c @ [(True, False)]\<rparr>"

definition DFS_RegisterSetter ::
  "('v \<Rightarrow> 's \<Rightarrow> 's) \<Rightarrow> ('v, 's) field_callbacks \<Rightarrow> ('v, 's) field_callbacks" where
  "DFS_RegisterSetter setter c =
     c\<lparr>fc_setter := Some setter, fc_registered := fc_registered c @ [(False, True)]\<rparr>"

definition DFS_RegisterGetterSetter ::
  "('s \<Rightarrow> 'v \<times> 's) \<Rightarrow> ('v \<Rightarrow> 's \<Rightarrow> 's) \<Rightarrow> ('v, 's) field_callbacks \<Rightarrow> ('v, 's) field_callbacks" where
  "DFS_RegisterGetterSetter getter setter c =
     c\<lparr>fc_getter := Some getter, fc_setter := Some setter,
       fc_registered := fc_registered c @ [(True, True)]\<rparr>"

definition DFS_SetNotifyCallback ::
  "('v \<Rightarrow> ('v, 's) dbus_field_server \<Rightarrow> (unit \<times> ('v, 's) dbus_field_server) outcome) option \<Rightarrow>
   ('v, 's) field_callbacks \<Rightarrow> ('v, 's) field_callbacks" where
  "DFS_SetNotifyCallback callback c = c\<lparr>fc_notify := callback\<rparr>"

text \<open>The lambdas given to the bus refer to the server, so they use the callbacks in force when they
  run: replacing the notification callback later reaches a setter that is already registered.\<close>

definition DFS_serve_set ::
  "'v pod_type \<Rightarrow> ('v, 's) field_callbacks \<Rightarrow> u8 list \<Rightarrow> ('v, 's) dbus_field_server \<Rightarrow>
   (unit \<times> ('v, 's) dbus_field_server) outcome option" where
  "DFS_serve_set T c buffer f =
     map_option (\<lambda>setter. DFS_on_set T setter (fc_notify c) buffer f) (fc_setter c)"

text \<open>A getter and a setter that are registered one after the other register the property twice.\<close>

lemma dbus_property_registered_twice:
  "fc_registered (DFS_RegisterSetter st (DFS_RegisterGetter gt field_callbacks_new)) =
     [(True, False), (False, True)]"
  "fc_registered (DFS_RegisterGetterSetter gt st field_callbacks_new) = [(True, True)]"
  by (simp_all add: DFS_RegisterSetter_def DFS_RegisterGetter_def DFS_RegisterGetterSetter_def
      field_callbacks_new_def)

lemma dbus_notify_callback_in_force:
  "DFS_serve_set T (DFS_SetNotifyCallback n (DFS_RegisterSetter st c)) buffer f =
     Some (DFS_on_set T st n buffer f)"
  by (simp add: DFS_serve_set_def DFS_SetNotifyCallback_def DFS_RegisterSetter_def)

text \<open>The client; the fates of the calls are as for methods.\<close>

definition DFC_Get ::
  "'v pod_type \<Rightarrow> ('s \<Rightarrow> 'v \<times> 's) \<Rightarrow> call_fate \<Rightarrow> ('v, 's) dbus_field_server \<Rightarrow> 'v result \<times> ('v, 's) dbus_field_server" where
  "DFC_Get T getter fate f =
     (case fate of
        Answered \<Rightarrow> (let (buffer, f1) = DFS_on_get T getter f in (Ok (pod_Deserialize T buffer), f1))
      | AnswerLost \<Rightarrow> (Inl (make_error_code kCommunicationLinkError 0), snd (DFS_on_get T getter f))
      | NotDelivered \<Rightarrow> (Inl (make_error_code kCommunicationLinkError 0), f))"

definition DFC_Set ::
  "'v pod_type \<Rightarrow> ('v \<Rightarrow> 's \<Rightarrow> 's) \<Rightarrow>
   ('v \<Rightarrow> ('v, 's) dbus_field_server \<Rightarrow> (unit \<times> ('v, 's) dbus_field_server) outcome) option \<Rightarrow> call_fate \<Rightarrow> 'v \<Rightarrow>
   ('v, 's) dbus_field_server \<Rightarrow> (unit result \<times> ('v, 's) dbus_field_server) outcome" where
  "DFC_Set T setter notify fate value f =
     (case fate of
        NotDelivered \<Rightarrow> Done (Inl (make_error_code kCommunicationLinkError 0), f)
      | Answered \<Rightarrow> bind_outcome (DFS_on_set T setter notify (pod_Serialize T value) f)
                     (\<lambda>(_, f1). Done (Ok (), f1))
      | AnswerLost \<Rightarrow> bind_outcome (DFS_on_set T setter notify (pod_Serialize T value) f)
                     (\<lambda>(_, f1). Done (Inl (make_error_code kCommunicationLinkError 0), f1)))"

text \<open>The client's handler of \<open>PropertiesChanged\<close>: the value it passes to its callback, if the signal
  is about its property.\<close>

definition DFC_on_changed ::
  "'v pod_type \<Rightarrow> string \<Rightarrow> string \<Rightarrow> string \<Rightarrow> (string \<Rightarrow> u8 list option) \<Rightarrow> 'v option" where
  "DFC_on_changed T m_interfaceName m_propertyName interfaceName changedProps =
     (if interfaceName = m_interfaceName
      then map_option (pod_Deserialize T) (changedProps m_propertyName)
      else None)"

text \<open>\<open>SubscribeNotification\<close> and \<open>UnsubscribeNotification\<close> of the client keep the callback like those
  of events; they return no result, so an error of the registration is thrown on.\<close>

definition DFC_SubscribeNotification ::
  "bool option \<Rightarrow> ('e, 's) dbus_callback option \<Rightarrow> ('e, 's) dbus_subscriber \<Rightarrow>
   bool \<times> ('e, 's) dbus_subscriber" where
  "DFC_SubscribeNotification refused cb d =
     (let d1 = d\<lparr>ds_callback := cb\<rparr>
      in case refused of
           Some False \<Rightarrow> (True, d1)
         | Some True \<Rightarrow> (True, d1\<lparr>ds_registered := True\<rparr>)
         | None \<Rightarrow> (False, d1\<lparr>ds_registered := True\<rparr>))"

definition DFC_UnsubscribeNotification :: "bool \<Rightarrow> ('e, 's) dbus_subscriber \<Rightarrow> ('e, 's) dbus_subscriber" where
  "DFC_UnsubscribeNotification throws d =
     (if throws then d else d\<lparr>ds_registered := False, ds_callback := None\<rparr>)"

lemma DFC_Set_answered:
  assumes "pod T" "\<not> dfs_locked f"
  shows "DFC_Set T setter None Answered v f = Done (Ok (), f\<lparr>dfs_app := setter v (dfs_app f), dfs_current := v\<rparr>)"
  using assms
  by (cases f) (simp add: DFC_Set_def DFS_on_set_def lock_guard_def Let_def pod.deserialize_exact)

text \<open>For a getter and a setter that agree with each other, a value set over the bus is the value
  the next read returns, whatever values were set before, and every set leaves the mutex free and the
  cached value the one set.\<close>

lemma dbus_field_set_get:
  assumes T: "pod T" and agree: "\<And>v s. getter (setter v s) = (v, setter v s)" and free: "\<not> dfs_locked f"
  shows "\<exists>f1. DFC_Set T setter None Answered v f = Done (Ok (), f1) \<and> dfs_current f1 = v \<and>
    \<not> dfs_locked f1 \<and> fst (DFC_Get T getter Answered f1) = Ok v \<and> snd (DFC_Get T getter Answered f1) = f1"
  using DFC_Set_answered [OF T free] free T
  by (simp add: DFC_Get_def DFS_on_get_def agree pod.deserialize_exact Let_def)

lemma dbus_field_set_get_witness:
  "\<exists>f1. DFC_Set (pod_word kLittleEndian 2 :: u16 pod_type) (\<lambda>v s. v) None Answered 9
      (DFS_new (pod_word kLittleEndian 2) 1) = Done (Ok (), f1) \<and> dfs_current f1 = 9 \<and>
    \<not> dfs_locked f1 \<and> fst (DFC_Get (pod_word kLittleEndian 2) (\<lambda>s. (s, s)) Answered f1) = Ok 9 \<and>
    snd (DFC_Get (pod_word kLittleEndian 2) (\<lambda>s. (s, s)) Answered f1) = f1"
  by (rule dbus_field_set_get [OF pod16.pod_axioms]) (simp_all add: DFS_new_def)

text \<open>A notification callback that announces the change on the bus takes the mutex the setter of the
  property holds: the call of the client never returns.\<close>

lemma dbus_notify_in_callback_deadlocks:
  "DFS_on_set T setter (Some (DFS_NotifyPropertyChanged T emits)) buffer f = Deadlock"
  by (cases "dfs_locked f") (simp_all add: DFS_on_set_def DFS_NotifyPropertyChanged_def lock_guard_def Let_def)

text \<open>The change signal carries the value to a client that asks for the property.\<close>

lemma dbus_change_reaches_client:
  assumes "pod T" "\<not> dfs_locked f" "DFS_NotifyPropertyChanged T True v f = Done (r, f1)"
  shows "DFC_on_changed T i p i [p \<mapsto> last (dfs_signals f1)] = Some v"
  using assms by (auto simp: DFS_NotifyPropertyChanged_def lock_guard_def Let_def DFC_on_changed_def
      pod.deserialize_exact)

subsection \<open>Connection manager\<close>

text \<open>What connecting to a bus does: no connection is made, a connection is made whose event loop
  cannot be started, or it is made and its loop runs.  A connection is whether its loop runs.  Errors
  are numbers of the core error domain.\<close>

datatype bus_type = System | Session

datatype bus_answer = NoConnection | NoEventLoop | Connected

record dbus_manager =
  dcm_session :: "bool option"
  dcm_system :: "bool option"
  dcm_initialized :: bool

type_synonym 'a core_result = "nat + 'a"

definition DCM_new :: dbus_manager where
  "DCM_new = \<lparr> dcm_session = None, dcm_system = None, dcm_initialized = False \<rparr>"

fun connection_after :: "bus_answer \<Rightarrow> bool option \<Rightarrow> bool option" where
  "connection_after NoConnection c = c"
| "connection_after NoEventLoop c = Some False"
| "connection_after Connected c = Some True"

definition DCM_Initialize ::
  "bus_answer \<Rightarrow> bus_answer \<Rightarrow> dbus_manager \<Rightarrow> unit core_result \<times> dbus_manager" where
  "DCM_Initialize session system m =
     (if dcm_initialized m then (Inr (), m)
      else
        let m1 = m\<lparr>dcm_session := connection_after session (dcm_session m)\<rparr>
        in if session \<noteq> Connected then (Inl 1, m1)
           else (Inr (), m1\<lparr>dcm_system := connection_after system (dcm_system m), dcm_initialized := True\<rparr>))"

definition DCM_Deinitialize :: "dbus_manager \<Rightarrow> dbus_manager" where
  "DCM_Deinitialize m =
     (if \<not> dcm_initialized m then m
      else m\<lparr>dcm_session := None, dcm_system := None, dcm_initialized := False\<rparr>)"

definition DCM_GetSessionConnection :: "dbus_manager \<Rightarrow> bool option" where
  "DCM_GetSessionConnection m =
     (if \<not> dcm_initialized m \<or> dcm_session m = None then None else dcm_session m)"

definition DCM_GetSystemConnection :: "dbus_manager \<Rightarrow> bool option" where
  "DCM_GetSystemConnection m =
     (if \<not> dcm_initialized m \<or> dcm_system m = None then None else dcm_system m)"

definition DCM_GetConnection :: "bus_type \<Rightarrow> dbus_manager \<Rightarrow> bool option" where
  "DCM_GetConnection type m =
     (if type = System then DCM_GetSystemConnection m else DCM_GetSessionConnection m)"

definition DCM_IsInitialized :: "dbus_manager \<Rightarrow> bool" where
  "DCM_IsInitialized m = dcm_initialized m"

text \<open>The names the process owns on each bus; \<open>granted\<close> is false if the bus refuses.\<close>

definition DCM_RequestServiceName ::
  "bool \<Rightarrow> string \<Rightarrow> bus_type \<Rightarrow> dbus_manager \<Rightarrow> (bus_type \<times> string) set \<Rightarrow>
   unit core_result \<times> (bus_type \<times> string) set" where
  "DCM_RequestServiceName granted serviceName type m owned =
     (if DCM_GetConnection type m = None then (Inl 1, owned)
      else if \<not> granted then (Inl 1, owned)
      else (Inr (), insert (type, serviceName) owned))"

definition DCM_ReleaseServiceName ::
  "bool \<Rightarrow> string \<Rightarrow> bus_type \<Rightarrow> dbus_manager \<Rightarrow> (bus_type \<times> string) set \<Rightarrow> (bus_type \<times> string) set" where
  "DCM_ReleaseServiceName released serviceName type m owned =
     (if DCM_GetConnection type m \<noteq> None \<and> released then owned - {(type, serviceName)} else owned)"

datatype dcm_op = DcmInit bus_answer bus_answer | DcmDeinit

definition DCM_op :: "dcm_op \<Rightarrow> dbus_manager \<Rightarrow> dbus_manager" where
  "DCM_op op m =
     (case op of DcmInit s y \<Rightarrow> snd (DCM_Initialize s y m) | DcmDeinit \<Rightarrow> DCM_Deinitialize m)"

definition dcm_inv :: "dbus_manager \<Rightarrow> bool" where
  "dcm_inv m \<longleftrightarrow> (if dcm_initialized m then dcm_session m = Some True
     else dcm_session m \<noteq> Some True \<and> dcm_system m = None)"

lemma DCM_op_inv: "dcm_inv m \<Longrightarrow> dcm_inv (DCM_op op m)"
  by (cases op; cases "\<exists>s y. op = DcmInit s y \<and> s = NoConnection")
    (auto simp: dcm_inv_def DCM_op_def DCM_Initialize_def DCM_Deinitialize_def Let_def
      elim: connection_after.elims split: if_splits)

lemma DCM_run_inv: "dcm_inv (fold DCM_op ops DCM_new)"
proof -
  have "dcm_inv m \<Longrightarrow> dcm_inv (fold DCM_op ops m)" for m
    by (induction ops arbitrary: m) (auto intro: DCM_op_inv)
  then show ?thesis by (simp add: dcm_inv_def DCM_new_def)
qed

text \<open>After any initialisations and deinitialisations, the session connection is handed out
  exactly while the manager is initialised and its event loop then runs; the system connection is
  handed out only while the manager is initialised.\<close>

lemma dbus_manager_hands_out_live_session:
  "let m = fold DCM_op ops DCM_new
   in DCM_GetConnection Session m = (if DCM_IsInitialized m then Some True else None) \<and>
      (DCM_IsInitialized m \<or> DCM_GetConnection System m = None)"
  using DCM_run_inv [of ops]
  by (auto simp: Let_def dcm_inv_def DCM_GetConnection_def DCM_GetSessionConnection_def
      DCM_GetSystemConnection_def DCM_IsInitialized_def split: if_splits)

text \<open>The system connection may be one whose event loop could not be started.\<close>

lemma dbus_system_connection_without_loop:
  "DCM_GetConnection System (DCM_op (DcmInit Connected NoEventLoop) DCM_new) = Some False"
  by (simp add: DCM_op_def DCM_Initialize_def DCM_new_def DCM_GetConnection_def
      DCM_GetSystemConnection_def)

end
