(* ===== verification/Spec2Isabelle.thy ===== *)
theory Spec2Isabelle
  imports Runtime SeqLock E2E Serialization Event Method Field Skeleton BindingManager Deployment
    RegisterRace ConcurrentFind Transports ServiceDiscovery
    SocketMethod SocketEvent SocketField IceoryxBinding DdsBinding DdsMessage RegistryServer
    CommonApi DbusBinding
begin

text \<open>
  A verification development for the communication management component LightAP Com (C++),
  the part of an adaptive platform that lets applications offer, find and use services.

  \<^bold>\<open>Parts of the program.\<close>  A process talks to the runtime (runtime/), which keeps a pair of
  shared-memory registries (registry/): one for quality-managed (QM) services and one for ASIL
  services.  A registry is an array of slots guarded by sequence locks; the slot of a service is
  computed from its identifier.  On top of it the language binding of the standard gives proxies
  and skeletons with events, methods and fields, serialization and end-to-end protection.  The
  binding manager (binding/manager) loads transport plugins and selects one for a service.

  \<^bold>\<open>Theories.\<close>
    Prelude        widths of integers, C character buffers, shared lemmas and collections.
    ComTypes       inc/ComTypes.hpp, runtime/inc/ServiceHandleType.hpp: error domain, results,
                   versions and handles (instances of linorder).
    SeqLock        registry/inc/SeqLock.hpp: the retry loop as a function over a list of observed
                   attempts, and writers with one reader as a step relation.
    ServiceSlot    registry/inc/ServiceSlot.hpp: the slot record, its status and its operations.
    ServiceMap     the abstract registry (a partial map) and the locale service_map of its laws.
    SingleRegistry one shared-memory registry (SharedMemoryRegistry.hpp/.cpp, class
                   SingleRegistry) with the descriptors and mappings of the process.
    SharedRegistry the pair of registries, routing and slot calculation.
    Runtime        runtime/src/Runtime.cpp: initialisation, offer, find and stop-offer.
    E2E            runtime/inc/E2EProtection.hpp: CRC-8, counters, protector and checker.
    Bytes, Serialization
                   runtime/inc/Serialization.hpp: the binary serializer and deserializer, over the
                   locale stream_codec of prefix codes.
    Locks          scoped locking of a mutex that is not recursive (locale scoped_lock).
    Event, Method, Field, Skeleton
                   runtime/inc/Event.hpp, Method.hpp, Field.hpp, ProxyBase.hpp, SkeletonBase.hpp.
    BindingManager binding/manager: loading, unloading, selection, health and reload.
    Frames         binding/socket/inc/ProtobufSerializer.hpp: the length prefix, over the same locale
                   of prefix codes.
    SocketManager  SocketConnectionManager.hpp: sockets, endpoints, socket files and the connections
                   of a process, over the results of the system calls.
    SocketIO       its two transfer loops (send and receive in chunks), which terminate by fuel: a
                   call that makes progress consumes a byte of the request.
    SocketMethod, SocketEvent, SocketField
                   the caller and responder of methods, the publisher and subscriber of events and
                   the client and server of fields over Unix domain sockets.
    Transport      binding/common/ITransportBinding.hpp: the operations of a binding as data, traces of
                   library calls with their live handles, and the locale binding_lifecycle.
    IceoryxBinding, DdsBinding
                   binding/iceoryx2, binding/dds: the two bindings over libraries, each an
                   interpretation of binding_lifecycle; the answers of the library are arguments.
    SomeIp, SomeIpBinding
                   binding/someip/inc: the connection manager with the thread that runs it (a step
                   relation), method calls, subscriptions and fields over CommonAPI and vsomeip.
    CommonApi      binding/iceoryx2/inc: the adapters around CommonAPI proxies and stubs.
    DbusBinding    binding/dbus/inc: serializers over trivially copyable types (locale pod), methods,
                   events, fields and connections over sdbus-c++.
    DdsMessage     binding/dds/idl: the message type of the DDS binding and its plug-in, over an
                   interface of Fast CDR (record cdr_lib) with its documented laws (cdr_laws).
    Transports     the plugin interface of the binding manager on the answers of the iceoryx2 and the
                   DDS binding.
    RegistryServer RegistryInitializer.hpp/.cpp and daemon/lap-registry-init.cpp: the daemon that
                   creates a registry and passes its descriptor to the clients.
    Deployment     the two daemons' memory with the runtimes of any number of processes, which start,
                   stop, register, withdraw, find and die in any order.
    RegisterRace   overlapping calls of RegisterService, each split between its test of the slot and
                   its writer scope, as a step relation.
    ConcurrentFind FindService over the sequence lock while the writer scopes of the registry store
                   into the cells of the slot.
    ServiceDiscovery
                   runtime/inc/ServiceDiscovery.hpp: the data types of the planned discovery service.

  \<^bold>\<open>Conventions.\<close>  Machine integers are words of their width; Result is a sum with the error on
  the left; Optional is option; a std::mutex is a flag of the state, and taking it again gives the
  outcome Deadlock; operating system calls, plugins and the YAML parser are arguments of the
  definitions.  Every operation that changes state returns the new state.

  \<^bold>\<open>What the lemmas show.\<close>  The registry pair refines a partial map from identifiers to offers, keeps
  its well-formedness and isolates QM from ASIL identifiers; a sequence lock with serialised
  writers yields snapshots, and without serialisation it does not; registering, finding and
  unregistering through the runtime agrees with the abstract map; descriptors and mappings are
  released on every path; serialization is a prefix code, so it round-trips and rejects every
  truncation; the CRC detects any change of one byte and the counter supervision accepts exactly
  its window; events keep the newest samples in order within the bound; offers are balanced
  through moves; the binding manager selects a supporting binding of greatest priority and
  reloads converge.  Over sockets: descriptors and socket files are balanced; a frame is received
  as it was sent however the kernel cuts it; a remote call returns what the handler computes;
  every subscriber receives the samples of a publisher in order; a field server is a register.
  The bindings over iceoryx2 and DDS give back every handle after any sequence of calls, and the
  offers of the former refine a map; the daemon returns exactly when it is shut down, releases what
  it holds and hands out well-formed registries.  A call over D-Bus has the effect and the result of
  its handler, events over D-Bus arrive in order, and its timeout is honoured up to the width of its
  product; the SOME/IP manager cannot be stopped while it runs, and destroyed subscriptions and
  stubs leave nothing behind unless the library refuses.  Processes that share the memory of the
  daemons see one directory of services as long as their calls do not overlap; when registrations
  do overlap, one accepted service is left in the slot, and the others are lost.  A search that
  overlaps serialised writers of its slot returns one whole offer.  An event sent over
  DDS crosses serialization unchanged up to 100 octets of data.  Lemmas beside the properties show
  where the code departs from its documentation: deadlocks, stale samples, plugins destroyed after
  their library, lost registrations.

  \<^bold>\<open>Bounds.\<close>  The retry loop of the sequence lock is a recursion over the attempts, with the code's
  limit of 1000; the loops over sockets recurse on the
  bytes still missing and the number of connections the listener serves.  The sizes of the DDS
  message are computed at the width of size_t, its lengths at 32 bits; payloads are below 2 ^ 32
  octets where the laws of Fast CDR need it.  Availability in the binding manager is an exact quotient
  where the code computes a double.

  \<^bold>\<open>Not modelled.\<close>  Memory orders weaker than sequential consistency; what vsomeip, CommonAPI,
  sdbus-c++, Fast DDS and iceoryx2 do with a message beyond the answers their calls give (the
  encoding of Fast CDR enters by its laws); the classes of ServiceDiscovery.hpp, which are declared
  and not implemented; the pure interfaces (Serializer, Trigger), which have no code; generated
  protobuf code, build files, tools, tests, examples and documents; logging.
\<close>

end
